(* ===== verification/Prelude.thy ===== *)
theory Prelude
  imports Main "HOL-Library.Char_ord" "HOL-Library.List_Lexorder"
begin

text \<open>
  Shared ground of the development: the named collections that the component theories fill,
  the names of the Go types the models use, and generic lemmas on lists, options and sums.

  A Go \<open>string\<close> or \<open>[]byte\<close> is a byte sequence and is modelled as \<^typ>\<open>string\<close> (a list of
  8-bit characters, so \<open>length\<close> is Go's \<open>len\<close>).  An \<open>int\<close>, \<open>int64\<close> or row identifier that
  the code only compares is an \<^typ>\<open>int\<close>; where the width matters (frames, modes, user ids)
  the component theories use words.  A function returning \<open>(T, error)\<close> returns a sum, with
  \<open>Inl\<close> for the error.
\<close>

named_theorems trim_simps \<open>evaluation and shape of strings.TrimSpace\<close>
named_theorems page_simps \<open>facts about validated collection pages\<close>
named_theorems handler_defs \<open>the request handlers, to be unfolded in a case analysis\<close>

type_synonym int64 = int
type_synonym bytes = string

abbreviation byte :: "char \<Rightarrow> nat" where
  "byte c \<equiv> of_char c"

lemma byte_less [simp]: "byte c < 256"
  by simp

section \<open>Sums\<close>

fun is_ok :: "'e + 'a \<Rightarrow> bool" where
  "is_ok (Inl e) = False"
| "is_ok (Inr x) = True"

lemma is_ok_iff: "is_ok r \<longleftrightarrow> (\<exists>x. r = Inr x)"
  by (cases r) auto

text \<open>A sequence of guards that ends well: every guard is off and every call succeeded.\<close>

lemma guard_if: "(if g then Inl e else r) = Inr x \<longleftrightarrow> \<not> g \<and> r = Inr x"
  by simp

lemma guard_unit: "(case r of Inl e \<Rightarrow> Inl (k e) | Inr u \<Rightarrow> r') = Inr x \<longleftrightarrow> r = Inr () \<and> r' = Inr x"
  by (cases r) auto

lemma guard_none: "(case m of None \<Rightarrow> r | Some e \<Rightarrow> Inl (k e)) = Inr x \<longleftrightarrow> m = None \<and> r = Inr x"
  by (cases m) auto

lemma guard_some: "(case m of None \<Rightarrow> Inl e | Some y \<Rightarrow> f y) = Inr x \<longleftrightarrow> (\<exists>y. m = Some y \<and> f y = Inr x)"
  by (cases m) auto

lemmas guard_simps = guard_if guard_unit guard_none guard_some

text \<open>Traversal of a list by a fallible function, stopping at the first error.\<close>

fun map_sum_list :: "('a \<Rightarrow> 'e + 'b) \<Rightarrow> 'a list \<Rightarrow> 'e + 'b list" where
  "map_sum_list f [] = Inr []"
| "map_sum_list f (x # xs) =
     (case f x of Inl e \<Rightarrow> Inl e
      | Inr y \<Rightarrow> (case map_sum_list f xs of Inl e \<Rightarrow> Inl e | Inr ys \<Rightarrow> Inr (y # ys)))"

lemma map_sum_list_length: "map_sum_list f xs = Inr ys \<Longrightarrow> length ys = length xs"
  by (induction xs arbitrary: ys) (auto split: sum.splits)

lemma map_sum_list_nth:
  "map_sum_list f xs = Inr ys \<Longrightarrow> i < length xs \<Longrightarrow> f (xs ! i) = Inr (ys ! i)"
proof (induction xs arbitrary: ys i)
  case Nil
  then show ?case by simp
next
  case (Cons x xs)
  from Cons.prems(1) obtain y zs
    where y: "f x = Inr y" and zs: "map_sum_list f xs = Inr zs" and ys: "ys = y # zs"
    by (auto split: sum.splits)
  show ?case
    using Cons.IH [OF zs] Cons.prems(2) y ys by (cases i) auto
qed

lemma map_sum_list_id: "(\<And>x. x \<in> set xs \<Longrightarrow> f x = Inr x) \<Longrightarrow> map_sum_list f xs = Inr xs"
  by (induction xs) auto

lemma map_sum_list_set:
  "map_sum_list f xs = Inr ys \<Longrightarrow> y \<in> set ys \<Longrightarrow> \<exists>x \<in> set xs. f x = Inr y"
  by (metis in_set_conv_nth map_sum_list_length map_sum_list_nth)

lemma map_sum_list_set_iff:
  "map_sum_list f xs = Inr ys \<Longrightarrow> y \<in> set ys \<longleftrightarrow> (\<exists>x \<in> set xs. f x = Inr y)"
  by (induction xs arbitrary: ys) (auto split: sum.splits)

section \<open>Options\<close>

fun option_list :: "'a option \<Rightarrow> 'a list" where
  "option_list None = []"
| "option_list (Some x) = [x]"

section \<open>Lists\<close>

text \<open>Order-preserving removal of duplicates that keeps the first occurrence, as the code's
  \<open>seen\<close> maps do (the library's \<open>remdups\<close> keeps the last).\<close>

fun dedup :: "'a set \<Rightarrow> 'a list \<Rightarrow> 'a list" where
  "dedup seen [] = []"
| "dedup seen (x # xs) = (if x \<in> seen then dedup seen xs else x # dedup (insert x seen) xs)"

lemma set_dedup [simp]: "set (dedup seen xs) = set xs - seen"
  by (induction xs arbitrary: seen) auto

lemma distinct_dedup [simp]: "distinct (dedup seen xs)"
  by (induction xs arbitrary: seen) auto

lemma dedup_id: "distinct xs \<Longrightarrow> set xs \<inter> seen = {} \<Longrightarrow> dedup seen xs = xs"
  by (induction xs arbitrary: seen) auto

lemma length_dedup_le: "length (dedup seen xs) \<le> length xs"
  by (induction xs arbitrary: seen) (auto simp: le_SucI)

lemma dedup_single_iff: "dedup {} xs = [x] \<longleftrightarrow> set xs = {x}"
proof
  assume "dedup {} xs = [x]"
  then have "set (dedup {} xs) = {x}" by simp
  then show "set xs = {x}" by simp
next
  assume "set xs = {x}"
  then have s: "set (dedup {} xs) = {x}" by simp
  have d: "distinct (dedup {} xs)" by (rule distinct_dedup)
  from s d show "dedup {} xs = [x]"
    by (metis distinct.simps(2) empty_iff list.set(1) list.set_intros(1) neq_Nil_conv
        set_ConsD singleton_iff list.set_intros(2))
qed

lemma sort_eq_iff_set:
  fixes xs ys :: "'a::linorder list"
  assumes "distinct xs" "distinct ys"
  shows "sort xs = sort ys \<longleftrightarrow> set xs = set ys"
  using assms by (metis set_sort sorted_list_of_set_sort_remdups distinct_remdups_id)

end
