(* ===== verification/GoStrings.thy ===== *)
theory GoStrings
  imports Prelude
begin

text \<open>
  The operations of Go's \<open>strings\<close>, \<open>bytes\<close> and \<open>unicode/utf8\<close> packages that the program
  uses, on byte strings: prefixes, substrings, splitting, trimming of Unicode white space,
  ASCII case, and UTF-8 decoding.
\<close>

section \<open>Prefixes, substrings, splitting\<close>

definition has_prefix :: "'a list \<Rightarrow> 'a list \<Rightarrow> bool" where
  "has_prefix p s \<longleftrightarrow> take (length p) s = p"

lemma has_prefix_append [simp]: "has_prefix p (p @ s)"
  by (simp add: has_prefix_def)

lemma has_prefix_iff: "has_prefix p s \<longleftrightarrow> (\<exists>t. s = p @ t)"
proof
  assume "has_prefix p s"
  then have "s = p @ drop (length p) s"
    unfolding has_prefix_def by (metis append_take_drop_id)
  then show "\<exists>t. s = p @ t" by blast
qed (auto simp: has_prefix_def)

lemma has_prefix_mono: "has_prefix p s \<Longrightarrow> has_prefix p (s @ t)"
  by (auto simp: has_prefix_iff)

fun contains :: "'a list \<Rightarrow> 'a list \<Rightarrow> bool" where
  "contains p [] = (p = [])"
| "contains p (x # xs) = (has_prefix p (x # xs) \<or> contains p xs)"

definition contains_char :: "char \<Rightarrow> string \<Rightarrow> bool" where
  "contains_char c s \<longleftrightarrow> c \<in> set s"

definition contains_any :: "string \<Rightarrow> string \<Rightarrow> bool" where
  "contains_any chars s \<longleftrightarrow> list_ex (\<lambda>c. c \<in> set chars) s"

lemma contains_iff: "contains p s \<longleftrightarrow> (\<exists>u v. s = u @ p @ v)"
proof (induction s)
  case Nil
  show ?case by auto
next
  case (Cons x xs)
  show ?case
  proof
    assume "contains p (x # xs)"
    then consider "has_prefix p (x # xs)" | "contains p xs" by auto
    then show "\<exists>u v. x # xs = u @ p @ v"
    proof cases
      case 1
      then show ?thesis by (metis append_Nil has_prefix_iff)
    next
      case 2
      with Cons.IH show ?thesis by (metis append_Cons)
    qed
  next
    assume "\<exists>u v. x # xs = u @ p @ v"
    then obtain u v where uv: "x # xs = u @ p @ v" by blast
    show "contains p (x # xs)"
    proof (cases u)
      case Nil
      with uv have "has_prefix p (x # xs)" by (auto simp: has_prefix_iff)
      then show ?thesis by simp
    next
      case (Cons y ys)
      with uv Cons.IH show ?thesis by auto
    qed
  qed
qed

text \<open>\<open>strings.Split(s, sep)\<close> for a one-byte separator: always at least one piece.\<close>

fun split_on :: "'a \<Rightarrow> 'a list \<Rightarrow> 'a list list" where
  "split_on c [] = [[]]"
| "split_on c (x # xs) =
     (if x = c then [] # split_on c xs
      else (case split_on c xs of [] \<Rightarrow> [[x]] | p # ps \<Rightarrow> (x # p) # ps))"

fun join_with :: "'a list \<Rightarrow> 'a list list \<Rightarrow> 'a list" where
  "join_with sep [] = []"
| "join_with sep [p] = p"
| "join_with sep (p # ps) = p @ sep @ join_with sep ps"

lemma split_on_nonempty [simp]: "split_on c s \<noteq> []"
  by (induction s) (auto split: list.splits)

lemma split_on_no_sep: "p \<in> set (split_on c s) \<Longrightarrow> c \<notin> set p"
proof (induction s arbitrary: p)
  case Nil
  then show ?case by simp
next
  case (Cons x xs)
  obtain q qs where q: "split_on c xs = q # qs"
    using split_on_nonempty [of c xs] by (metis neq_Nil_conv)
  with Cons.prems Cons.IH show ?case
    by (auto split: if_splits)
qed

lemma join_split: "join_with [c] (split_on c s) = s"
proof (induction s)
  case Nil
  show ?case by simp
next
  case (Cons x xs)
  obtain q qs where q: "split_on c xs = q # qs"
    using split_on_nonempty [of c xs] by (metis neq_Nil_conv)
  with Cons.IH show ?case
    by (cases qs) auto
qed

lemma split_on_id: "c \<notin> set s \<Longrightarrow> split_on c s = [s]"
  by (induction s) auto

lemma split_on_append: "c \<notin> set p \<Longrightarrow> split_on c (p @ c # s) = p # split_on c s"
  by (induction p) auto

lemma split_join:
  "ps \<noteq> [] \<Longrightarrow> (\<And>p. p \<in> set ps \<Longrightarrow> c \<notin> set p) \<Longrightarrow> split_on c (join_with [c] ps) = ps"
proof (induction ps)
  case Nil
  then show ?case by simp
next
  case (Cons p ps)
  show ?case
  proof (cases ps)
    case Nil
    with Cons.prems show ?thesis by (simp add: split_on_id)
  next
    case (Cons q qs)
    have "split_on c (join_with [c] ps) = ps"
      using Cons.IH Cons.prems Cons by auto
    with Cons Cons.prems show ?thesis by (simp add: split_on_append)
  qed
qed

lemma split_three_iff:
  "split_on c s = [x, y, z] \<longleftrightarrow>
     s = x @ [c] @ y @ [c] @ z \<and> c \<notin> set x \<and> c \<notin> set y \<and> c \<notin> set z"
proof
  assume a: "split_on c s = [x, y, z]"
  have "s = x @ [c] @ y @ [c] @ z"
    using join_split [of c s] by (simp add: a)
  moreover have "c \<notin> set x" "c \<notin> set y" "c \<notin> set z"
    using a split_on_no_sep [of _ c s] by auto
  ultimately show "s = x @ [c] @ y @ [c] @ z \<and> c \<notin> set x \<and> c \<notin> set y \<and> c \<notin> set z"
    by blast
next
  assume "s = x @ [c] @ y @ [c] @ z \<and> c \<notin> set x \<and> c \<notin> set y \<and> c \<notin> set z"
  then show "split_on c s = [x, y, z]"
    by (simp add: split_on_append split_on_id)
qed

text \<open>Joining two lists of strings with NUL compares them element by element as long as no
  element contains NUL: the code compares participant sets this way.\<close>

lemma join_with_eq_iff:
  assumes "\<And>p. p \<in> set ps \<Longrightarrow> c \<notin> set p" "\<And>p. p \<in> set qs \<Longrightarrow> c \<notin> set p"
    "ps \<noteq> []" "qs \<noteq> []"
  shows "join_with [c] ps = join_with [c] qs \<longleftrightarrow> ps = qs"
  using split_join [of ps c] split_join [of qs c] assms by metis

section \<open>White space and trimming\<close>

text \<open>The UTF-8 encodings of the code points with Unicode's \<open>White_Space\<close> property: the six
  ASCII ones, U+0085 and U+00A0, and the three-byte ones.\<close>

definition space_encodings :: "string list" where
  "space_encodings = map (map char_of)
     [[9], [10], [11], [12], [13], [32 :: nat],
      [194, 133], [194, 160], [225, 154, 128],
      [226, 128, 128], [226, 128, 129], [226, 128, 130], [226, 128, 131], [226, 128, 132],
      [226, 128, 133], [226, 128, 134], [226, 128, 135], [226, 128, 136], [226, 128, 137],
      [226, 128, 138], [226, 128, 168], [226, 128, 169], [226, 128, 175], [226, 129, 159],
      [227, 128, 128]]"

text \<open>Length of the white-space encoding the string starts with, 0 if it starts with none.\<close>

definition skip_width :: "string list \<Rightarrow> string \<Rightarrow> nat" where
  "skip_width encs s = (case find (\<lambda>e. has_prefix e s) encs of None \<Rightarrow> 0 | Some e \<Rightarrow> length e)"

function trim_by :: "string list \<Rightarrow> string \<Rightarrow> string" where
  "trim_by encs s =
     (if skip_width encs s = 0 \<or> s = [] then s else trim_by encs (drop (skip_width encs s) s))"
  by pat_completeness auto
termination
  by (relation "measure (\<lambda>(encs, s). length s)") auto

declare trim_by.simps [simp del]

definition trim_left :: "string \<Rightarrow> string" where
  "trim_left s = trim_by space_encodings s"

definition trim_right :: "string \<Rightarrow> string" where
  "trim_right s = rev (trim_by (map rev space_encodings) (rev s))"

text \<open>\<open>strings.TrimSpace\<close> and \<open>bytes.TrimSpace\<close>.\<close>

definition trim_space :: "string \<Rightarrow> string" where
  "trim_space s = trim_right (trim_left s)"

lemma trim_by_suffix: "\<exists>u. s = u @ trim_by encs s"
proof (induction encs s rule: trim_by.induct)
  case (1 encs s)
  show ?case
  proof (cases "skip_width encs s = 0 \<or> s = []")
    case True
    then show ?thesis by (subst trim_by.simps) simp
  next
    case False
    with 1 obtain u where "drop (skip_width encs s) s = u @ trim_by encs (drop (skip_width encs s) s)"
      by blast
    then have "s = (take (skip_width encs s) s @ u) @ trim_by encs (drop (skip_width encs s) s)"
      by (metis append.assoc append_take_drop_id)
    with False show ?thesis by (metis trim_by.simps)
  qed
qed

lemma trim_by_stop: "skip_width encs (trim_by encs s) = 0 \<or> trim_by encs s = []"
proof (induction encs s rule: trim_by.induct)
  case (1 encs s)
  then show ?case
    by (cases "skip_width encs s = 0 \<or> s = []") (simp_all add: trim_by.simps [of encs s])
qed

lemma trim_by_id: "skip_width encs s = 0 \<Longrightarrow> trim_by encs s = s"
  by (subst trim_by.simps) simp

lemma skip_width_zero_iff:
  "[] \<notin> set encs \<Longrightarrow> skip_width encs s = 0 \<longleftrightarrow> (\<forall>e \<in> set encs. \<not> has_prefix e s)"
proof -
  assume e: "[] \<notin> set encs"
  show ?thesis
  proof (cases "find (\<lambda>e. has_prefix e s) encs")
    case None
    then have "\<forall>e \<in> set encs. \<not> has_prefix e s"
      by (simp add: find_None_iff)
    with None show ?thesis by (simp add: skip_width_def)
  next
    case (Some p)
    then have "p \<in> set encs" "has_prefix p s"
      by (auto simp: find_Some_iff)
    moreover with e have "p \<noteq> []" by blast
    ultimately show ?thesis using Some by (auto simp: skip_width_def)
  qed
qed

lemma space_encodings_nonempty [simp]:
  "[] \<notin> set space_encodings" "[] \<notin> set (map rev space_encodings)"
  by (simp_all add: space_encodings_def)

lemma skip_width_prefix:
  "[] \<notin> set encs \<Longrightarrow> skip_width encs (s @ t) = 0 \<Longrightarrow> skip_width encs s = 0"
  by (auto simp: skip_width_zero_iff dest: has_prefix_mono)

lemma trim_left_stop: "skip_width space_encodings (trim_left s) = 0"
proof -
  have "skip_width space_encodings [] = 0"
    by (simp add: skip_width_zero_iff) (auto simp: has_prefix_def)
  with trim_by_stop [of space_encodings s] show ?thesis
    by (auto simp: trim_left_def)
qed

lemma trim_right_prefix: "\<exists>u. s = trim_right s @ u"
proof -
  obtain u where "rev s = u @ trim_by (map rev space_encodings) (rev s)"
    using trim_by_suffix by blast
  then have "s = rev (trim_by (map rev space_encodings) (rev s)) @ rev u"
    by (metis rev_append rev_rev_ident)
  then show ?thesis by (auto simp: trim_right_def)
qed

lemma trim_left_trim_right: "trim_left (trim_right (trim_left s)) = trim_right (trim_left s)"
proof -
  obtain u where u: "trim_left s = trim_right (trim_left s) @ u"
    using trim_right_prefix by blast
  have "skip_width space_encodings (trim_right (trim_left s)) = 0"
    using trim_left_stop [of s] u skip_width_prefix space_encodings_nonempty(1) by metis
  then show ?thesis
    unfolding trim_left_def by (rule trim_by_id)
qed

lemma trim_right_idem: "trim_right (trim_right s) = trim_right s"
proof -
  let ?e = "map rev space_encodings"
  have "trim_by ?e (trim_by ?e (rev s)) = trim_by ?e (rev s)"
    using trim_by_stop [of ?e "rev s"] by (metis trim_by.simps)
  then show ?thesis by (simp add: trim_right_def)
qed

lemma trim_space_idem [simp]: "trim_space (trim_space s) = trim_space s"
  by (simp add: trim_space_def trim_left_trim_right trim_right_idem)

lemma trim_space_sublist: "\<exists>u v. s = u @ trim_space s @ v"
proof -
  obtain u where "s = u @ trim_left s"
    using trim_by_suffix by (metis trim_left_def)
  moreover obtain v where "trim_left s = trim_space s @ v"
    using trim_right_prefix by (metis trim_space_def)
  ultimately show ?thesis by metis
qed

lemma set_trim_space: "set (trim_space s) \<subseteq> set s"
  using trim_space_sublist [of s] by (metis Un_upper1 Un_upper2 set_append subset_trans)

lemma length_trim_space: "length (trim_space s) \<le> length s"
  using trim_space_sublist [of s] by (metis le_add1 le_add2 le_trans length_append)

text \<open>A string whose first and last bytes are printable ASCII is not changed by trimming.\<close>

definition graphic :: "char \<Rightarrow> bool" where
  "graphic c \<longleftrightarrow> 33 \<le> byte c \<and> byte c < 127"

lemma hd_space_encodings:
  assumes "e \<in> set space_encodings"
  shows "\<not> graphic (hd e)" "\<not> graphic (last e)"
proof -
  have a: "list_all (\<lambda>e. \<not> graphic (hd e) \<and> \<not> graphic (last e)) space_encodings"
    by code_simp
  from a assms show "\<not> graphic (hd e)" "\<not> graphic (last e)"
    by (auto simp: list_all_iff)
qed

lemma trim_space_graphic:
  assumes "s \<noteq> []" "graphic (hd s)" "graphic (last s)"
  shows "trim_space s = s"
proof -
  have hdp: "hd e = hd s" if "has_prefix e s" "e \<noteq> []" for e s :: string
    using that by (auto simp: has_prefix_iff)
  have l: "skip_width space_encodings s = 0"
    using assms hd_space_encodings(1) hdp
    by (metis skip_width_zero_iff space_encodings_nonempty(1))
  have "\<not> has_prefix (rev e) (rev s)" if e: "e \<in> set space_encodings" for e
  proof
    assume p: "has_prefix (rev e) (rev s)"
    have "e \<noteq> []" using e space_encodings_nonempty(1) by blast
    with hdp [OF p] have "last e = last s" by (simp add: hd_rev)
    with hd_space_encodings(2) [OF e] assms(3) show False by simp
  qed
  then have r: "skip_width (map rev space_encodings) (rev s) = 0"
    using skip_width_zero_iff space_encodings_nonempty(2) by fastforce
  show ?thesis
    by (simp add: trim_space_def trim_left_def trim_right_def trim_by_id l r)
qed

lemma trim_space_Nil [simp]: "trim_space [] = []"
  by (simp add: trim_space_def trim_left_def trim_right_def trim_by.simps)

lemma trim_by_keeps: "c \<in> set s \<Longrightarrow> (\<And>e. e \<in> set encs \<Longrightarrow> c \<notin> set e) \<Longrightarrow> c \<in> set (trim_by encs s)"
proof (induction encs s rule: trim_by.induct)
  case (1 encs s)
  show ?case
  proof (cases "skip_width encs s = 0 \<or> s = []")
    case True
    with 1 show ?thesis by (subst trim_by.simps) simp
  next
    case False
    then obtain e where e: "find (\<lambda>e. has_prefix e s) encs = Some e"
      by (auto simp: skip_width_def split: option.splits)
    then have w: "skip_width encs s = length e"
      by (simp add: skip_width_def)
    from e have p: "has_prefix e s" "e \<in> set encs"
      by (auto simp: find_Some_iff)
    from p obtain t where t: "s = e @ t" by (auto simp: has_prefix_iff)
    with "1.prems" p have "c \<in> set (drop (length e) s)" by auto
    with "1.IH" [OF False] "1.prems"(2) w have "c \<in> set (trim_by encs (drop (skip_width encs s) s))"
      by simp
    with False show ?thesis by (metis trim_by.simps)
  qed
qed

lemma trim_space_keeps:
  assumes "c \<in> set s" "graphic c"
  shows "c \<in> set (trim_space s)"
proof -
  have "list_all (\<lambda>e. list_all (\<lambda>c. \<not> graphic c) e) space_encodings"
    by code_simp
  with assms(2) have e: "c \<notin> set e" if "e \<in> set space_encodings" for e
    using that by (auto simp: list_all_iff)
  have "c \<in> set (trim_left s)"
    unfolding trim_left_def using assms(1) e by (rule trim_by_keeps)
  moreover have "c \<notin> set e" if "e \<in> set (map rev space_encodings)" for e
    using that e by auto
  ultimately show ?thesis
    unfolding trim_space_def trim_right_def
    using trim_by_keeps [of c "rev (trim_left s)" "map rev space_encodings"] by simp
qed

section \<open>ASCII digits and case\<close>

definition ascii_digit :: "char \<Rightarrow> bool" where
  "ascii_digit c \<longleftrightarrow> 48 \<le> byte c \<and> byte c \<le> 57"

definition to_lower_char :: "char \<Rightarrow> char" where
  "to_lower_char c = (if 65 \<le> byte c \<and> byte c \<le> 90 then char_of (byte c + 32) else c)"

definition to_lower :: "string \<Rightarrow> string" where
  "to_lower = map to_lower_char"

lemma byte_to_lower_char:
  "byte (to_lower_char c) = (if 65 \<le> byte c \<and> byte c \<le> 90 then byte c + 32 else byte c)"
  by (simp add: to_lower_char_def of_char_of)

lemma to_lower_char_idem [simp]: "to_lower_char (to_lower_char c) = to_lower_char c"
proof (cases "65 \<le> byte c \<and> byte c \<le> 90")
  case True
  then show ?thesis
    by (subst to_lower_char_def) (simp add: byte_to_lower_char)
next
  case False
  then have "to_lower_char c = c" by (auto simp: to_lower_char_def)
  then show ?thesis by simp
qed

lemma to_lower_idem [simp]: "to_lower (to_lower s) = to_lower s"
  by (simp add: to_lower_def)

section \<open>UTF-8\<close>

text \<open>
  \<open>utf8.DecodeRune\<close> on the bytes of a string: the code point and its width, or U+FFFD with
  width 1 where the bytes are not a shortest-form encoding of a scalar value.
\<close>

type_synonym rune = nat

definition cont_byte :: "nat \<Rightarrow> bool" where
  "cont_byte b \<longleftrightarrow> 128 \<le> b \<and> b \<le> 191"

definition rune_error :: "rune \<times> nat" where
  "rune_error = (65533, 1)"

definition decode2 :: "nat \<Rightarrow> nat list \<Rightarrow> rune \<times> nat" where
  "decode2 b0 bs = (case bs of
      b1 # _ \<Rightarrow> if cont_byte b1 then ((b0 - 192) * 64 + (b1 - 128), 2) else rune_error
    | _ \<Rightarrow> rune_error)"

definition decode3 :: "nat \<Rightarrow> nat list \<Rightarrow> rune \<times> nat" where
  "decode3 b0 bs = (case bs of
      b1 # b2 # _ \<Rightarrow>
        if (if b0 = 224 then 160 else 128) \<le> b1 \<and> b1 \<le> (if b0 = 237 then 159 else 191)
          \<and> cont_byte b2
        then ((b0 - 224) * 4096 + (b1 - 128) * 64 + (b2 - 128), 3) else rune_error
    | _ \<Rightarrow> rune_error)"

definition decode4 :: "nat \<Rightarrow> nat list \<Rightarrow> rune \<times> nat" where
  "decode4 b0 bs = (case bs of
      b1 # b2 # b3 # _ \<Rightarrow>
        if (if b0 = 240 then 144 else 128) \<le> b1 \<and> b1 \<le> (if b0 = 244 then 143 else 191)
          \<and> cont_byte b2 \<and> cont_byte b3
        then ((b0 - 240) * 262144 + (b1 - 128) * 4096 + (b2 - 128) * 64 + (b3 - 128), 4)
        else rune_error
    | _ \<Rightarrow> rune_error)"

definition decode_rune :: "nat \<Rightarrow> nat list \<Rightarrow> rune \<times> nat" where
  "decode_rune b0 bs =
     (if b0 < 128 then (b0, 1)
      else if 194 \<le> b0 \<and> b0 \<le> 223 then decode2 b0 bs
      else if 224 \<le> b0 \<and> b0 \<le> 239 then decode3 b0 bs
      else if 240 \<le> b0 \<and> b0 \<le> 244 then decode4 b0 bs
      else rune_error)"

text \<open>\<open>for _, r := range s\<close>: the runes of a byte sequence.\<close>

function runes_of :: "nat list \<Rightarrow> rune list" where
  "runes_of [] = []"
| "runes_of (b # bs) =
     fst (decode_rune b bs) # runes_of (drop (snd (decode_rune b bs) - 1) bs)"
  by pat_completeness auto
termination by (relation "measure length") auto

definition runes :: "string \<Rightarrow> rune list" where
  "runes s = runes_of (map byte s)"

text \<open>\<open>utf8.ValidString\<close>: no rune of the string is a decoding error.\<close>

function valid_utf8_bytes :: "nat list \<Rightarrow> bool" where
  "valid_utf8_bytes [] = True"
| "valid_utf8_bytes (b # bs) =
     (decode_rune b bs \<noteq> rune_error \<and> valid_utf8_bytes (drop (snd (decode_rune b bs) - 1) bs))"
  by pat_completeness auto
termination by (relation "measure length") auto

definition valid_utf8 :: "string \<Rightarrow> bool" where
  "valid_utf8 s = valid_utf8_bytes (map byte s)"

lemma decode_rune_ascii [simp]: "b < 128 \<Longrightarrow> decode_rune b bs = (b, 1)"
  by (simp add: decode_rune_def)

lemma decode_rune_high: "128 \<le> b \<Longrightarrow> 128 \<le> fst (decode_rune b bs)"
proof -
  have d2: "128 \<le> fst (decode2 b bs)" if "194 \<le> b"
    using that by (auto simp: decode2_def rune_error_def split: list.split)
  have d3: "128 \<le> fst (decode3 b bs)" if "224 \<le> b"
  proof (cases "b = 224")
    case True
    then show ?thesis by (auto simp: decode3_def rune_error_def split: list.split)
  next
    case False
    with that obtain k where "b = Suc (k + 224)" by (metis add.commute le_Suc_ex le_neq_implies_less Suc_leI add_Suc_right)
    then show ?thesis by (auto simp: decode3_def rune_error_def split: list.split)
  qed
  have d4: "128 \<le> fst (decode4 b bs)" if "240 \<le> b"
  proof (cases "b = 240")
    case True
    then show ?thesis by (auto simp: decode4_def rune_error_def split: list.split)
  next
    case False
    with that obtain k where "b = Suc (k + 240)" by (metis add.commute le_Suc_ex le_neq_implies_less Suc_leI add_Suc_right)
    then show ?thesis by (auto simp: decode4_def rune_error_def split: list.split)
  qed
  assume "128 \<le> b"
  then show ?thesis
    using d2 d3 d4 by (auto simp: decode_rune_def rune_error_def)
qed

lemma runes_of_ascii: "(\<And>b. b \<in> set bs \<Longrightarrow> b < 128) \<Longrightarrow> runes_of bs = bs"
  by (induction bs) auto

lemma runes_of_ascii_conv:
  "(\<forall>r \<in> set (runes_of bs). r < 128) \<Longrightarrow> runes_of bs = bs"
proof (induction bs rule: runes_of.induct)
  case 1
  show ?case by simp
next
  case (2 b bs)
  have "b < 128"
    using "2.prems" decode_rune_high [of b bs] by (metis list.set_intros(1) not_le runes_of.simps(2))
  with "2.IH" "2.prems" show ?case by simp
qed

lemma runes_ascii_conv:
  "(\<forall>r \<in> set (runes s). r < 128) \<Longrightarrow> runes s = map byte s"
  unfolding runes_def by (rule runes_of_ascii_conv)

lemma runes_ascii: "(\<And>c. c \<in> set s \<Longrightarrow> byte c < 128) \<Longrightarrow> runes s = map byte s"
  unfolding runes_def by (rule runes_of_ascii) auto

lemma valid_utf8_ascii: "(\<And>c. c \<in> set s \<Longrightarrow> byte c < 128) \<Longrightarrow> valid_utf8 s"
  unfolding valid_utf8_def
proof (induction s)
  case Nil
  show ?case by simp
next
  case (Cons c s)
  have "byte c < 128" using Cons.prems by simp
  moreover have "byte c \<noteq> 65533" using byte_less [of c] by linarith
  ultimately show ?case using Cons by (simp add: rune_error_def)
qed

lemma ascii_valid: "list_all (\<lambda>c. byte c < 128) s \<Longrightarrow> valid_utf8 s"
  by (rule valid_utf8_ascii) (auto simp: list_all_iff)

end
