(* ===== verification/Regexp.thy ===== *)
theory Regexp
  imports GoStrings
begin

text \<open>
  The regular expressions of Go's \<open>regexp\<close> package, as far as the program uses them: character
  classes, sequences, alternatives, repetition, the text anchors and the ASCII word boundary.
  A position of a text is the rune before it (if any) and the runes after it.
  \<open>ends\<close> is the executable matcher, all positions a match from a given position can end at;
  \<open>matches\<close> is what an expression means; \<open>ends_iff\<close> states that they agree.
\<close>

type_synonym pos = "rune option \<times> rune list"

datatype regex =
    Eps
  | Cls "rune \<Rightarrow> bool"
  | Seq regex regex
  | Alt regex regex
  | Star regex
  | BeginText
  | EndText
  | WordB

definition word_rune :: "rune \<Rightarrow> bool" where
  "word_rune r \<longleftrightarrow> (48 \<le> r \<and> r \<le> 57) \<or> (65 \<le> r \<and> r \<le> 90) \<or> (97 \<le> r \<and> r \<le> 122) \<or> r = 95"

definition at_boundary :: "pos \<Rightarrow> bool" where
  "at_boundary p \<longleftrightarrow>
     (case fst p of None \<Rightarrow> False | Some r \<Rightarrow> word_rune r)
       \<noteq> (case snd p of [] \<Rightarrow> False | r # _ \<Rightarrow> word_rune r)"

section \<open>Meaning\<close>

inductive matches :: "regex \<Rightarrow> pos \<Rightarrow> pos \<Rightarrow> bool" where
  eps: "matches Eps p p"
| cls: "P x \<Longrightarrow> matches (Cls P) (b, x # xs) (Some x, xs)"
| seq: "matches r p q \<Longrightarrow> matches s q t \<Longrightarrow> matches (Seq r s) p t"
| altL: "matches r p q \<Longrightarrow> matches (Alt r s) p q"
| altR: "matches s p q \<Longrightarrow> matches (Alt r s) p q"
| star0: "matches (Star r) p p"
| star1: "matches r p q \<Longrightarrow> matches (Star r) q t \<Longrightarrow> matches (Star r) p t"
| begin_text: "matches BeginText (None, xs) (None, xs)"
| end_text: "matches EndText (b, []) (b, [])"
| word_b: "at_boundary p \<Longrightarrow> matches WordB p p"

inductive_simps matches_simps [simp]:
  "matches Eps p q"
  "matches (Cls P) p q"
  "matches (Seq r s) p q"
  "matches (Alt r s) p q"
  "matches BeginText p q"
  "matches EndText p q"
  "matches WordB p q"

text \<open>Derived forms: \<open>r?\<close>, \<open>r+\<close>, \<open>r{n,m}\<close>.\<close>

definition opt :: "regex \<Rightarrow> regex" where
  "opt r = Alt r Eps"

definition plus :: "regex \<Rightarrow> regex" where
  "plus r = Seq r (Star r)"

fun pow :: "regex \<Rightarrow> nat \<Rightarrow> regex" where
  "pow r 0 = Eps"
| "pow r (Suc n) = Seq r (pow r n)"

fun upto_times :: "regex \<Rightarrow> nat \<Rightarrow> regex" where
  "upto_times r 0 = Eps"
| "upto_times r (Suc n) = Alt (Seq r (upto_times r n)) Eps"

definition repeat_between :: "regex \<Rightarrow> nat \<Rightarrow> nat \<Rightarrow> regex" where
  "repeat_between r n m = Seq (pow r n) (upto_times r (m - n))"

fun seqs :: "regex list \<Rightarrow> regex" where
  "seqs [] = Eps"
| "seqs [r] = r"
| "seqs (r # rs) = Seq r (seqs rs)"

fun alts :: "regex list \<Rightarrow> regex" where
  "alts [] = Cls (\<lambda>_. False)"
| "alts [r] = r"
| "alts (r # rs) = Alt r (alts rs)"

section \<open>Positions move to the right\<close>

definition advances :: "pos \<Rightarrow> pos \<Rightarrow> bool" where
  "advances p q \<longleftrightarrow>
     (\<exists>u. snd p = u @ snd q \<and> fst q = (if u = [] then fst p else Some (last u)))"

lemma advances_refl [simp]: "advances p p"
  by (auto simp: advances_def)

lemma advances_trans: "advances p q \<Longrightarrow> advances q t \<Longrightarrow> advances p t"
proof -
  assume "advances p q" "advances q t"
  then obtain u v where
    "snd p = u @ snd q" "fst q = (if u = [] then fst p else Some (last u))"
    "snd q = v @ snd t" "fst t = (if v = [] then fst q else Some (last v))"
    by (auto simp: advances_def)
  then show "advances p t"
    unfolding advances_def by (intro exI [of _ "u @ v"]) auto
qed

lemma advances_same: "advances p q \<Longrightarrow> length (snd q) \<ge> length (snd p) \<Longrightarrow> q = p"
  by (cases p, cases q) (auto simp: advances_def)

lemma matches_advances: "matches r p q \<Longrightarrow> advances p q"
proof (induction rule: matches.induct)
  case (cls P x b xs)
  show ?case by (auto simp: advances_def intro: exI [of _ "[x]"])
qed (auto intro: advances_trans)

section \<open>The matcher\<close>

primrec star_ends :: "nat \<Rightarrow> (pos \<Rightarrow> pos list) \<Rightarrow> pos \<Rightarrow> pos list" where
  "star_ends 0 f p = [p]"
| "star_ends (Suc n) f p =
     remdups (p # concat (map (star_ends n f)
       (filter (\<lambda>q. length (snd q) < length (snd p)) (f p))))"

primrec ends :: "regex \<Rightarrow> pos \<Rightarrow> pos list" where
  "ends Eps p = [p]"
| "ends (Cls P) p = (case snd p of [] \<Rightarrow> [] | x # xs \<Rightarrow> if P x then [(Some x, xs)] else [])"
| "ends (Seq r s) p = remdups (concat (map (ends s) (ends r p)))"
| "ends (Alt r s) p = remdups (ends r p @ ends s p)"
| "ends (Star r) p = star_ends (length (snd p)) (ends r) p"
| "ends BeginText p = (if fst p = None then [p] else [])"
| "ends EndText p = (if snd p = [] then [p] else [])"
| "ends WordB p = (if at_boundary p then [p] else [])"

lemma set_star_ends:
  "set (star_ends (Suc n) f p) =
     insert p (\<Union>q \<in> {q \<in> set (f p). length (snd q) < length (snd p)}. set (star_ends n f q))"
  by (simp only: star_ends.simps set_remdups list.set set_concat set_map set_filter)
    auto

declare star_ends.simps(2) [simp del]

lemma star_ends_sound:
  assumes f: "\<And>p q. q \<in> set (f p) \<Longrightarrow> matches r p q"
  shows "q \<in> set (star_ends n f p) \<Longrightarrow> matches (Star r) p q"
proof (induction n arbitrary: p)
  case 0
  then show ?case by (auto intro: matches.star0)
next
  case (Suc n)
  then show ?case by (auto simp: set_star_ends intro: matches.star0 matches.star1 dest: f)
qed

lemma star_ends_complete:
  assumes f: "\<And>p q. matches r p q \<Longrightarrow> q \<in> set (f p)"
  assumes m: "matches (Star r) p q"
  shows "length (snd p) \<le> n \<Longrightarrow> q \<in> set (star_ends n f p)"
  using m
proof (induction "Star r" p q arbitrary: n rule: matches.induct)
  case (star0 p)
  show ?case by (cases n) (auto simp: set_star_ends)
next
  case (star1 p q t)
  show ?case
  proof (cases "length (snd q) < length (snd p)")
    case True
    with star1.prems obtain k where n: "n = Suc k" and k: "length (snd q) \<le> k"
      by (cases n) auto
    from star1.hyps(4) [OF k] f [OF star1.hyps(1)] True show ?thesis
      unfolding n set_star_ends by blast
  next
    case False
    with matches_advances [OF star1.hyps(1)] have "q = p"
      by (simp add: advances_same)
    with star1.hyps(4) star1.prems show ?thesis by simp
  qed
qed

lemma ends_iff: "q \<in> set (ends r p) \<longleftrightarrow> matches r p q"
proof (induction r arbitrary: p q)
  case (Cls P)
  show ?case by (cases p) (auto split: list.splits)
next
  case (Star r)
  have f: "\<And>p q. q \<in> set (ends r p) \<longleftrightarrow> matches r p q"
    by (rule Star.IH)
  show ?case
    unfolding ends.simps
    using star_ends_sound [of "ends r" r q] star_ends_complete [of r "ends r" p q] f
    by blast
next
  case (Seq r s)
  have "q \<in> set (ends (Seq r s) p) \<longleftrightarrow> (\<exists>t. t \<in> set (ends r p) \<and> q \<in> set (ends s t))"
    by auto
  then show ?case by (auto simp: Seq.IH)
next
  case BeginText
  show ?case by (cases p) auto
next
  case EndText
  show ?case by (cases p) auto
qed auto

section \<open>Searching\<close>

fun positions :: "rune option \<Rightarrow> rune list \<Rightarrow> pos list" where
  "positions b [] = [(b, [])]"
| "positions b (x # xs) = (b, x # xs) # positions (Some x) xs"

text \<open>\<open>Regexp.MatchString\<close>: is there a match anywhere in the text?\<close>

definition search :: "regex \<Rightarrow> rune list \<Rightarrow> bool" where
  "search r txt = list_ex (\<lambda>p. ends r p \<noteq> []) (positions None txt)"

lemma set_positions: "p \<in> set (positions b xs) \<longleftrightarrow> advances (b, xs) p"
proof (induction b xs rule: positions.induct)
  case (1 b)
  show ?case by (cases p) (auto simp: advances_def)
next
  case (2 b x xs)
  show ?case
  proof
    assume "p \<in> set (positions b (x # xs))"
    then consider "p = (b, x # xs)" | "advances (Some x, xs) p"
      using "2.IH" by auto
    then show "advances (b, x # xs) p"
    proof cases
      case 2
      then have "advances (b, x # xs) (Some x, xs)"
        by (auto simp: advances_def intro: exI [of _ "[x]"])
      with 2 show ?thesis by (rule advances_trans [rotated])
    qed simp
  next
    assume "advances (b, x # xs) p"
    then obtain u where u: "x # xs = u @ snd p" "fst p = (if u = [] then b else Some (last u))"
      by (auto simp: advances_def)
    show "p \<in> set (positions b (x # xs))"
    proof (cases u)
      case Nil
      with u show ?thesis by (cases p) auto
    next
      case (Cons y ys)
      with u have "advances (Some x, xs) p"
        by (auto simp: advances_def intro: exI [of _ ys])
      with "2.IH" show ?thesis by simp
    qed
  qed
qed

lemma search_iff:
  "search r txt \<longleftrightarrow> (\<exists>p q. advances (None, txt) p \<and> matches r p q)"
proof -
  have "ends r p \<noteq> [] \<longleftrightarrow> (\<exists>q. matches r p q)" for p
    by (metis ends_iff ex_in_conv set_empty)
  then show ?thesis
    by (simp add: search_def list_ex_iff set_positions Bex_def del: split_paired_Ex)
qed

text \<open>An expression between the two anchors is searched as a match of the whole text.\<close>

lemma advances_begin: "advances (None, txt) (None, xs) \<Longrightarrow> xs = txt"
  by (auto simp: advances_def split: if_splits)

lemma search_anchored:
  "search (Seq BeginText (Seq r EndText)) txt
     \<longleftrightarrow> (\<exists>b. matches r (None, txt) (b, []))"
proof
  assume "search (Seq BeginText (Seq r EndText)) txt"
  then obtain xs b where "advances (None, txt) (None, xs)" "matches r (None, xs) (b, [])"
    by (auto simp: search_iff)
  then show "\<exists>b. matches r (None, txt) (b, [])"
    by (auto dest: advances_begin)
next
  assume "\<exists>b. matches r (None, txt) (b, [])"
  then obtain b where "matches (Seq BeginText (Seq r EndText)) (None, txt) (b, [])"
    by auto
  then show "search (Seq BeginText (Seq r EndText)) txt"
    unfolding search_iff by (blast intro: advances_refl)
qed

section \<open>Transport along a map of the runes, and the runes a match consumes\<close>

fun classes :: "regex \<Rightarrow> (rune \<Rightarrow> bool) set" where
  "classes (Cls P) = {P}"
| "classes (Seq r s) = classes r \<union> classes s"
| "classes (Alt r s) = classes r \<union> classes s"
| "classes (Star r) = classes r"
| "classes _ = {}"

fun no_word_b :: "regex \<Rightarrow> bool" where
  "no_word_b WordB = False"
| "no_word_b (Seq r s) = (no_word_b r \<and> no_word_b s)"
| "no_word_b (Alt r s) = (no_word_b r \<and> no_word_b s)"
| "no_word_b (Star r) = no_word_b r"
| "no_word_b _ = True"

definition map_pos :: "(rune \<Rightarrow> rune) \<Rightarrow> pos \<Rightarrow> pos" where
  "map_pos f p = (map_option f (fst p), map f (snd p))"

lemma matches_map:
  "matches r p q \<Longrightarrow> no_word_b r \<Longrightarrow> (\<forall>P \<in> classes r. \<forall>x. P x \<longrightarrow> P (f x))
    \<Longrightarrow> matches r (map_pos f p) (map_pos f q)"
proof (induction rule: matches.induct)
  case (star1 r p q t)
  then show ?case by (auto intro: matches.star1)
next
  case (seq r p q s t)
  then have "matches r (map_pos f p) (map_pos f q)" "matches s (map_pos f q) (map_pos f t)"
    by auto
  then show ?case by (rule matches.seq)
qed (auto simp: map_pos_def intro: matches.star0)

lemma matches_consumes:
  "matches r p q \<Longrightarrow> \<exists>u. snd p = u @ snd q \<and> (\<forall>x \<in> set u. \<exists>P \<in> classes r. P x)"
proof (induction rule: matches.induct)
  case (seq r p q s t)
  then obtain u v where
    "snd p = u @ snd q" "\<forall>x \<in> set u. \<exists>P \<in> classes r. P x"
    "snd q = v @ snd t" "\<forall>x \<in> set v. \<exists>P \<in> classes s. P x"
    by blast
  then show ?case by (intro exI [of _ "u @ v"]) auto
next
  case (star1 r p q t)
  then obtain u v where
    "snd p = u @ snd q" "\<forall>x \<in> set u. \<exists>P \<in> classes r. P x"
    "snd q = v @ snd t" "\<forall>x \<in> set v. \<exists>P \<in> classes (Star r). P x"
    by blast
  then show ?case by (intro exI [of _ "u @ v"]) auto
next
  case (cls P x b xs)
  then show ?case by (intro exI [of _ "[x]"]) auto
next
  case (altL r p q s)
  then show ?case by (metis UnI1 classes.simps(3))
next
  case (altR s p q r)
  then show ?case by (metis UnI2 classes.simps(3))
qed auto

lemma matches_consumes_all:
  "matches r (b, txt) (b', []) \<Longrightarrow> x \<in> set txt \<Longrightarrow> \<exists>P \<in> classes r. P x"
  using matches_consumes by fastforce

lemma classes_upto_times: "classes (upto_times r n) \<subseteq> classes r"
  by (induction n) auto

lemma classes_pow: "classes (pow r n) \<subseteq> classes r"
  by (induction n) auto

lemma classes_repeat_between: "classes (repeat_between r n m) \<subseteq> classes r"
  using classes_pow classes_upto_times by (auto simp: repeat_between_def)

lemma no_word_b_upto_times: "no_word_b r \<Longrightarrow> no_word_b (upto_times r n)"
  by (induction n) auto

lemma no_word_b_pow: "no_word_b r \<Longrightarrow> no_word_b (pow r n)"
  by (induction n) auto

lemma no_word_b_repeat_between: "no_word_b r \<Longrightarrow> no_word_b (repeat_between r n m)"
  by (simp add: repeat_between_def no_word_b_pow no_word_b_upto_times)

end
