(* ===== verification/Identity.thy ===== *)
theory Identity
  imports Regexp
begin

text \<open>
  \<open>internal/policy/identity.go\<close>: exact phone and email identities and their normal form.  The
  email pattern is the literal regular expression of the code; a phone number is filtered byte
  by byte (a non-ASCII rune consists of bytes that all reach the \<open>default\<close> branch).  The
  locale \<open>normalizer\<close> is what the policy relies on, a normal form that normalising leaves
  unchanged; it is interpreted on \<open>NormalizeIdentity\<close>.
\<close>

section \<open>The email pattern\<close>

definition alnum_rune :: "rune \<Rightarrow> bool" where
  "alnum_rune r \<longleftrightarrow> (65 \<le> r \<and> r \<le> 90) \<or> (97 \<le> r \<and> r \<le> 122) \<or> (48 \<le> r \<and> r \<le> 57)"

definition local_rune :: "rune \<Rightarrow> bool" where
  "local_rune r \<longleftrightarrow> alnum_rune r \<or> r \<in> set (map byte ''.!#$%&'' @ [39] @ map byte ''*+/=?^_`{|}~-'')"

definition label_rune :: "rune \<Rightarrow> bool" where
  "label_rune r \<longleftrightarrow> alnum_rune r \<or> r = 45"

definition lit_rune :: "char \<Rightarrow> regex" where
  "lit_rune c = Cls (\<lambda>r. r = byte c)"

definition domain_label :: regex where
  "domain_label =
     Seq (Cls alnum_rune) (opt (Seq (repeat_between (Cls label_rune) 0 61) (Cls alnum_rune)))"

definition email_body :: regex where
  "email_body = seqs [plus (Cls local_rune), lit_rune CHR ''@'', domain_label,
     plus (Seq (lit_rune CHR ''.'') domain_label)]"

definition emailPattern :: regex where
  "emailPattern = Seq BeginText (Seq email_body EndText)"

section \<open>Normalisation\<close>

text \<open>The phone loop: \<open>first\<close> says that the byte index is 0.\<close>

fun phone_digits :: "bool \<Rightarrow> string \<Rightarrow> string option" where
  "phone_digits first [] = Some []"
| "phone_digits first (c # cs) =
     (if ascii_digit c \<or> c = CHR ''+'' \<and> first
      then map_option ((#) c) (phone_digits False cs)
      else if c \<in> {CHR '' '', CHR ''-'', CHR ''('', CHR '')'', CHR ''.''}
      then phone_digits False cs
      else None)"

definition e164 :: "string \<Rightarrow> bool" where
  "e164 s \<longleftrightarrow> has_prefix ''+'' s \<and> \<not> length s < 9 \<and> \<not> length s > 16 \<and> s ! 1 \<noteq> CHR ''0''"

datatype identity_error = IdentityEmpty | NotExactEmail string | NotExactIdentity string | NotE164 string

definition NormalizeIdentity :: "string \<Rightarrow> identity_error + string" where
  "NormalizeIdentity raw =
     (let value = trim_space raw in
      if value = [] then Inl IdentityEmpty
      else if contains_char CHR ''@'' value then
        (if contains_any ''*?'' value \<or> \<not> search emailPattern (runes value)
         then Inl (NotExactEmail raw) else Inr (to_lower value))
      else (case phone_digits True value of
          None \<Rightarrow> Inl (NotExactIdentity raw)
        | Some normalized \<Rightarrow>
            if \<not> e164 normalized then Inl (NotE164 raw) else Inr normalized))"

section \<open>Shape of the normal forms\<close>

definition phone_normal :: "string \<Rightarrow> bool" where
  "phone_normal s \<longleftrightarrow>
     (\<exists>ds. s = CHR ''+'' # ds \<and> (\<forall>c \<in> set ds. ascii_digit c)
        \<and> 8 \<le> length ds \<and> length ds \<le> 15 \<and> hd ds \<noteq> CHR ''0'')"

definition email_normal :: "string \<Rightarrow> bool" where
  "email_normal s \<longleftrightarrow> CHR ''@'' \<in> set s \<and> search emailPattern (runes s)
     \<and> \<not> contains_any ''*?'' s \<and> to_lower s = s \<and> (\<forall>c \<in> set s. graphic c)"

lemma phone_digits_later:
  "phone_digits False s = Some t \<Longrightarrow> c \<in> set t \<Longrightarrow> ascii_digit c"
proof (induction s arbitrary: t)
  case Nil
  then show ?case by simp
next
  case (Cons d s)
  show ?case
  proof (cases "ascii_digit d")
    case True
    with Cons.prems obtain u where "phone_digits False s = Some u" "t = d # u"
      by auto
    with Cons True show ?thesis by auto
  next
    case False
    with Cons.prems have "phone_digits False s = Some t"
      by (simp split: if_split_asm)
    with Cons show ?thesis by blast
  qed
qed

lemma phone_digits_first:
  assumes "phone_digits True s = Some (CHR ''+'' # ds)" "c \<in> set ds"
  shows "ascii_digit c"
proof (cases s)
  case Nil
  with assms show ?thesis by simp
next
  case (Cons d s')
  have "\<not> ascii_digit CHR ''+''" by (simp add: ascii_digit_def)
  moreover have "phone_digits False s' = Some ds \<or> phone_digits False s' = Some (CHR ''+'' # ds)"
    using assms(1) by (auto simp: Cons split: if_split_asm)
  ultimately show ?thesis
    using phone_digits_later assms(2) by auto
qed

lemma phone_digits_id:
  "(\<forall>c \<in> set ds. ascii_digit c) \<Longrightarrow> phone_digits first ds = Some ds"
  by (induction ds arbitrary: first) auto

lemma classes_email_body:
  "P \<in> classes email_body \<Longrightarrow>
     P = local_rune \<or> P = alnum_rune \<or> P = label_rune \<or> P = (\<lambda>r. r = 64) \<or> P = (\<lambda>r. r = 46)"
  using classes_repeat_between [of "Cls label_rune" 0 61]
  by (auto simp: email_body_def domain_label_def plus_def opt_def lit_rune_def)

lemma email_rune_graphic:
  "P \<in> classes email_body \<Longrightarrow> P r \<Longrightarrow> 33 \<le> r \<and> r < 127"
  by (drule classes_email_body)
    (auto simp: local_rune_def label_rune_def alnum_rune_def)

lemma no_word_b_email: "no_word_b email_body"
  by (simp add: email_body_def domain_label_def plus_def opt_def lit_rune_def no_word_b_repeat_between)

definition lower_rune :: "rune \<Rightarrow> rune" where
  "lower_rune r = (if 65 \<le> r \<and> r \<le> 90 then r + 32 else r)"

lemma byte_lower: "byte (to_lower_char c) = lower_rune (byte c)"
  by (simp add: byte_to_lower_char lower_rune_def)

lemma email_class_lower:
  "P \<in> classes email_body \<Longrightarrow> P r \<Longrightarrow> P (lower_rune r)"
  by (drule classes_email_body)
    (auto simp: local_rune_def label_rune_def alnum_rune_def lower_rune_def)

lemma emailPattern_iff:
  "search emailPattern txt \<longleftrightarrow> (\<exists>b. matches email_body (None, txt) (b, []))"
  unfolding emailPattern_def by (rule search_anchored)

lemma emailPattern_runes:
  assumes "search emailPattern (runes s)"
  shows "runes s = map byte s" "\<forall>c \<in> set s. graphic c"
proof -
  from assms obtain b where m: "matches email_body (None, runes s) (b, [])"
    by (auto simp: emailPattern_iff)
  have g: "33 \<le> r \<and> r < 127" if "r \<in> set (runes s)" for r
    using matches_consumes_all [OF m that] email_rune_graphic by blast
  show r: "runes s = map byte s"
    by (rule runes_ascii_conv) (use g in force)
  show "\<forall>c \<in> set s. graphic c"
    using g r by (auto simp: graphic_def)
qed

lemma emailPattern_lower:
  assumes "search emailPattern (runes s)"
  shows "search emailPattern (runes (to_lower s))"
proof -
  from assms obtain b where m: "matches email_body (None, runes s) (b, [])"
    by (auto simp: emailPattern_iff)
  have l: "runes (to_lower s) = map lower_rune (runes s)"
  proof -
    have "byte c < 128" if "c \<in> set (to_lower s)" for c
    proof -
      from that obtain d where "d \<in> set s" and c: "c = to_lower_char d"
        by (auto simp: to_lower_def)
      then have "byte d < 127"
        using emailPattern_runes(2) [OF assms] by (auto simp: graphic_def)
      then show ?thesis by (simp add: c byte_to_lower_char)
    qed
    then have "runes (to_lower s) = map byte (to_lower s)"
      by (rule runes_ascii)
    then show ?thesis
      by (simp add: emailPattern_runes(1) [OF assms] to_lower_def byte_lower)
  qed
  have "matches email_body (map_pos lower_rune (None, runes s)) (map_pos lower_rune (b, []))"
    by (rule matches_map [OF m no_word_b_email]) (use email_class_lower in blast)
  then show ?thesis
    unfolding emailPattern_iff l by (auto simp: map_pos_def)
qed

lemma contains_any_lower:
  "contains_any ''*?'' (to_lower s) \<longleftrightarrow> contains_any ''*?'' s"
proof -
  have "to_lower_char c = d \<longleftrightarrow> c = d" if "d \<in> {CHR ''*'', CHR ''?''}" for c d
  proof
    assume "to_lower_char c = d"
    then have "byte d = lower_rune (byte c)" by (simp add: byte_lower [symmetric])
    with that have "byte c = byte d" by (auto simp: lower_rune_def split: if_splits)
    then show "c = d" by simp
  next
    assume "c = d"
    with that show "to_lower_char c = d" by (auto simp: to_lower_char_def)
  qed
  then show ?thesis
    by (auto simp: contains_any_def list_ex_iff to_lower_def)
qed

lemma email_normal_lower:
  assumes "search emailPattern (runes s)" "CHR ''@'' \<in> set s" "\<not> contains_any ''*?'' s"
  shows "email_normal (to_lower s)"
proof -
  have "to_lower_char CHR ''@'' = CHR ''@''"
    by (simp add: to_lower_char_def)
  with assms(2) have "CHR ''@'' \<in> set (to_lower s)"
    by (force simp: to_lower_def)
  moreover note l = emailPattern_lower [OF assms(1)]
  ultimately show ?thesis
    using assms(3) emailPattern_runes(2) [OF l]
    by (simp add: email_normal_def contains_any_lower)
qed

lemma phone_normalI:
  assumes "phone_digits True s = Some t" "e164 t"
  shows "phone_normal t"
proof -
  from assms(2) obtain ds where t: "t = CHR ''+'' # ds"
    by (auto simp: e164_def has_prefix_iff)
  have "\<forall>c \<in> set ds. ascii_digit c"
    using phone_digits_first assms(1) t by blast
  with assms(2) t show ?thesis
    by (cases ds) (auto simp: phone_normal_def e164_def)
qed

lemma NormalizeIdentity_normal:
  "NormalizeIdentity raw = Inr v \<Longrightarrow> phone_normal v \<or> email_normal v"
  by (auto simp: NormalizeIdentity_def Let_def contains_char_def
      intro: phone_normalI email_normal_lower split: if_splits option.splits)

lemma phone_normal_fixed: "phone_normal v \<Longrightarrow> NormalizeIdentity v = Inr v"
proof -
  assume "phone_normal v"
  then obtain ds where v: "v = CHR ''+'' # ds"
    and d: "\<forall>c \<in> set ds. ascii_digit c"
    and l: "8 \<le> length ds" "length ds \<le> 15" and h: "hd ds \<noteq> CHR ''0''"
    by (auto simp: phone_normal_def)
  have ne: "ds \<noteq> []" using l by auto
  then have "graphic (last v)"
    using d by (auto simp: graphic_def ascii_digit_def v dest!: bspec [OF _ last_in_set])
  then have t: "trim_space v = v"
    by (intro trim_space_graphic) (auto simp: graphic_def v)
  have "CHR ''@'' \<notin> set v"
    using d by (auto simp: v ascii_digit_def)
  moreover have "phone_digits True v = Some v"
    using d by (simp add: v phone_digits_id)
  moreover have "e164 v"
    using l h ne by (cases ds) (auto simp: e164_def has_prefix_def v)
  ultimately show ?thesis
    by (simp add: NormalizeIdentity_def t contains_char_def) (simp add: v)
qed

lemma email_normal_fixed: "email_normal v \<Longrightarrow> NormalizeIdentity v = Inr v"
proof -
  assume e: "email_normal v"
  then have "v \<noteq> []" by (auto simp: email_normal_def)
  with e have "trim_space v = v"
    by (intro trim_space_graphic) (auto simp: email_normal_def)
  with e \<open>v \<noteq> []\<close> show ?thesis
    by (simp add: NormalizeIdentity_def email_normal_def contains_char_def)
qed

section \<open>The interface the policy uses\<close>

locale normalizer =
  fixes norm :: "string \<Rightarrow> 'e + string"
  assumes norm_fixed: "norm s = Inr v \<Longrightarrow> norm v = Inr v"
begin

definition normal :: "string \<Rightarrow> bool" where
  "normal v \<longleftrightarrow> norm v = Inr v"

lemma normal_norm: "norm s = Inr v \<Longrightarrow> normal v"
  by (simp add: normal_def norm_fixed)

lemma norm_all_normal: "(\<And>v. v \<in> set vs \<Longrightarrow> normal v) \<Longrightarrow> map_sum_list norm vs = Inr vs"
  by (intro map_sum_list_id) (simp add: normal_def)

lemma normal_map_sum_list:
  "map_sum_list norm raws = Inr vs \<Longrightarrow> v \<in> set vs \<Longrightarrow> normal v"
  by (metis map_sum_list_set normal_norm)

lemma map_sum_list_fixed:
  "map_sum_list norm raws = Inr vs \<Longrightarrow> map_sum_list norm vs = Inr vs"
  by (intro norm_all_normal) (rule normal_map_sum_list)

end

interpretation identity: normalizer NormalizeIdentity
  by unfold_locales
    (blast dest: NormalizeIdentity_normal intro: phone_normal_fixed email_normal_fixed)

text \<open>Two numbers in normal form, for evaluations.\<close>

lemma phone_examples:
  "NormalizeIdentity ''+14155550100'' = Inr ''+14155550100''"
  "NormalizeIdentity ''+442079460018'' = Inr ''+442079460018''"
  by (rule phone_normal_fixed; simp add: phone_normal_def ascii_digit_def)+

section \<open>Properties\<close>

definition separator :: "char \<Rightarrow> bool" where
  "separator c \<longleftrightarrow> c \<in> {CHR '' '', CHR ''-'', CHR ''('', CHR '')'', CHR ''.''}"

lemma separator_digit: "ascii_digit c \<Longrightarrow> \<not> separator c"
  by (auto simp: ascii_digit_def separator_def)

lemma phone_digits_rest_iff:
  "phone_digits False s = Some t \<longleftrightarrow>
     t = filter ascii_digit s \<and> (\<forall>c \<in> set s. ascii_digit c \<or> separator c)"
  by (induction s arbitrary: t) (auto simp: separator_def ascii_digit_def)

lemma phone_digits_plus_iff:
  "phone_digits True s = Some (CHR ''+'' # ds) \<longleftrightarrow>
     (\<exists>rest. s = CHR ''+'' # rest \<and> ds = filter ascii_digit rest
        \<and> (\<forall>c \<in> set rest. ascii_digit c \<or> separator c))"
proof -
  have n: "\<not> ascii_digit CHR ''+''" "\<not> separator CHR ''+''"
    by (auto simp: ascii_digit_def separator_def)
  show ?thesis
  proof (cases s)
    case (Cons c cs)
    have f: "CHR ''+'' # ds \<noteq> filter ascii_digit cs"
      using n(1) by (metis filter_eq_ConsD)
    show ?thesis
      using n f by (auto simp: Cons separator_def [symmetric] phone_digits_rest_iff)
  qed simp
qed

text \<open>What \<open>NormalizeIdentity\<close> returns is a normal form (an E.164 number of 8 to 15 digits
  after the plus with no leading zero, or a lower-case exact email address) that normalising again
  returns unchanged, so that comparing normalised identities byte by byte is comparing identities.\<close>

theorem normalize_identity_normal:
  assumes "NormalizeIdentity raw = Inr v"
  shows "(phone_normal v \<or> email_normal v) \<and> NormalizeIdentity v = Inr v"
  using assms NormalizeIdentity_normal identity.norm_fixed by blast

lemma normalize_identity_normal_witness:
  "NormalizeIdentity '' +1 (415) 555-0100 '' = Inr ''+14155550100''
   \<and> phone_normal ''+14155550100'' \<and> NormalizeIdentity ''+14155550100'' = Inr ''+14155550100''"
proof -
  have e: "NormalizeIdentity '' +1 (415) 555-0100 '' = Inr ''+14155550100''"
    by code_simp
  have "\<not> email_normal ''+14155550100''"
    by (simp add: email_normal_def)
  with normalize_identity_normal [OF e] e show ?thesis by blast
qed

text \<open>A text without \<open>@\<close> is accepted exactly when, without its surrounding white space, it is a
  plus followed by digits and the five separators only, and the digits form an E.164 number; the
  result is the plus and those digits, so every way of punctuating a number denotes the same
  identity and nothing else is accepted.\<close>

theorem normalize_phone_iff:
  assumes "CHR ''@'' \<notin> set raw"
  shows "NormalizeIdentity raw = Inr v \<longleftrightarrow>
     phone_normal v
     \<and> (\<exists>rest. trim_space raw = CHR ''+'' # rest
          \<and> (\<forall>c \<in> set rest. ascii_digit c \<or> separator c)
          \<and> v = CHR ''+'' # filter ascii_digit rest)"
proof -
  have "CHR ''@'' \<notin> set (trim_space raw)"
    using assms set_trim_space by blast
  moreover have "\<not> e164 []" by (simp add: e164_def has_prefix_def)
  ultimately have n: "NormalizeIdentity raw = Inr v \<longleftrightarrow>
      phone_digits True (trim_space raw) = Some v \<and> e164 v"
    by (cases "trim_space raw = []"; cases "phone_digits True (trim_space raw)")
      (auto simp: NormalizeIdentity_def contains_char_def)
  show ?thesis
  proof (cases "\<exists>ds. v = CHR ''+'' # ds")
    case True
    then obtain ds where v: "v = CHR ''+'' # ds" ..
    have "phone_digits True (trim_space raw) = Some v \<Longrightarrow> e164 v \<longleftrightarrow> phone_normal v"
      using phone_normalI [of "trim_space raw" v]
      by (cases ds) (auto simp: e164_def phone_normal_def has_prefix_def v)
    with n show ?thesis
      by (auto simp: v phone_digits_plus_iff)
  next
    case False
    with n show ?thesis
      by (cases v) (auto simp: e164_def has_prefix_def phone_normal_def)
  qed
qed

lemma normalize_phone_iff_witness:
  "NormalizeIdentity '' +44 20.7946-0018'' = Inr ''+442079460018''"
proof -
  have "trim_space '' +44 20.7946-0018'' = ''+44 20.7946-0018''"
    "filter ascii_digit ''44 20.7946-0018'' = ''442079460018''"
    "list_all (\<lambda>c. ascii_digit c \<or> separator c) ''44 20.7946-0018''"
    by code_simp+
  moreover have "phone_normal ''+442079460018''"
    by (simp add: phone_normal_def ascii_digit_def)
  ultimately show ?thesis
    by (subst normalize_phone_iff) (simp_all add: list_all_iff)
qed

end
