(* ===== verification/Policy.thy ===== *)
theory Policy
  imports Identity
begin

text \<open>
  \<open>internal/policy/policy.go\<close>: the three identity sets of the owner's policy, loading them from
  the decoded policy file, derived grants, and the authorization decision for one conversation.
  \<open>group_conversation\<close> and \<open>direct_conversation\<close> say, independently of the code's sequence of
  checks, which metadata is consistent; \<open>Authorize\<close> is proved against them.
\<close>

section \<open>The policy and its construction\<close>

record policy =
  owners :: "string set"
  direct :: "string set"
  excluded :: "string set"

record file_messages =
  owner_aliases :: "string list"
  allowed_direct :: "string list"
  excluded_conversations :: "string list"

datatype policy_error =
    OwnerAliasInvalid identity_error
  | OwnersEmpty
  | AllowedDirectInvalid identity_error
  | OwnerAuthorizesDirect
  | ExcludedGuidInvalid
  | DerivedIdentityInvalid
  | PolicyUnreadable
  | PolicyUnparsable

text \<open>The three loops of \<open>Load\<close> over the decoded file.\<close>

fun load_owners :: "string set \<Rightarrow> string list \<Rightarrow> policy_error + string set" where
  "load_owners acc [] = Inr acc"
| "load_owners acc (value # vals) =
     (case NormalizeIdentity value of
        Inl e \<Rightarrow> Inl (OwnerAliasInvalid e)
      | Inr normalized \<Rightarrow> load_owners (insert normalized acc) vals)"

fun load_direct :: "string set \<Rightarrow> string set \<Rightarrow> string list \<Rightarrow> policy_error + string set" where
  "load_direct own acc [] = Inr acc"
| "load_direct own acc (value # vals) =
     (case NormalizeIdentity value of
        Inl e \<Rightarrow> Inl (AllowedDirectInvalid e)
      | Inr normalized \<Rightarrow>
          if normalized \<in> own then Inl OwnerAuthorizesDirect
          else load_direct own (insert normalized acc) vals)"

fun load_excluded :: "string set \<Rightarrow> string list \<Rightarrow> policy_error + string set" where
  "load_excluded acc [] = Inr acc"
| "load_excluded acc (guid # guids) =
     (let guid = trim_space guid in
      if guid = [] \<or> length guid > 512 then Inl ExcludedGuidInvalid
      else load_excluded (insert guid acc) guids)"

definition build_policy :: "file_messages \<Rightarrow> policy_error + policy" where
  "build_policy raw =
     (case load_owners {} (owner_aliases raw) of
        Inl e \<Rightarrow> Inl e
      | Inr own \<Rightarrow>
          if own = {} then Inl OwnersEmpty
          else (case load_direct own {} (allowed_direct raw) of
              Inl e \<Rightarrow> Inl e
            | Inr dir \<Rightarrow> (case load_excluded {} (excluded_conversations raw) of
                  Inl e \<Rightarrow> Inl e
                | Inr exc \<Rightarrow> Inr \<lparr>owners = own, direct = dir, excluded = exc\<rparr>)))"

text \<open>\<open>WithDirect\<close>: the loop over the derived identities, on a copy of the direct set.\<close>

fun with_direct_loop :: "string set \<Rightarrow> string set \<Rightarrow> string list \<Rightarrow> policy_error + string set" where
  "with_direct_loop own acc [] = Inr acc"
| "with_direct_loop own acc (identity # identities) =
     (case NormalizeIdentity identity of
        Inl _ \<Rightarrow> Inl DerivedIdentityInvalid
      | Inr normalized \<Rightarrow>
          with_direct_loop own (if normalized \<in> own then acc else insert normalized acc) identities)"

definition WithDirect :: "policy \<Rightarrow> string list \<Rightarrow> policy_error + policy" where
  "WithDirect p identities =
     (case with_direct_loop (owners p) (direct p) identities of
        Inl e \<Rightarrow> Inl e
      | Inr dir \<Rightarrow> Inr \<lparr>owners = owners p, direct = dir, excluded = excluded p\<rparr>)"

definition DirectIdentities :: "policy \<Rightarrow> string list" where
  "DirectIdentities p = sorted_list_of_set (direct p)"

section \<open>Authorization\<close>

record conversation =
  cv_guid :: string
  cv_identifier :: string
  cv_is_group :: "bool option"
  cv_participants :: "string list option"

record decision =
  d_valid :: bool
  d_allowed :: bool
  d_is_group :: bool
  d_participants :: "string list"

definition no_decision :: decision where
  "no_decision = \<lparr>d_valid = False, d_allowed = False, d_is_group = False, d_participants = []\<rparr>"

text \<open>The participant loop: normalise, reject on the first error, drop duplicates.\<close>

fun normalize_participants :: "string set \<Rightarrow> string list \<Rightarrow> string list option" where
  "normalize_participants seen [] = Some []"
| "normalize_participants seen (raw # raws) =
     (case NormalizeIdentity raw of
        Inl _ \<Rightarrow> None
      | Inr normalized \<Rightarrow>
          if normalized \<in> seen then normalize_participants seen raws
          else map_option ((#) normalized) (normalize_participants (insert normalized seen) raws))"

text \<open>The direct-message branch of \<open>Authorize\<close>, after the participants are known.\<close>

definition authorize_direct ::
  "policy \<Rightarrow> string \<Rightarrow> string \<Rightarrow> string \<Rightarrow> string list \<Rightarrow> decision" where
  "authorize_direct p guid address identifier participants =
     (if length participants \<noteq> 1 then no_decision
      else (case NormalizeIdentity identifier of
          Inl _ \<Rightarrow> no_decision
        | Inr ident \<Rightarrow>
            if ident \<noteq> participants ! 0 then no_decision
            else (case NormalizeIdentity address of
                Inl _ \<Rightarrow> no_decision
              | Inr guidIdentity \<Rightarrow>
                  if guidIdentity \<noteq> ident then no_decision
                  else if ident \<in> owners p
                  then \<lparr>d_valid = True, d_allowed = False, d_is_group = False,
                        d_participants = participants\<rparr>
                  else \<lparr>d_valid = True,
                        d_allowed = (if guid \<in> excluded p then False else ident \<in> direct p),
                        d_is_group = False, d_participants = participants\<rparr>)))"

definition authorize_parts ::
  "policy \<Rightarrow> string \<Rightarrow> string \<Rightarrow> bool \<Rightarrow> string list \<Rightarrow> string \<Rightarrow> string \<Rightarrow> string \<Rightarrow> decision" where
  "authorize_parts p guid identifier is_group raws part0 part1 part2 =
     (if part0 = [] \<or> part2 = [] \<or> (part1 \<noteq> ''+'' \<and> part1 \<noteq> ''-'') \<or> identifier = []
      then no_decision
      else
        let marker = (part1 = ''+'') in
        if is_group \<noteq> marker then no_decision
        else if contains_char CHR '';'' identifier \<and> identifier \<noteq> guid then no_decision
        else
          let identifier = (if contains_char CHR '';'' identifier then part2 else identifier) in
          if marker \<and> identifier \<noteq> part2 then no_decision
          else (case normalize_participants {} raws of
              None \<Rightarrow> no_decision
            | Some participants \<Rightarrow>
                if participants = [] then no_decision
                else if marker
                then \<lparr>d_valid = True, d_allowed = (guid \<notin> excluded p), d_is_group = True,
                      d_participants = participants\<rparr>
                else authorize_direct p guid part2 identifier participants))"

definition Authorize :: "policy option \<Rightarrow> conversation \<Rightarrow> decision" where
  "Authorize po c =
     (case (po, cv_is_group c, cv_participants c) of
        (Some p, Some is_group, Some raws) \<Rightarrow>
          if trim_space (cv_guid c) = [] then no_decision
          else (case split_on CHR '';'' (cv_guid c) of
              [part0, part1, part2] \<Rightarrow>
                authorize_parts p (cv_guid c) (cv_identifier c) is_group raws part0 part1 part2
            | _ \<Rightarrow> no_decision)
      | _ \<Rightarrow> no_decision)"

section \<open>Loading\<close>

lemma load_owners_iff:
  "load_owners acc vals = Inr own \<longleftrightarrow>
     (\<exists>vs. map_sum_list NormalizeIdentity vals = Inr vs \<and> own = acc \<union> set vs)"
  by (induction vals arbitrary: acc) (auto split: sum.splits)

lemma load_direct_iff:
  "load_direct own acc vals = Inr dir \<longleftrightarrow>
     (\<exists>vs. map_sum_list NormalizeIdentity vals = Inr vs \<and> set vs \<inter> own = {} \<and> dir = acc \<union> set vs)"
  by (induction vals arbitrary: acc) (auto split: sum.splits)

lemma load_excluded_iff:
  "load_excluded acc guids = Inr exc \<longleftrightarrow>
     (\<forall>g \<in> set guids. trim_space g \<noteq> [] \<and> length (trim_space g) \<le> 512)
       \<and> exc = acc \<union> trim_space ` set guids"
  by (induction guids arbitrary: acc) (auto simp: Let_def)

lemma with_direct_loop_iff:
  "with_direct_loop own acc ids = Inr dir \<longleftrightarrow>
     (\<exists>vs. map_sum_list NormalizeIdentity ids = Inr vs \<and> dir = acc \<union> (set vs - own))"
  by (induction ids arbitrary: acc) (auto split: sum.splits)

text \<open>What every loaded policy satisfies: there is an owner, no owner alias is granted, and
  every identity and excluded GUID is in normal form.\<close>

definition policy_wf :: "policy \<Rightarrow> bool" where
  "policy_wf p \<longleftrightarrow> finite (owners p) \<and> finite (direct p) \<and> owners p \<noteq> {}
     \<and> owners p \<inter> direct p = {}
     \<and> (\<forall>v \<in> owners p \<union> direct p. NormalizeIdentity v = Inr v)
     \<and> (\<forall>g \<in> excluded p. trim_space g = g \<and> g \<noteq> [] \<and> length g \<le> 512)"

lemma build_policy_wf: "build_policy raw = Inr p \<Longrightarrow> policy_wf p"
proof -
  assume b: "build_policy raw = Inr p"
  then obtain own dir exc where
    o: "load_owners {} (owner_aliases raw) = Inr own" "own \<noteq> {}" and
    d: "load_direct own {} (allowed_direct raw) = Inr dir" and
    e: "load_excluded {} (excluded_conversations raw) = Inr exc" and
    p: "p = \<lparr>owners = own, direct = dir, excluded = exc\<rparr>"
    by (auto simp: build_policy_def split: sum.splits if_splits)
  have "NormalizeIdentity v = Inr v" if "v \<in> own \<union> dir" for v
    using that o d identity.normal_map_sum_list
    by (auto simp: load_owners_iff load_direct_iff identity.normal_def)
  then show ?thesis
    using o d e by (auto simp: policy_wf_def p load_owners_iff load_direct_iff load_excluded_iff)
qed

lemma WithDirect_iff:
  "WithDirect p ids = Inr q \<longleftrightarrow>
     (\<exists>vs. map_sum_list NormalizeIdentity ids = Inr vs
        \<and> q = \<lparr>owners = owners p, direct = direct p \<union> (set vs - owners p), excluded = excluded p\<rparr>)"
  by (auto simp: WithDirect_def with_direct_loop_iff split: sum.splits)
    (metis Inl_Inr_False with_direct_loop_iff)+

lemma WithDirect_wf: "policy_wf p \<Longrightarrow> WithDirect p ids = Inr q \<Longrightarrow> policy_wf q"
  using identity.normal_map_sum_list
  by (auto simp: WithDirect_iff policy_wf_def identity.normal_def)

section \<open>The abstract conversations\<close>

lemma normalize_participants_eq:
  "normalize_participants seen raws =
     (case map_sum_list NormalizeIdentity raws of Inl _ \<Rightarrow> None | Inr vs \<Rightarrow> Some (dedup seen vs))"
  by (induction raws arbitrary: seen) (auto split: sum.splits)

definition native_guid :: "string \<Rightarrow> string \<Rightarrow> string \<Rightarrow> string \<Rightarrow> bool" where
  "native_guid guid service marker address \<longleftrightarrow>
     guid = service @ '';'' @ marker @ '';'' @ address
     \<and> service \<noteq> [] \<and> address \<noteq> [] \<and> CHR '';'' \<notin> set service \<and> CHR '';'' \<notin> set address"

definition names_conversation :: "string \<Rightarrow> conversation \<Rightarrow> string \<Rightarrow> bool" where
  "names_conversation ident c address \<longleftrightarrow>
     (cv_identifier c = ident \<and> CHR '';'' \<notin> set ident \<and> ident \<noteq> [])
     \<or> (cv_identifier c = cv_guid c \<and> ident = address)"

definition group_conversation :: "conversation \<Rightarrow> string list \<Rightarrow> bool" where
  "group_conversation c members \<longleftrightarrow>
     (\<exists>service address raws vs.
        native_guid (cv_guid c) service ''+'' address
        \<and> cv_is_group c = Some True \<and> cv_participants c = Some raws
        \<and> map_sum_list NormalizeIdentity raws = Inr vs \<and> vs \<noteq> []
        \<and> names_conversation address c address \<and> members = dedup {} vs)"

definition direct_conversation :: "conversation \<Rightarrow> string \<Rightarrow> bool" where
  "direct_conversation c x \<longleftrightarrow>
     (\<exists>service address raws vs ident.
        native_guid (cv_guid c) service ''-'' address
        \<and> cv_is_group c = Some False \<and> cv_participants c = Some raws
        \<and> map_sum_list NormalizeIdentity raws = Inr vs \<and> set vs = {x}
        \<and> names_conversation ident c address
        \<and> NormalizeIdentity ident = Inr x \<and> NormalizeIdentity address = Inr x)"

lemma split_native_guid:
  assumes "CHR '';'' \<notin> set marker"
  shows "split_on CHR '';'' guid = [service, marker, address] \<and> service \<noteq> [] \<and> address \<noteq> []
     \<longleftrightarrow> native_guid guid service marker address"
  using assms by (auto simp: split_three_iff native_guid_def)

lemma native_guid_not_blank: "native_guid guid service marker address \<Longrightarrow> trim_space guid \<noteq> []"
  using trim_space_keeps [of "CHR '';''" guid]
  by (auto simp: native_guid_def graphic_def)

lemma no_decision_simps [simp]:
  "d_valid no_decision = False" "d_allowed no_decision = False" "d_participants no_decision = []"
  by (simp_all add: no_decision_def)

lemma dedup_eq_Nil_iff: "dedup {} vs = [] \<longleftrightarrow> vs = []"
  by (cases vs) auto

text \<open>What a valid decision of \<open>authorize_parts\<close> and of its direct branch implies.\<close>

lemma authorize_direct_valid:
  assumes "d_valid (authorize_direct p guid address identifier ps)"
  obtains x where "ps = [x]" "NormalizeIdentity identifier = Inr x"
    "NormalizeIdentity address = Inr x"
    "authorize_direct p guid address identifier ps =
       \<lparr>d_valid = True, d_allowed = (x \<in> direct p \<and> x \<notin> owners p \<and> guid \<notin> excluded p),
        d_is_group = False, d_participants = [x]\<rparr>"
proof -
  from assms obtain x where x: "ps = [x]"
    by (auto simp: authorize_direct_def length_Suc_conv split: if_split_asm)
  with assms have n: "NormalizeIdentity identifier = Inr x" "NormalizeIdentity address = Inr x"
    by (auto simp: authorize_direct_def split: if_split_asm sum.split_asm)
  with x show ?thesis
    by (intro that [of x]) (auto simp: authorize_direct_def)
qed

lemma authorize_direct_intro:
  assumes "NormalizeIdentity identifier = Inr x" "NormalizeIdentity address = Inr x"
  shows "authorize_direct p guid address identifier [x] =
       \<lparr>d_valid = True, d_allowed = (x \<in> direct p \<and> x \<notin> owners p \<and> guid \<notin> excluded p),
        d_is_group = False, d_participants = [x]\<rparr>"
  using assms by (auto simp: authorize_direct_def)

definition plain_identifier :: "string \<Rightarrow> string \<Rightarrow> string" where
  "plain_identifier identifier address =
     (if contains_char CHR '';'' identifier then address else identifier)"

lemma authorize_parts_valid:
  assumes "d_valid (authorize_parts p guid identifier g raws a m z)"
  obtains vs where "a \<noteq> []" "z \<noteq> []" "identifier \<noteq> []" "m = (if g then ''+'' else ''-'')"
    "contains_char CHR '';'' identifier \<longrightarrow> identifier = guid"
    "map_sum_list NormalizeIdentity raws = Inr vs" "vs \<noteq> []"
    "g \<longrightarrow> plain_identifier identifier z = z"
    "authorize_parts p guid identifier g raws a m z =
       (if g then \<lparr>d_valid = True, d_allowed = (guid \<notin> excluded p), d_is_group = True,
                   d_participants = dedup {} vs\<rparr>
        else authorize_direct p guid z (plain_identifier identifier z) (dedup {} vs))"
proof -
  note d = authorize_parts_def Let_def normalize_participants_eq plain_identifier_def [symmetric]
  have nonempty: "a \<noteq> []" "z \<noteq> []" "identifier \<noteq> []" "m = ''+'' \<or> m = ''-''"
    using assms by (auto simp: authorize_parts_def split: if_split_asm)
  note 1 = assms [unfolded d, simplified nonempty if_False simp_thms]
  have g: "g = (m = ''+'')"
    using 1 by (simp split: if_split_asm)
  have c: "contains_char CHR '';'' identifier \<Longrightarrow> identifier = guid"
    using 1 by (simp split: if_split_asm)
  have i: "g \<Longrightarrow> plain_identifier identifier z = z"
    using 1 by (simp split: if_split_asm)
  obtain vs where v: "map_sum_list NormalizeIdentity raws = Inr vs" "vs \<noteq> []"
    using 1 by (auto simp: dedup_eq_Nil_iff split: if_split_asm sum.split_asm)
  have "dedup {} vs \<noteq> []" using v(2) by (simp add: dedup_eq_Nil_iff)
  with nonempty g c i v have "authorize_parts p guid identifier g raws a m z =
       (if g then \<lparr>d_valid = True, d_allowed = (guid \<notin> excluded p), d_is_group = True,
                   d_participants = dedup {} vs\<rparr>
        else authorize_direct p guid z (plain_identifier identifier z) (dedup {} vs))"
    by (auto simp: d)
  with nonempty g c i v show ?thesis by (intro that [of vs]) auto
qed

lemma authorize_parts_intro:
  assumes "a \<noteq> []" "z \<noteq> []" "identifier \<noteq> []"
    "contains_char CHR '';'' identifier \<Longrightarrow> identifier = guid"
    "map_sum_list NormalizeIdentity raws = Inr vs" "vs \<noteq> []"
    "g \<Longrightarrow> plain_identifier identifier z = z"
  shows "authorize_parts p guid identifier g raws a (if g then ''+'' else ''-'') z =
       (if g then \<lparr>d_valid = True, d_allowed = (guid \<notin> excluded p), d_is_group = True,
                   d_participants = dedup {} vs\<rparr>
        else authorize_direct p guid z (plain_identifier identifier z) (dedup {} vs))"
  using assms by (auto simp: authorize_parts_def Let_def normalize_participants_eq
      plain_identifier_def [symmetric] dedup_eq_Nil_iff)

lemma Authorize_decomp:
  assumes "d_valid (Authorize po c)"
  obtains p g raws service address where
    "po = Some p" "cv_is_group c = Some g" "cv_participants c = Some raws"
    "native_guid (cv_guid c) service (if g then ''+'' else ''-'') address"
    "Authorize po c = authorize_parts p (cv_guid c) (cv_identifier c) g raws
       service (if g then ''+'' else ''-'') address"
proof -
  from assms obtain p g raws where b:
    "po = Some p" "cv_is_group c = Some g" "cv_participants c = Some raws"
    "trim_space (cv_guid c) \<noteq> []"
    by (auto simp: Authorize_def split: option.splits if_splits)
  with assms obtain a m z where s: "split_on CHR '';'' (cv_guid c) = [a, m, z]"
    by (auto simp: Authorize_def split: list.splits)
  with b have e: "Authorize po c =
       authorize_parts p (cv_guid c) (cv_identifier c) g raws a m z"
    by (simp add: Authorize_def)
  from assms [unfolded e] have m: "a \<noteq> []" "z \<noteq> []" "m = (if g then ''+'' else ''-'')"
    by (elim authorize_parts_valid; simp)+
  with s have "native_guid (cv_guid c) a m z"
    using split_native_guid [of m "cv_guid c" a z] by auto
  with b e m show ?thesis using that by blast
qed

lemma Authorize_native:
  assumes "native_guid (cv_guid c) service (if g then ''+'' else ''-'') address"
    "cv_is_group c = Some g" "cv_participants c = Some raws"
  shows "Authorize (Some p) c = authorize_parts p (cv_guid c) (cv_identifier c) g raws
     service (if g then ''+'' else ''-'') address"
proof -
  have "split_on CHR '';'' (cv_guid c) = [service, if g then ''+'' else ''-'', address]"
    using assms(1) split_native_guid [of "if g then ''+'' else ''-''" "cv_guid c" service address]
    by (auto split: if_splits)
  with assms native_guid_not_blank [OF assms(1)] show ?thesis
    by (simp add: Authorize_def)
qed

lemma names_plain_identifier:
  assumes "native_guid (cv_guid c) service marker address"
  shows "names_conversation ident c address \<longleftrightarrow>
     cv_identifier c \<noteq> []
     \<and> (contains_char CHR '';'' (cv_identifier c) \<longrightarrow> cv_identifier c = cv_guid c)
     \<and> ident = plain_identifier (cv_identifier c) address"
  using assms by (auto simp: names_conversation_def plain_identifier_def contains_char_def native_guid_def)

text \<open>The decision on a conversation whose metadata agree, for both kinds.\<close>

lemma Authorize_group_decision:
  assumes "group_conversation c members"
  shows "Authorize (Some p) c = \<lparr>d_valid = True, d_allowed = (cv_guid c \<notin> excluded p),
     d_is_group = True, d_participants = members\<rparr>"
proof -
  from assms obtain service address raws vs where r:
    "native_guid (cv_guid c) service (if True then ''+'' else ''-'') address"
    "cv_is_group c = Some True" "cv_participants c = Some raws"
    "map_sum_list NormalizeIdentity raws = Inr vs" "vs \<noteq> []"
    "names_conversation address c address" "members = dedup {} vs"
    by (auto simp: group_conversation_def)
  have z: "service \<noteq> []" "address \<noteq> []"
    using r(1) by (auto simp: native_guid_def)
  have n: "cv_identifier c \<noteq> []"
    "contains_char CHR '';'' (cv_identifier c) \<Longrightarrow> cv_identifier c = cv_guid c"
    "address = plain_identifier (cv_identifier c) address"
    using r(6) by (simp_all add: names_plain_identifier [OF r(1)])
  show ?thesis
    unfolding Authorize_native [OF r(1-3)]
    by (subst authorize_parts_intro [OF z n(1,2) r(4,5) n(3) [symmetric]])
      (simp_all add: r(7))
qed

lemma Authorize_direct_decision:
  assumes "direct_conversation c x"
  shows "Authorize (Some p) c = \<lparr>d_valid = True,
     d_allowed = (x \<in> direct p \<and> x \<notin> owners p \<and> cv_guid c \<notin> excluded p),
     d_is_group = False, d_participants = [x]\<rparr>"
proof -
  from assms obtain service address raws vs ident where r:
    "native_guid (cv_guid c) service (if False then ''+'' else ''-'') address"
    "cv_is_group c = Some False" "cv_participants c = Some raws"
    "map_sum_list NormalizeIdentity raws = Inr vs" "set vs = {x}"
    "names_conversation ident c address"
    "NormalizeIdentity ident = Inr x" "NormalizeIdentity address = Inr x"
    by (auto simp: direct_conversation_def)
  have z12: "service \<noteq> []" "address \<noteq> []"
    using r(1) by (auto simp: native_guid_def)
  have z4: "dedup {} vs = [x]"
    unfolding dedup_single_iff by (rule r(5))
  then have z3: "vs \<noteq> []" by (metis dedup.simps(1) list.distinct(1))
  have n: "cv_identifier c \<noteq> []"
    "contains_char CHR '';'' (cv_identifier c) \<Longrightarrow> cv_identifier c = cv_guid c"
    "ident = plain_identifier (cv_identifier c) address"
    using r(6) by (simp_all add: names_plain_identifier [OF r(1)])
  have "Authorize (Some p) c =
      authorize_direct p (cv_guid c) address (plain_identifier (cv_identifier c) address) (dedup {} vs)"
    unfolding Authorize_native [OF r(1-3)]
    by (rule trans [OF authorize_parts_intro [OF z12 n(1,2) r(4) z3]]) simp_all
  then show ?thesis
    unfolding z4 authorize_direct_intro [OF r(7) [unfolded n(3)] r(8)] .
qed

lemma Authorize_valid_cases:
  assumes "d_valid (Authorize po c)"
  shows "\<exists>p. po = Some p \<and> ((\<exists>members. group_conversation c members) \<or> (\<exists>x. direct_conversation c x))"
proof -
  from assms obtain p g raws service address where d:
    "po = Some p" "cv_is_group c = Some g" "cv_participants c = Some raws"
    "native_guid (cv_guid c) service (if g then ''+'' else ''-'') address"
    "Authorize po c = authorize_parts p (cv_guid c) (cv_identifier c) g raws
       service (if g then ''+'' else ''-'') address"
    by (rule Authorize_decomp)
  from assms [unfolded d(5)] obtain vs where v:
    "cv_identifier c \<noteq> []" "contains_char CHR '';'' (cv_identifier c) \<longrightarrow> cv_identifier c = cv_guid c"
    "map_sum_list NormalizeIdentity raws = Inr vs" "vs \<noteq> []"
    "g \<longrightarrow> plain_identifier (cv_identifier c) address = address"
    "authorize_parts p (cv_guid c) (cv_identifier c) g raws service (if g then ''+'' else ''-'') address =
       (if g then \<lparr>d_valid = True, d_allowed = (cv_guid c \<notin> excluded p), d_is_group = True,
                   d_participants = dedup {} vs\<rparr>
        else authorize_direct p (cv_guid c) address
               (plain_identifier (cv_identifier c) address) (dedup {} vs))"
    by (rule authorize_parts_valid) blast
  have n: "names_conversation (plain_identifier (cv_identifier c) address) c address"
    using v(1,2) by (simp add: names_plain_identifier [OF d(4)])
  show ?thesis
  proof (cases g)
    case True
    with d v n have "group_conversation c (dedup {} vs)"
      unfolding group_conversation_def by auto
    with d(1) show ?thesis by blast
  next
    case False
    with assms v(6) d(5) have
      "d_valid (authorize_direct p (cv_guid c) address
          (plain_identifier (cv_identifier c) address) (dedup {} vs))"
      by simp
    then obtain x where x: "dedup {} vs = [x]"
      "NormalizeIdentity (plain_identifier (cv_identifier c) address) = Inr x"
      "NormalizeIdentity address = Inr x"
      by (rule authorize_direct_valid)
    with False d v n have "direct_conversation c x"
      unfolding direct_conversation_def by (auto simp: dedup_single_iff)
    with d(1) show ?thesis by blast
  qed
qed

lemma Authorize_allowed_valid: "d_allowed (Authorize po c) \<Longrightarrow> d_valid (Authorize po c)"
proof -
  have d: "d_allowed (authorize_direct p guid address ident ps)
      \<Longrightarrow> d_valid (authorize_direct p guid address ident ps)" for p guid address ident ps
    by (simp add: authorize_direct_def split: if_split_asm sum.split_asm)
  have "d_allowed (authorize_parts p guid ident g raws x m z)
      \<Longrightarrow> d_valid (authorize_parts p guid ident g raws x m z)" for p guid ident g raws x m z
    unfolding authorize_parts_def Let_def
    by (cases "normalize_participants {} raws") (simp_all add: d split: if_split_asm)
  then show "d_allowed (Authorize po c) \<Longrightarrow> d_valid (Authorize po c)"
    by (simp add: Authorize_def split: option.split_asm if_split_asm list.split_asm)
qed

lemma Authorize_allowed_cases:
  assumes "d_allowed (Authorize po c)"
  obtains p members where "po = Some p" "group_conversation c members" "cv_guid c \<notin> excluded p"
    "Authorize po c = \<lparr>d_valid = True, d_allowed = True, d_is_group = True, d_participants = members\<rparr>"
  | p x where "po = Some p" "direct_conversation c x" "x \<in> direct p" "x \<notin> owners p"
    "cv_guid c \<notin> excluded p"
    "Authorize po c = \<lparr>d_valid = True, d_allowed = True, d_is_group = False, d_participants = [x]\<rparr>"
proof -
  from Authorize_valid_cases [OF Authorize_allowed_valid [OF assms]]
  obtain p where p: "po = Some p"
    "(\<exists>members. group_conversation c members) \<or> (\<exists>x. direct_conversation c x)" by blast
  from p(2) show ?thesis
  proof
    assume "\<exists>members. group_conversation c members"
    then obtain members where m: "group_conversation c members" ..
    with assms p(1) show ?thesis
      by (intro that(1) [of p members]) (simp_all add: Authorize_group_decision)
  next
    assume "\<exists>x. direct_conversation c x"
    then obtain x where x: "direct_conversation c x" ..
    with assms p(1) show ?thesis
      by (intro that(2) [of p x]) (simp_all add: Authorize_direct_decision)
  qed
qed

section \<open>Properties\<close>

text \<open>C17: A policy is accepted exactly when every owner alias and every allowed identity
  normalises, there is at least one owner, no owner is also allowed, and every excluded GUID is
  non-blank and at most 512 bytes after trimming; the three sets are then exactly the normalised
  values of the file.\<close>

theorem build_policy_iff:
  "build_policy raw = Inr p \<longleftrightarrow>
     (\<exists>os ds. map_sum_list NormalizeIdentity (owner_aliases raw) = Inr os
        \<and> map_sum_list NormalizeIdentity (allowed_direct raw) = Inr ds
        \<and> os \<noteq> [] \<and> set os \<inter> set ds = {}
        \<and> (\<forall>g \<in> trim_space ` set (excluded_conversations raw). g \<noteq> [] \<and> length g \<le> 512)
        \<and> p = \<lparr>owners = set os, direct = set ds,
               excluded = trim_space ` set (excluded_conversations raw)\<rparr>)"
  (is "?lhs \<longleftrightarrow> ?rhs")
proof
  assume ?lhs
  then obtain own dir exc where
    "load_owners {} (owner_aliases raw) = Inr own" "own \<noteq> {}"
    "load_direct own {} (allowed_direct raw) = Inr dir"
    "load_excluded {} (excluded_conversations raw) = Inr exc"
    "p = \<lparr>owners = own, direct = dir, excluded = exc\<rparr>"
    by (auto simp: build_policy_def split: sum.splits if_splits)
  then show ?rhs
    by (auto simp: load_owners_iff load_direct_iff load_excluded_iff Int_commute)
next
  assume ?rhs
  then obtain os ds where r: "map_sum_list NormalizeIdentity (owner_aliases raw) = Inr os"
    "map_sum_list NormalizeIdentity (allowed_direct raw) = Inr ds"
    "os \<noteq> []" "set os \<inter> set ds = {}"
    "\<forall>g \<in> trim_space ` set (excluded_conversations raw). g \<noteq> [] \<and> length g \<le> 512"
    "p = \<lparr>owners = set os, direct = set ds, excluded = trim_space ` set (excluded_conversations raw)\<rparr>"
    by blast
  then have "load_owners {} (owner_aliases raw) = Inr (set os)"
    "load_direct (set os) {} (allowed_direct raw) = Inr (set ds)"
    "load_excluded {} (excluded_conversations raw) = Inr (trim_space ` set (excluded_conversations raw))"
    by (auto simp: load_owners_iff load_direct_iff load_excluded_iff)
  with r(3,6) show ?lhs by (simp add: build_policy_def)
qed

lemma build_policy_iff_witness:
  "build_policy \<lparr>owner_aliases = [''+14155550100''], allowed_direct = [''+442079460018''],
       excluded_conversations = [''iMessage;+;chat9'']\<rparr> =
     Inr \<lparr>owners = {''+14155550100''}, direct = {''+442079460018''},
       excluded = {''iMessage;+;chat9''}\<rparr>"
proof -
  have "trim_space ''iMessage;+;chat9'' = ''iMessage;+;chat9''"
    by (rule trim_space_graphic) (simp_all add: graphic_def)
  note this phone_examples
  moreover have "os \<inter> ds = ds \<inter> os" for os ds :: "string set" by blast
  ultimately show ?thesis
    by (subst build_policy_iff) simp
qed

text \<open>C18: Every policy the broker can hold, the loaded one and each one extended with derived
  grants, keeps the invariant (finite sets of normal identities, at least one owner, no owner
  among the granted); an extension keeps the owners and the exclusions and only adds grants.\<close>

theorem policy_wf_preserved:
  assumes "build_policy raw = Inr p" "WithDirect p ids = Inr q"
  shows "policy_wf p \<and> policy_wf q \<and> owners q = owners p \<and> excluded q = excluded p
     \<and> direct p \<subseteq> direct q \<and> direct q - direct p \<subseteq> {x. \<exists>i \<in> set ids. NormalizeIdentity i = Inr x}"
proof -
  have "policy_wf p" by (rule build_policy_wf [OF assms(1)])
  moreover from this have "policy_wf q" by (rule WithDirect_wf [OF _ assms(2)])
  moreover obtain vs where "map_sum_list NormalizeIdentity ids = Inr vs"
    "q = \<lparr>owners = owners p, direct = direct p \<union> (set vs - owners p), excluded = excluded p\<rparr>"
    using assms(2) by (auto simp: WithDirect_iff)
  ultimately show ?thesis
    by (auto dest: map_sum_list_set)
qed

lemma policy_wf_preserved_witness:
  "\<exists>p q. build_policy \<lparr>owner_aliases = [''+14155550100''], allowed_direct = [],
        excluded_conversations = []\<rparr> = Inr p
     \<and> WithDirect p [''+442079460018'', ''+14155550100''] = Inr q \<and> policy_wf q
     \<and> direct q = {''+442079460018''}"
proof -
  note n = phone_examples
  let ?p = "\<lparr>owners = {''+14155550100''}, direct = {}, excluded = {}\<rparr> :: policy"
  let ?q = "\<lparr>owners = {''+14155550100''}, direct = {''+442079460018''}, excluded = {}\<rparr> :: policy"
  have p: "build_policy \<lparr>owner_aliases = [''+14155550100''], allowed_direct = [],
        excluded_conversations = []\<rparr> = Inr ?p"
    using n by (simp add: build_policy_def)
  have q: "WithDirect ?p [''+442079460018'', ''+14155550100''] = Inr ?q"
    using n by (simp add: WithDirect_def)
  from policy_wf_preserved [OF p q] p q show ?thesis by auto
qed

text \<open>C3: A conversation is allowed exactly when a policy is loaded that does not exclude its GUID
  and its metadata consistently describe either a group (a group GUID, the group flag, an
  identifier naming the same chat, participants that all normalise) or a direct conversation
  with one identity that the policy grants and that is not an owner.\<close>

theorem authorize_allowed_iff:
  "d_allowed (Authorize po c) \<longleftrightarrow>
     (\<exists>p. po = Some p \<and> cv_guid c \<notin> excluded p
        \<and> ((\<exists>members. group_conversation c members)
            \<or> (\<exists>x. direct_conversation c x \<and> x \<in> direct p \<and> x \<notin> owners p)))"
proof
  assume "d_allowed (Authorize po c)"
  then show "\<exists>p. po = Some p \<and> cv_guid c \<notin> excluded p
        \<and> ((\<exists>members. group_conversation c members)
            \<or> (\<exists>x. direct_conversation c x \<and> x \<in> direct p \<and> x \<notin> owners p))"
    by (cases rule: Authorize_allowed_cases) blast+
qed (auto simp: Authorize_group_decision Authorize_direct_decision)

text \<open>The decision in full: a consistent group yields its de-duplicated normal members, a
  consistent direct conversation its one identity, and everything else the empty decision that
  is neither valid nor allowed.\<close>

theorem authorize_decision:
  "(group_conversation c members \<longrightarrow> Authorize (Some p) c =
      \<lparr>d_valid = True, d_allowed = (cv_guid c \<notin> excluded p), d_is_group = True, d_participants = members\<rparr>)
   \<and> (direct_conversation c x \<longrightarrow> Authorize (Some p) c =
      \<lparr>d_valid = True, d_allowed = (x \<in> direct p \<and> x \<notin> owners p \<and> cv_guid c \<notin> excluded p),
       d_is_group = False, d_participants = [x]\<rparr>)
   \<and> ((\<nexists>members. group_conversation c members) \<and> (\<nexists>x. direct_conversation c x) \<longrightarrow>
      \<not> d_valid (Authorize (Some p) c) \<and> \<not> d_allowed (Authorize (Some p) c))
   \<and> \<not> d_valid (Authorize None c)"
  using Authorize_valid_cases [of None c] Authorize_valid_cases [of "Some p" c]
    Authorize_allowed_valid [of "Some p" c]
  by (auto simp: Authorize_group_decision Authorize_direct_decision)

lemma authorize_decision_witness:
  "Authorize (Some \<lparr>owners = {''+14155550100''}, direct = {''+442079460018''}, excluded = {}\<rparr>)
      \<lparr>cv_guid = ''iMessage;-;+442079460018'', cv_identifier = ''+442079460018'',
       cv_is_group = Some False, cv_participants = Some [''+442079460018'', ''+442079460018'']\<rparr> =
     \<lparr>d_valid = True, d_allowed = True, d_is_group = False, d_participants = [''+442079460018'']\<rparr>"
proof -
  let ?c = "\<lparr>cv_guid = ''iMessage;-;+442079460018'', cv_identifier = ''+442079460018'',
       cv_is_group = Some False, cv_participants = Some [''+442079460018'', ''+442079460018'']\<rparr>"
  note n = phone_examples
  have "native_guid (cv_guid ?c) ''iMessage'' ''-'' ''+442079460018''"
    by (simp add: native_guid_def)
  with n have "direct_conversation ?c ''+442079460018''"
    by (auto simp: direct_conversation_def names_conversation_def)
  then show ?thesis
    using authorize_decision [of ?c "[]"
        "\<lparr>owners = {''+14155550100''}, direct = {''+442079460018''}, excluded = {}\<rparr>"
        "''+442079460018''"]
    by simp
qed

text \<open>C16: Derived grants widen the policy only by direct conversations: after \<open>WithDirect\<close> a
  conversation is allowed exactly when it was before, or it is a direct conversation with one of
  the derived identities that is no owner and whose GUID is not excluded.\<close>

theorem with_direct_grants_only_direct:
  assumes "WithDirect p ids = Inr q"
  shows "d_allowed (Authorize (Some q) c) \<longleftrightarrow>
     d_allowed (Authorize (Some p) c)
     \<or> (\<exists>x i. direct_conversation c x \<and> i \<in> set ids \<and> NormalizeIdentity i = Inr x
          \<and> x \<notin> owners p \<and> cv_guid c \<notin> excluded p)"
proof -
  obtain vs where vs: "map_sum_list NormalizeIdentity ids = Inr vs"
    "q = \<lparr>owners = owners p, direct = direct p \<union> (set vs - owners p), excluded = excluded p\<rparr>"
    using assms by (auto simp: WithDirect_iff)
  have s: "x \<in> set vs \<longleftrightarrow> (\<exists>i \<in> set ids. NormalizeIdentity i = Inr x)" for x
    by (rule map_sum_list_set_iff [OF vs(1)])
  have allowed: "d_allowed (Authorize (Some r) c) \<longleftrightarrow> cv_guid c \<notin> excluded r
        \<and> ((\<exists>members. group_conversation c members)
            \<or> (\<exists>x. direct_conversation c x \<and> x \<in> direct r \<and> x \<notin> owners r))" for r
    by (rule iffI, erule Authorize_allowed_cases)
      (auto simp: Authorize_group_decision Authorize_direct_decision)
  show ?thesis
    unfolding allowed by (auto simp: vs(2) s)
qed

lemma with_direct_grants_only_direct_witness:
  "\<not> d_allowed (Authorize (Some \<lparr>owners = {''+14155550100''}, direct = {''+442079460018''}, excluded = {}\<rparr>)
      \<lparr>cv_guid = ''iMessage;-;+14155550100'', cv_identifier = ''+14155550100'',
       cv_is_group = Some False, cv_participants = Some [''+14155550100'']\<rparr>)"
proof -
  let ?p = "\<lparr>owners = {''+14155550100''}, direct = {}, excluded = {}\<rparr> :: policy"
  let ?q = "\<lparr>owners = {''+14155550100''}, direct = {''+442079460018''}, excluded = {}\<rparr> :: policy"
  let ?c = "\<lparr>cv_guid = ''iMessage;-;+14155550100'', cv_identifier = ''+14155550100'',
       cv_is_group = Some False, cv_participants = Some [''+14155550100'']\<rparr>"
  have "WithDirect ?p [''+442079460018'', ''+14155550100''] = Inr ?q"
    by (simp add: WithDirect_def phone_examples)
  note with_direct_grants_only_direct [OF this, of ?c]
  moreover have "native_guid (cv_guid ?c) ''iMessage'' ''-'' ''+14155550100''"
    by (simp add: native_guid_def)
  then have "direct_conversation ?c ''+14155550100''"
    using phone_examples by (auto simp: direct_conversation_def names_conversation_def)
  then have "\<not> d_allowed (Authorize (Some ?p) ?c)"
    by (simp add: Authorize_direct_decision)
  moreover have "x = ''+14155550100''" if "direct_conversation ?c x" for x
    using that phone_examples
    by (auto simp: direct_conversation_def)
  ultimately show ?thesis by auto
qed

end
