(* ===== verification/Framing.thy ===== *)
theory Framing
  imports GoStrings "HOL-Library.Word"
begin

unbundle bit_operations_syntax

text \<open>
  \<open>internal/rpc/framing.go\<close>: one message is a four-byte big-endian length and that many bytes.
  A reader is the list of pieces the connection will deliver before it ends; a writer is the
  list of answers its \<open>Write\<close> calls will give.  Both are the environment's choice, so the
  theorems hold for every way a stream is cut into pieces.
\<close>

datatype io_error = EndOfFile | UnexpectedEOF | ShortWrite | WriteFailed

section \<open>Reading\<close>

text \<open>\<open>io.ReadFull\<close> for \<open>n\<close> bytes; \<open>got\<close> says that some byte has been read already.\<close>

fun read_full :: "bool \<Rightarrow> nat \<Rightarrow> bytes list \<Rightarrow> (io_error + bytes) \<times> bytes list" where
  "read_full got n [] =
     (if n = 0 then Inr [] else Inl (if got then UnexpectedEOF else EndOfFile), [])"
| "read_full got n (c # cs) =
     (if n = 0 then (Inr [], c # cs)
      else if n < length c then (Inr (take n c), drop n c # cs)
      else (case read_full (got \<or> c \<noteq> []) (n - length c) cs of
          (Inl e, rest) \<Rightarrow> (Inl e, rest)
        | (Inr bs, rest) \<Rightarrow> (Inr (c @ bs), rest)))"

lemma read_full_spec:
  "(if n \<le> length (concat cs)
    then fst (read_full got n cs) = Inr (take n (concat cs))
      \<and> concat (snd (read_full got n cs)) = drop n (concat cs)
    else \<exists>e. fst (read_full got n cs) = Inl e)"
proof (induction got n cs rule: read_full.induct)
  case (1 got n)
  show ?case by simp
next
  case (2 got n c cs)
  show ?case
  proof (cases "n = 0 \<or> n < length c")
    case True
    then show ?thesis by auto
  next
    case False
    with 2 show ?thesis by (auto split: prod.splits sum.splits if_splits)
  qed
qed

lemma read_full_ok:
  "n \<le> length (concat cs) \<Longrightarrow>
     \<exists>rest. read_full got n cs = (Inr (take n (concat cs)), rest) \<and> concat rest = drop n (concat cs)"
  using read_full_spec [where n = n and cs = cs and got = got]
  by (cases "read_full got n cs") auto

lemma read_full_length:
  "read_full got n cs = (Inr bs, rest) \<Longrightarrow>
     length bs = n \<and> concat cs = bs @ concat rest"
  using read_full_spec [where n = n and cs = cs and got = got]
  by (auto split: if_split_asm)

text \<open>\<open>binary.BigEndian.Uint32\<close> and \<open>PutUint32\<close>.\<close>

definition octet :: "char \<Rightarrow> 32 word" where
  "octet c = of_nat (byte c)"

definition be_uint32 :: "bytes \<Rightarrow> 32 word" where
  "be_uint32 h = push_bit 24 (octet (h ! 0)) OR push_bit 16 (octet (h ! 1))
     OR push_bit 8 (octet (h ! 2)) OR octet (h ! 3)"

definition put_uint32 :: "32 word \<Rightarrow> bytes" where
  "put_uint32 v = [char_of (unat (drop_bit 24 v)), char_of (unat (drop_bit 16 v)),
     char_of (unat (drop_bit 8 v)), char_of (unat v)]"

datatype frame_error =
    ReadHeader io_error
  | EmptyFrame
  | FrameExceeds "32 word"
  | ReadBody io_error
  | InvalidFrameSize
  | WriteHeader io_error
  | WriteBody io_error

definition ReadFrame :: "bytes list \<Rightarrow> 32 word \<Rightarrow> (frame_error + bytes) \<times> bytes list" where
  "ReadFrame r maxBytes =
     (case read_full False 4 r of
        (Inl e, r) \<Rightarrow> (Inl (ReadHeader e), r)
      | (Inr header, r) \<Rightarrow>
          let size = be_uint32 header in
          if size = 0 then (Inl EmptyFrame, r)
          else if 0 < maxBytes \<and> maxBytes < size then (Inl (FrameExceeds maxBytes), r)
          else (case read_full False (unat size) r of
              (Inl e, r) \<Rightarrow> (Inl (ReadBody e), r)
            | (Inr payload, r) \<Rightarrow> (Inr payload, r)))"

section \<open>Writing\<close>

text \<open>One answer of \<open>Write\<close>: the count it returns, or an error after some bytes were sent.\<close>

datatype write_result = Wrote int | WriteErr nat

text \<open>\<open>writeAll\<close>: the bytes that reached the peer, the outcome, and the unused answers; the
  outcome is \<open>None\<close> while the last call has not returned.\<close>

fun writeAll :: "bytes \<Rightarrow> write_result list \<Rightarrow> bytes \<times> (io_error + unit) option \<times> write_result list" where
  "writeAll payload rs =
     (if payload = [] then ([], Some (Inr ()), rs)
      else (case rs of
          [] \<Rightarrow> ([], None, [])
        | WriteErr k # rs' \<Rightarrow> (take k payload, Some (Inl WriteFailed), rs')
        | Wrote n # rs' \<Rightarrow>
            if n \<le> 0 \<or> int (length payload) < n then ([], Some (Inl ShortWrite), rs')
            else (case writeAll (drop (nat n) payload) rs' of
                (sent, res, rest) \<Rightarrow> (take (nat n) payload @ sent, res, rest))))"

declare writeAll.simps [simp del]

definition WriteFrame ::
  "bytes \<Rightarrow> write_result list \<Rightarrow> bytes \<times> (frame_error + unit) option \<times> write_result list" where
  "WriteFrame payload rs =
     (if payload = [] \<or> 2 ^ 32 - 1 < length payload then ([], Some (Inl InvalidFrameSize), rs)
      else (case writeAll (put_uint32 (of_nat (length payload))) rs of
          (sent, None, rest) \<Rightarrow> (sent, None, rest)
        | (sent, Some (Inl e), rest) \<Rightarrow> (sent, Some (Inl (WriteHeader e)), rest)
        | (sent, Some (Inr _), rest) \<Rightarrow>
            (case writeAll payload rest of
               (sent', None, rest') \<Rightarrow> (sent @ sent', None, rest')
             | (sent', Some (Inl e), rest') \<Rightarrow> (sent @ sent', Some (Inl (WriteBody e)), rest')
             | (sent', Some (Inr _), rest') \<Rightarrow> (sent @ sent', Some (Inr ()), rest'))))"

lemma writeAll_prefix: "\<exists>t. payload = fst (writeAll payload rs) @ t"
proof (induction payload rs rule: writeAll.induct)
  case (1 payload rs)
  show ?case
  proof (cases rs)
    case Nil
    then show ?thesis by (simp add: writeAll.simps [of payload])
  next
    case (Cons r rs')
    show ?thesis
    proof (cases "\<exists>n. r = Wrote n \<and> \<not> (n \<le> 0 \<or> int (length payload) < n) \<and> payload \<noteq> []")
      case True
      then obtain n where n: "r = Wrote n" "\<not> (n \<le> 0 \<or> int (length payload) < n)" "payload \<noteq> []"
        by blast
      then obtain t where "drop (nat n) payload = fst (writeAll (drop (nat n) payload) rs') @ t"
        using "1.IH" Cons by blast
      then have "payload = (take (nat n) payload @ fst (writeAll (drop (nat n) payload) rs')) @ t"
        by (metis append.assoc append_take_drop_id)
      then show ?thesis
        using n Cons by (auto simp: writeAll.simps [of payload] split: prod.split)
    next
      case False
      then show ?thesis
        using Cons by (cases r) (auto simp: writeAll.simps [of payload], metis append_take_drop_id)
    qed
  qed
qed

lemma writeAll_ok: "writeAll payload rs = (sent, Some (Inr u), rest) \<Longrightarrow> sent = payload"
proof (induction payload rs arbitrary: sent rule: writeAll.induct)
  case (1 payload rs)
  show ?case
  proof (cases "payload = []")
    case True
    with "1.prems" show ?thesis by (simp add: writeAll.simps [of "[]"])
  next
    case False
    with "1.prems" obtain n rs' sent' where n: "rs = Wrote n # rs'"
      "\<not> (n \<le> 0 \<or> int (length payload) < n)"
      "writeAll (drop (nat n) payload) rs' = (sent', Some (Inr u), rest)"
      "sent = take (nat n) payload @ sent'"
      by (auto simp: writeAll.simps [of payload] split: list.split_asm write_result.split_asm
          if_split_asm prod.split_asm)
    then have "sent' = drop (nat n) payload"
      using "1.IH" [OF False n(1) refl n(2,3)] by blast
    with n show ?thesis by simp
  qed
qed

text \<open>Every answer ends the loop or shortens what is left, so it takes at most one \<open>Write\<close> call
  per byte.\<close>

lemma writeAll_terminates:
  "length payload \<le> length rs \<Longrightarrow>
     \<exists>sent res rest. writeAll payload rs = (sent, Some res, rest)
       \<and> length rs \<le> length rest + length payload"
proof (induction payload rs rule: writeAll.induct)
  case (1 payload rs)
  show ?case
  proof (cases "payload = []")
    case True
    then show ?thesis by (simp add: writeAll.simps [of "[]"])
  next
    case False
    with "1.prems" obtain r rs' where rs: "rs = r # rs'" by (cases rs) auto
    show ?thesis
    proof (cases "\<exists>n. r = Wrote n \<and> \<not> (n \<le> 0 \<or> int (length payload) < n)")
      case True
      then obtain n where n: "r = Wrote n" "\<not> (n \<le> 0 \<or> int (length payload) < n)" by blast
      then obtain k where k: "n = int k" "0 < k" "k \<le> length payload"
        by (metis linorder_not_le of_nat_le_iff pos_int_cases)
      then have "length (drop (nat n) payload) \<le> length rs'"
        using "1.prems" rs by simp
      from "1.IH" [OF False rs n(1) n(2) this] obtain sent res rest where
        "writeAll (drop (nat n) payload) rs' = (sent, Some res, rest)"
        "length rs' \<le> length rest + length (drop (nat n) payload)"
        by blast
      then show ?thesis
        using False n k rs by (simp add: writeAll.simps [of payload])
    next
      case False
      with \<open>payload \<noteq> []\<close> rs show ?thesis
        by (cases r) (auto simp: writeAll.simps [of payload] Suc_le_eq)
    qed
  qed
qed

section \<open>A written frame is read back\<close>

lemma octet_char_of: "octet (char_of (unat w)) = take_bit 8 w"
proof -
  have "octet (char_of (unat w)) = of_nat (take_bit 8 (unat w))"
    by (simp add: octet_def of_char_of take_bit_eq_mod)
  also have "\<dots> = take_bit 8 w"
    by (simp flip: take_bit_of_nat)
  finally show ?thesis .
qed

lemma length_put_uint32 [simp]: "length (put_uint32 v) = 4" "put_uint32 v \<noteq> []"
  by (simp_all add: put_uint32_def)

lemma be_put_uint32: "be_uint32 (put_uint32 v) = v"
proof -
  have "be_uint32 (put_uint32 v) = push_bit 24 (take_bit 8 (drop_bit 24 v))
      OR push_bit 16 (take_bit 8 (drop_bit 16 v)) OR push_bit 8 (take_bit 8 (drop_bit 8 v))
      OR take_bit 8 v"
    by (simp add: be_uint32_def put_uint32_def octet_char_of)
  also have "\<dots> = v"
  proof (rule bit_word_eqI)
    fix n
    assume "n < LENGTH(32)"
    then consider "n < 8" | "8 \<le> n" "n < 16" | "16 \<le> n" "n < 24" | "24 \<le> n" "n < 32"
      by fastforce
    then show "bit (push_bit 24 (take_bit 8 (drop_bit 24 v))
      OR push_bit 16 (take_bit 8 (drop_bit 16 v)) OR push_bit 8 (take_bit 8 (drop_bit 8 v))
      OR take_bit 8 v) n = bit v n"
      by cases (auto simp: bit_simps)
  qed
  finally show ?thesis .
qed

lemma bit_octet: "bit (octet c) n \<longleftrightarrow> n < 8 \<and> bit (byte c) n"
proof -
  have "byte c = take_bit 8 (byte c)" by (simp add: take_bit_eq_mod)
  then have "octet c = take_bit 8 (of_nat (byte c))"
    by (metis octet_def take_bit_of_nat)
  then show ?thesis
    by (auto simp: bit_simps)
qed

lemma char_of_octet: "char_of (unat (take_bit 8 (w :: 32 word))) = c \<longleftrightarrow> take_bit 8 w = octet c"
proof
  assume "char_of (unat (take_bit 8 w)) = c"
  then show "take_bit 8 w = octet c"
    by (metis octet_char_of take_bit_take_bit min.idem)
next
  assume w: "take_bit 8 w = octet c"
  have "unat (octet c) = byte c"
    using byte_less [of c] by (simp add: octet_def unat_of_nat del: byte_less)
  with w show "char_of (unat (take_bit 8 w)) = c"
    by simp
qed

lemma char_of_take8: "char_of (unat (w :: 32 word)) = (char_of (unat (take_bit 8 w)) :: char)"
  by (simp add: unsigned_take_bit_eq char_of_take_bit_eq)

lemma unpack_octets:
  assumes "\<And>n. bit a n \<Longrightarrow> n < 8" "\<And>n. bit b n \<Longrightarrow> n < 8" "\<And>n. bit c n \<Longrightarrow> n < 8"
    "\<And>n. bit d n \<Longrightarrow> n < 8"
    and v: "v = (push_bit 24 a OR push_bit 16 b OR push_bit 8 c OR d :: 32 word)"
  shows "take_bit 8 (drop_bit 24 v) = a" "take_bit 8 (drop_bit 16 v) = b"
    "take_bit 8 (drop_bit 8 v) = c" "take_bit 8 v = d"
  by (rule bit_word_eqI; simp add: v bit_simps; use assms(1-4) in fastforce)+

lemma put_be_uint32:
  assumes "length h = 4"
  shows "put_uint32 (be_uint32 h) = h"
proof -
  from assms obtain a b c d where h: "h = [a, b, c, d]"
    by (auto simp: numeral_eq_Suc length_Suc_conv)
  have v: "be_uint32 h = push_bit 24 (octet a) OR push_bit 16 (octet b) OR push_bit 8 (octet c) OR octet d"
    by (simp add: h be_uint32_def)
  have "char_of (unat (drop_bit 24 (be_uint32 h))) = a" "char_of (unat (drop_bit 16 (be_uint32 h))) = b"
    "char_of (unat (drop_bit 8 (be_uint32 h))) = c" "char_of (unat (be_uint32 h)) = d"
    by (subst char_of_take8, subst char_of_octet, rule unpack_octets [OF _ _ _ _ v];
      simp add: bit_octet)+
  then show ?thesis
    by (simp add: put_uint32_def h)
qed

lemma ReadFrame_split:
  assumes "concat r = put_uint32 sz @ rest" "sz \<noteq> 0" "maxBytes = 0 \<or> sz \<le> maxBytes"
    "unat sz \<le> length rest"
  shows "\<exists>r'. ReadFrame r maxBytes = (Inr (take (unat sz) rest), r')
     \<and> concat r' = drop (unat sz) rest"
proof -
  from read_full_ok [of 4 r False] assms(1) obtain r1 where
    r1: "read_full False 4 r = (Inr (put_uint32 sz), r1)" "concat r1 = rest"
    by auto
  from read_full_ok [of "unat sz" r1 False] assms(4) r1(2) obtain r2 where
    r2: "read_full False (unat sz) r1 = (Inr (take (unat sz) rest), r2)"
    "concat r2 = drop (unat sz) rest"
    by auto
  from r1 r2 assms(2,3) show ?thesis
    by (auto simp: ReadFrame_def be_put_uint32)
qed

lemma ReadFrame_bounds:
  assumes "ReadFrame r maxBytes = (Inr payload, r')"
  shows "payload \<noteq> []" "0 < maxBytes \<Longrightarrow> length payload \<le> unat maxBytes"
    "\<exists>header. length header = 4 \<and> concat r = header @ payload @ concat r'
       \<and> be_uint32 header = of_nat (length payload)"
proof -
  from assms obtain header r1 where h: "read_full False 4 r = (Inr header, r1)"
    "be_uint32 header \<noteq> 0" "\<not> (0 < maxBytes \<and> maxBytes < be_uint32 header)"
    "read_full False (unat (be_uint32 header)) r1 = (Inr payload, r')"
    by (auto simp: ReadFrame_def Let_def split: prod.splits sum.splits if_split_asm)
  note l = read_full_length [OF h(1)] read_full_length [OF h(4)]
  show "payload \<noteq> []"
    using l h(2) by (auto simp: unat_eq_0)
  show "0 < maxBytes \<Longrightarrow> length payload \<le> unat maxBytes"
    using l h(3) by (auto simp: word_less_nat_alt)
  show "\<exists>header. length header = 4 \<and> concat r = header @ payload @ concat r'
       \<and> be_uint32 header = of_nat (length payload)"
    using l by auto
qed

lemma WriteFrame_ok:
  assumes "WriteFrame payload rs = (sent, Some (Inr u), rest)"
  shows "payload \<noteq> []" "length payload < 2 ^ 32"
    "sent = put_uint32 (of_nat (length payload)) @ payload"
proof -
  from assms show "payload \<noteq> []" "length payload < 2 ^ 32"
    by (auto simp: WriteFrame_def split: if_split_asm)
  from assms show "sent = put_uint32 (of_nat (length payload)) @ payload"
    by (auto simp: WriteFrame_def split: if_split_asm prod.split_asm option.split_asm sum.split_asm
        dest!: writeAll_ok)
qed

section \<open>Properties\<close>

text \<open>C36: Whatever way the connection accepts the bytes and cuts them into pieces for the reader, a
  payload that \<open>WriteFrame\<close> wrote without error is what \<open>ReadFrame\<close> returns on the other side (if
  the reader's limit admits it), and the bytes after it are left for the next read.\<close>

theorem frame_roundtrip:
  assumes "WriteFrame payload answers = (sent, Some (Inr ()), unused)"
    and "concat pieces = sent @ later"
    and "maxBytes = 0 \<or> length payload \<le> unat maxBytes"
  shows "\<exists>pieces'. ReadFrame pieces maxBytes = (Inr payload, pieces') \<and> concat pieces' = later"
proof -
  note w = WriteFrame_ok [OF assms(1)]
  let ?n = "of_nat (length payload) :: 32 word"
  have n: "unat ?n = length payload"
    using w(2) by (simp add: unat_of_nat)
  then have "?n \<noteq> 0" using w(1) by (metis length_0_conv unat_0)
  then have "\<exists>r'. ReadFrame pieces maxBytes = (Inr (take (unat ?n) (payload @ later)), r')
      \<and> concat r' = drop (unat ?n) (payload @ later)"
    using assms(2,3) w(3) n by (intro ReadFrame_split) (auto simp: word_le_nat_alt)
  with n show ?thesis by simp
qed

lemma frame_roundtrip_witness:
  "\<exists>r'. ReadFrame [''xx'' @ [], []] 0 = (Inl (ReadHeader UnexpectedEOF), [])
     \<and> ReadFrame [take 3 (put_uint32 2), drop 3 (put_uint32 2) @ ''{'', ''}rest''] 4096 = (Inr ''{}'', r')
     \<and> concat r' = ''rest''"
proof -
  have w: "WriteFrame ''{}'' [Wrote 4, Wrote 1, Wrote 1] = (put_uint32 2 @ ''{}'', Some (Inr ()), [])"
    by (simp add: WriteFrame_def writeAll.simps)
  have e: "concat [take 3 (put_uint32 2), drop 3 (put_uint32 2) @ ''{'', ''}rest''] =
      (put_uint32 2 @ ''{}'') @ ''rest''"
    by (simp add: append_assoc [symmetric] del: append_assoc)
  from frame_roundtrip [OF w e, of 4096]
  show ?thesis by (simp add: ReadFrame_def)
qed

text \<open>What \<open>ReadFrame\<close> accepts: the payload it returns is never empty, never longer than the
  reader's limit, is announced exactly by the four bytes before it, and nothing beyond it is
  consumed.\<close>

theorem read_frame_bounds:
  assumes "ReadFrame pieces maxBytes = (Inr payload, pieces')"
  shows "payload \<noteq> [] \<and> (maxBytes \<noteq> 0 \<longrightarrow> length payload \<le> unat maxBytes)
     \<and> concat pieces = put_uint32 (of_nat (length payload)) @ payload @ concat pieces'"
proof -
  note b = ReadFrame_bounds [OF assms]
  from b(3) obtain header where h: "length header = 4"
    "concat pieces = header @ payload @ concat pieces'" "be_uint32 header = of_nat (length payload)"
    by blast
  have "header = put_uint32 (of_nat (length payload))"
    using put_be_uint32 [OF h(1)] h(3) by simp
  with b h show ?thesis
    by (simp add: word_neq_0_conv)
qed

lemma read_frame_bounds_witness:
  "\<exists>r'. ReadFrame [put_uint32 2, ''{}rest''] 4096 = (Inr ''{}'', r') \<and> length ''{}'' \<le> unat (4096 :: 32 word)"
proof -
  have "read_full False 4 [put_uint32 2, ''{}rest''] = (Inr (put_uint32 2), [''{}rest''])"
    by simp
  then have r: "ReadFrame [put_uint32 2, ''{}rest''] 4096 = (Inr ''{}'', [''rest''])"
    by (simp add: ReadFrame_def be_put_uint32)
  from read_frame_bounds [OF r] r show ?thesis by auto
qed

text \<open>\<open>WriteFrame\<close> returns after at most one \<open>Write\<close> call per byte of the frame, whatever the
  calls answer; the bytes on the wire are then a prefix of the frame, all of it when no error is
  reported.\<close>

theorem write_frame_terminates:
  assumes "4 + length payload \<le> length answers"
  shows "\<exists>sent res unused t. WriteFrame payload answers = (sent, Some res, unused)
     \<and> put_uint32 (of_nat (length payload)) @ payload = sent @ t
     \<and> (res = Inr () \<longrightarrow> t = [] \<and> payload \<noteq> [] \<and> length payload < 2 ^ 32)"
proof -
  let ?h = "put_uint32 (of_nat (length payload))"
  obtain s1 r1 a1 where h: "writeAll ?h answers = (s1, Some r1, a1)" "length answers \<le> length a1 + 4"
    using writeAll_terminates [of ?h answers] assms by auto
  obtain s2 r2 a2 where p: "writeAll payload a1 = (s2, Some r2, a2)"
    using writeAll_terminates [of payload a1] h(2) assms by auto
  obtain t1 t2 where t: "?h = s1 @ t1" "payload = s2 @ t2"
    using writeAll_prefix [of ?h answers] writeAll_prefix [of payload a1] h(1) p by auto
  have o1: "r1 = Inr () \<Longrightarrow> s1 = ?h" and o2: "r2 = Inr () \<Longrightarrow> s2 = payload"
    using writeAll_ok h(1) p by auto
  show ?thesis
  proof (cases "payload = [] \<or> 2 ^ 32 - 1 < length payload")
    case True
    then show ?thesis by (simp add: WriteFrame_def)
  next
    case False
    then have w: "WriteFrame payload answers = (case r1 of
        Inl e \<Rightarrow> (s1, Some (Inl (WriteHeader e)), a1)
      | Inr _ \<Rightarrow> (case r2 of
            Inl e \<Rightarrow> (s1 @ s2, Some (Inl (WriteBody e)), a2)
          | Inr _ \<Rightarrow> (s1 @ s2, Some (Inr ()), a2)))"
      using h(1) p by (simp add: WriteFrame_def split: sum.split)
    consider (header) e where "r1 = Inl e" | (body) e where "r1 = Inr ()" "r2 = Inl e"
      | (all) "r1 = Inr ()" "r2 = Inr ()" by (cases r1; cases r2) auto
    then show ?thesis
    proof cases
      case header
      moreover have "?h @ payload = s1 @ t1 @ payload" using t(1) by simp
      ultimately show ?thesis unfolding w by (simp only: sum.case) blast
    next
      case body
      moreover have "?h @ payload = (s1 @ s2) @ t2" using o1 [OF body(1)] t(2) by (metis append_assoc)
      ultimately show ?thesis unfolding w by (simp only: sum.case) blast
    next
      case all
      moreover have "?h @ payload = (s1 @ s2) @ []" using o1 [OF all(1)] o2 [OF all(2)] by simp
      moreover have "payload \<noteq> []" "length payload < 2 ^ 32" using False by auto
      ultimately show ?thesis unfolding w by (simp only: sum.case) blast
    qed
  qed
qed

lemma write_frame_terminates_witness:
  "\<exists>sent res unused. WriteFrame ''{}'' (replicate 6 (Wrote 1)) = (sent, Some res, unused)"
proof -
  have "4 + length ''{}'' \<le> length (replicate 6 (Wrote 1))" by simp
  from write_frame_terminates [OF this] show ?thesis by blast
qed

end
