(* ===== verification/Json.thy ===== *)
theory Json
  imports GoStrings
begin

text \<open>
  The part of Go's \<open>encoding/json\<close> that the program uses: reading one value from a text, printing
  a value as \<open>json.Marshal\<close> does, and decoding objects into structs field by field.  Number
  tokens are kept as text, as the decoder does until it knows the field's type.  Objects keep
  their members in order with duplicates, because a later member overwrites an earlier one.
\<close>

datatype json =
    JNull
  | JBool bool
  | JNum string
  | JStr string
  | JArr "json list"
  | JObj "(string \<times> json) list"

abbreviation quote :: char where "quote \<equiv> CHR 0x22"
abbreviation backslash :: char where "backslash \<equiv> CHR 0x5C"

section \<open>Reading\<close>

definition json_space :: "char \<Rightarrow> bool" where
  "json_space c \<longleftrightarrow> byte c \<in> {32, 9, 13, 10}"

definition skip_ws :: "string \<Rightarrow> string" where
  "skip_ws s = dropWhile json_space s"

subsection \<open>Strings\<close>

definition hex_value :: "char \<Rightarrow> nat option" where
  "hex_value c =
     (if ascii_digit c then Some (byte c - 48)
      else if 97 \<le> byte c \<and> byte c \<le> 102 then Some (byte c - 87)
      else if 65 \<le> byte c \<and> byte c \<le> 70 then Some (byte c - 55)
      else None)"

definition hex4 :: "string \<Rightarrow> (rune \<times> string) option" where
  "hex4 s = (case s of
      a # b # c # d # rest \<Rightarrow>
        (case (hex_value a, hex_value b, hex_value c, hex_value d) of
           (Some w, Some x, Some y, Some z) \<Rightarrow> Some (w * 4096 + x * 256 + y * 16 + z, rest)
         | _ \<Rightarrow> None)
    | _ \<Rightarrow> None)"

text \<open>\<open>utf8.EncodeRune\<close>; surrogates and values beyond U+10FFFF become U+FFFD.\<close>

definition encode_rune :: "rune \<Rightarrow> string" where
  "encode_rune r =
     (if r < 128 then [char_of r]
      else if r < 2048 then [char_of (192 + r div 64), char_of (128 + r mod 64)]
      else if 55296 \<le> r \<and> r \<le> 57343 \<or> 1114111 < r then map char_of [239, 191, 189 :: nat]
      else if r < 65536
      then [char_of (224 + r div 4096), char_of (128 + r div 64 mod 64), char_of (128 + r mod 64)]
      else [char_of (240 + r div 262144), char_of (128 + r div 4096 mod 64),
            char_of (128 + r div 64 mod 64), char_of (128 + r mod 64)])"

text \<open>The rune of a \<open>\u\<close> escape whose four digits gave \<open>r\<close>: a high surrogate takes the low
  surrogate escape that follows it; a lone surrogate becomes U+FFFD.\<close>

definition unicode_escape :: "rune \<Rightarrow> string \<Rightarrow> string \<times> string" where
  "unicode_escape r s =
     (if 55296 \<le> r \<and> r \<le> 57343 then
        (case s of
           e # u # t \<Rightarrow>
             (case (if e = backslash \<and> u = CHR ''u'' then hex4 t else None) of
                Some (r2, rest) \<Rightarrow>
                  if r \<le> 56319 \<and> 56320 \<le> r2 \<and> r2 \<le> 57343
                  then (encode_rune (65536 + (r - 55296) * 1024 + (r2 - 56320)), rest)
                  else (encode_rune 65533, s)
              | None \<Rightarrow> (encode_rune 65533, s))
         | _ \<Rightarrow> (encode_rune 65533, s))
      else (encode_rune r, s))"

definition simple_escape :: "char \<Rightarrow> char option" where
  "simple_escape c =
     (if c = quote \<or> c = backslash \<or> c = CHR ''/'' then Some c
      else if c = CHR ''b'' then Some (char_of (8::nat))
      else if c = CHR ''f'' then Some (char_of (12::nat))
      else if c = CHR ''n'' then Some (char_of (10::nat))
      else if c = CHR ''r'' then Some (char_of (13::nat))
      else if c = CHR ''t'' then Some (char_of (9::nat))
      else None)"

lemma hex4_length: "hex4 s = Some (r, t) \<Longrightarrow> length t < length s"
  by (auto simp: hex4_def split: list.splits option.splits)

lemma unicode_escape_length: "length (snd (unicode_escape r s)) \<le> length s"
  by (auto simp: unicode_escape_def split: list.splits option.splits if_splits dest: hex4_length)

text \<open>The text of a string after its opening quote: the string and what follows the closing
  quote.  Ill-formed UTF-8 is replaced by U+FFFD, byte by byte.\<close>

definition prepend :: "'a list \<Rightarrow> ('a list \<times> 'b) option \<Rightarrow> ('a list \<times> 'b) option" where
  "prepend u r = map_option (\<lambda>(v, rest). (u @ v, rest)) r"

function parse_string :: "string \<Rightarrow> (string \<times> string) option" where
  "parse_string [] = None"
| "parse_string (c # s) =
     (if c = quote then Some ([], s)
      else if c = backslash then
        (case s of
           [] \<Rightarrow> None
         | e # t \<Rightarrow>
             (case simple_escape e of
                Some x \<Rightarrow> prepend [x] (parse_string t)
              | None \<Rightarrow>
                  if e = CHR ''u'' then
                    (case hex4 t of
                       None \<Rightarrow> None
                     | Some (r, rest) \<Rightarrow>
                         prepend (fst (unicode_escape r rest)) (parse_string (snd (unicode_escape r rest))))
                  else None))
      else if byte c < 32 then None
      else if decode_rune (byte c) (map byte s) = rune_error
      then prepend (encode_rune 65533) (parse_string s)
      else prepend (c # take (snd (decode_rune (byte c) (map byte s)) - 1) s)
             (parse_string (drop (snd (decode_rune (byte c) (map byte s)) - 1) s)))"
  by pat_completeness auto
termination
proof (relation "measure length"; (auto; fail)?)
  fix c s e t r p rest
  assume "s = e # t" "hex4 t = Some p" "(r, rest) = p"
  then show "(snd (unicode_escape r rest), c # s) \<in> measure length"
    using hex4_length [of t r rest] unicode_escape_length [of r rest] by auto
qed

declare parse_string.simps(2) [simp del]

lemma prepend_Some: "prepend u r = Some (v, t) \<longleftrightarrow> (\<exists>w. r = Some (w, t) \<and> v = u @ w)"
  by (auto simp: prepend_def)

lemma parse_string_length: "parse_string s = Some (v, t) \<Longrightarrow> length t < length s"
proof (induction s arbitrary: v rule: parse_string.induct)
  case 1
  then show ?case by simp
next
  case (2 c s)
  show ?case
  proof (cases "c = quote \<or> c = backslash")
    case False
    with 2 show ?thesis
      by (subst (asm) parse_string.simps(2))
        (auto simp: prepend_Some split: if_split_asm dest: less_le_trans)
  next
    case True
    then consider "c = quote" | "c = backslash" by blast
    then show ?thesis
    proof cases
      case 1
      with "2.prems" show ?thesis by (subst (asm) parse_string.simps(2)) simp
    next
      case esc: 2
      then have n: "c \<noteq> quote" by simp
      from "2.prems" obtain e u where s: "s = e # u"
        by (subst (asm) parse_string.simps(2)) (auto simp: esc split: list.split_asm)
      show ?thesis
      proof (cases "simple_escape e")
        case (Some x)
        with "2.prems" n esc s obtain w where "parse_string u = Some (w, t)"
          by (subst (asm) parse_string.simps(2)) (auto simp: prepend_Some)
        from "2.IH"(2) [OF n esc s Some this] s show ?thesis by simp
      next
        case None
        with "2.prems" n esc s obtain r rest w where
          h: "e = CHR ''u''" "hex4 u = Some (r, rest)"
            "parse_string (snd (unicode_escape r rest)) = Some (w, t)"
          by (subst (asm) parse_string.simps(2))
            (auto simp: prepend_Some split: if_split_asm option.split_asm)
        from "2.IH"(1) [OF n esc s None h(1,2) refl h(3)]
          hex4_length [OF h(2)] unicode_escape_length [of r rest] s
        show ?thesis by simp
      qed
    qed
  qed
qed

subsection \<open>Numbers\<close>

definition span_digits :: "string \<Rightarrow> string \<times> string" where
  "span_digits s = (takeWhile ascii_digit s, dropWhile ascii_digit s)"

definition number_sign :: "string \<Rightarrow> string \<times> string" where
  "number_sign s = (case s of c # t \<Rightarrow> if c = CHR ''-'' then ([c], t) else ([], s) | [] \<Rightarrow> ([], s))"

definition number_int :: "string \<Rightarrow> (string \<times> string) option" where
  "number_int s = (case s of
      [] \<Rightarrow> None
    | c # t \<Rightarrow> if c = CHR ''0'' then Some ([c], t)
               else if ascii_digit c then Some (span_digits s) else None)"

definition number_frac :: "string \<Rightarrow> (string \<times> string) option" where
  "number_frac s = (case s of
      c # t \<Rightarrow> if c = CHR ''.''
                then (case span_digits t of (ds, rest) \<Rightarrow> if ds = [] then None else Some (c # ds, rest))
                else Some ([], s)
    | [] \<Rightarrow> Some ([], s))"

definition number_exp :: "string \<Rightarrow> (string \<times> string) option" where
  "number_exp s = (case s of
      c # t \<Rightarrow>
        if c = CHR ''e'' \<or> c = CHR ''E''
        then
          let sgn = (case t of d # _ \<Rightarrow> if d = CHR ''+'' \<or> d = CHR ''-'' then [d] else [] | [] \<Rightarrow> []);
              u = drop (length sgn) t
          in (case span_digits u of (ds, rest) \<Rightarrow>
                if ds = [] then None else Some (c # sgn @ ds, rest))
        else Some ([], s)
    | [] \<Rightarrow> Some ([], s))"

definition parse_number :: "string \<Rightarrow> (string \<times> string) option" where
  "parse_number s =
     (case number_sign s of (sg, s1) \<Rightarrow>
        (case number_int s1 of None \<Rightarrow> None
         | Some (i, s2) \<Rightarrow> (case number_frac s2 of None \<Rightarrow> None
            | Some (f, s3) \<Rightarrow> (case number_exp s3 of None \<Rightarrow> None
               | Some (e, s4) \<Rightarrow> Some (sg @ i @ f @ e, s4)))))"

subsection \<open>Values\<close>

text \<open>
  The recursive-descent reader.  The second argument is the number of containers that may still
  be opened (Go's decoder allows a nesting of 10000); the first is fuel, one unit per call.
  A container and its first element start at most one character apart, so twice the length of
  the text plus one is always enough (\<open>parse_value_fuel\<close> below).
\<close>

fun parse_value :: "nat \<Rightarrow> nat \<Rightarrow> string \<Rightarrow> (json \<times> string) option"
  and parse_elements :: "nat \<Rightarrow> nat \<Rightarrow> string \<Rightarrow> (json list \<times> string) option"
  and parse_members :: "nat \<Rightarrow> nat \<Rightarrow> string \<Rightarrow> ((string \<times> json) list \<times> string) option" where
  "parse_value 0 d s = None"
| "parse_value (Suc f) d s =
     (case s of
        [] \<Rightarrow> None
      | c # t \<Rightarrow>
          if c = quote then map_option (\<lambda>(v, rest). (JStr v, rest)) (parse_string t)
          else if c = CHR ''{'' then
            (if d = 0 then None
             else (case skip_ws t of
                 [] \<Rightarrow> None
               | x # rest \<Rightarrow>
                   if x = CHR ''}'' then Some (JObj [], rest)
                   else map_option (\<lambda>(ms, rest). (JObj ms, rest)) (parse_members f (d - 1) (x # rest))))
          else if c = CHR ''['' then
            (if d = 0 then None
             else (case skip_ws t of
                 [] \<Rightarrow> None
               | x # rest \<Rightarrow>
                   if x = CHR '']'' then Some (JArr [], rest)
                   else map_option (\<lambda>(vs, rest). (JArr vs, rest)) (parse_elements f (d - 1) (x # rest))))
          else if has_prefix ''true'' s then Some (JBool True, drop 4 s)
          else if has_prefix ''false'' s then Some (JBool False, drop 5 s)
          else if has_prefix ''null'' s then Some (JNull, drop 4 s)
          else map_option (\<lambda>(n, rest). (JNum n, rest)) (parse_number s))"
| "parse_elements 0 d s = None"
| "parse_elements (Suc f) d s =
     (case parse_value f d s of
        None \<Rightarrow> None
      | Some (v, r) \<Rightarrow>
          (case skip_ws r of
             [] \<Rightarrow> None
           | c # t \<Rightarrow>
               if c = CHR '']'' then Some ([v], t)
               else if c = CHR '','' then prepend [v] (parse_elements f d (skip_ws t))
               else None))"
| "parse_members 0 d s = None"
| "parse_members (Suc f) d s =
     (case s of
        [] \<Rightarrow> None
      | q # s0 \<Rightarrow>
          if q \<noteq> quote then None
          else (case parse_string s0 of
              None \<Rightarrow> None
            | Some (k, s1) \<Rightarrow>
                (case skip_ws s1 of
                   [] \<Rightarrow> None
                 | colon # s2 \<Rightarrow>
                     if colon \<noteq> CHR '':'' then None
                     else (case parse_value f d (skip_ws s2) of
                         None \<Rightarrow> None
                       | Some (v, r) \<Rightarrow>
                           (case skip_ws r of
                              [] \<Rightarrow> None
                            | c # t \<Rightarrow>
                                if c = CHR ''}'' then Some ([(k, v)], t)
                                else if c = CHR '','' then prepend [(k, v)] (parse_members f d (skip_ws t))
                                else None)))))"

definition max_nesting :: nat where
  "max_nesting = 10000"

definition read_value :: "string \<Rightarrow> (json \<times> string) option" where
  "read_value s = parse_value (Suc (2 * length (skip_ws s))) max_nesting (skip_ws s)"

text \<open>\<open>Decode(dst)\<close> followed by a second \<open>Decode\<close> that must meet the end of the input: the text
  is exactly one value, surrounded by white space.\<close>

definition json_decode :: "string \<Rightarrow> json option" where
  "json_decode s =
     (case read_value s of None \<Rightarrow> None
      | Some (v, rest) \<Rightarrow> if skip_ws rest = [] then Some v else None)"

section \<open>Printing\<close>

definition hex_digit :: "nat \<Rightarrow> char" where
  "hex_digit n = (''0123456789abcdef'') ! n"

definition u_escape :: "rune \<Rightarrow> string" where
  "u_escape r = [backslash, CHR ''u'', hex_digit (r div 4096 mod 16), hex_digit (r div 256 mod 16),
     hex_digit (r div 16 mod 16), hex_digit (r mod 16)]"

text \<open>One ASCII byte of a string, escaped as \<open>json.Marshal\<close> does (with its HTML escapes).\<close>

definition escape_ascii :: "char \<Rightarrow> string" where
  "escape_ascii c =
     (if c = quote \<or> c = backslash then [backslash, c]
      else if byte c = 8 then [backslash, CHR ''b'']
      else if byte c = 12 then [backslash, CHR ''f'']
      else if byte c = 10 then [backslash, CHR ''n'']
      else if byte c = 13 then [backslash, CHR ''r'']
      else if byte c = 9 then [backslash, CHR ''t'']
      else if byte c < 32 \<or> c = CHR ''<'' \<or> c = CHR ''>'' \<or> c = CHR ''&'' then u_escape (byte c)
      else [c])"

function escape_string :: "string \<Rightarrow> string" where
  "escape_string [] = []"
| "escape_string (c # s) =
     (if byte c < 128 then escape_ascii c @ escape_string s
      else
        let (r, w) = decode_rune (byte c) (map byte s) in
        if (r, w) = rune_error then u_escape 65533 @ escape_string s
        else if r = 8232 \<or> r = 8233 then u_escape r @ escape_string (drop (w - 1) s)
        else c # take (w - 1) s @ escape_string (drop (w - 1) s))"
  by pat_completeness auto
termination by (relation "measure length") auto

declare escape_string.simps(2) [simp del]

definition print_string :: "string \<Rightarrow> string" where
  "print_string s = quote # escape_string s @ [quote]"

fun json_print :: "json \<Rightarrow> string"
  and print_elements :: "json list \<Rightarrow> string"
  and print_members :: "(string \<times> json) list \<Rightarrow> string" where
  "json_print JNull = ''null''"
| "json_print (JBool b) = (if b then ''true'' else ''false'')"
| "json_print (JNum n) = n"
| "json_print (JStr s) = print_string s"
| "json_print (JArr vs) = CHR ''['' # print_elements vs @ '']''"
| "json_print (JObj ms) = CHR ''{'' # print_members ms @ ''}''"
| "print_elements [] = []"
| "print_elements (v # vs) = json_print v @ (if vs = [] then [] else CHR '','' # print_elements vs)"
| "print_members [] = []"
| "print_members ((k, v) # ms) =
     print_string k @ CHR '':'' # json_print v @ (if ms = [] then [] else CHR '','' # print_members ms)"

text \<open>Decimal integers, \<open>strconv.Itoa\<close> and \<open>strconv.FormatInt(_, 10)\<close>.\<close>

fun print_nat :: "nat \<Rightarrow> string" where
  "print_nat n = (if n < 10 then [char_of (48 + n)] else print_nat (n div 10) @ [char_of (48 + n mod 10)])"

declare print_nat.simps [simp del]

definition print_int :: "int \<Rightarrow> string" where
  "print_int i = (if i < 0 then CHR ''-'' # print_nat (nat (- i)) else print_nat (nat i))"

section \<open>Decoding into typed fields\<close>

definition digit_value :: "char \<Rightarrow> nat" where
  "digit_value c = byte c - 48"

definition digits_value :: "string \<Rightarrow> nat" where
  "digits_value s = foldl (\<lambda>acc c. 10 * acc + digit_value c) 0 s"

text \<open>\<open>strconv.ParseInt(tok, 10, 64)\<close> and \<open>strconv.ParseUint(tok, 10, _)\<close> on a number token.\<close>

definition parse_int64 :: "string \<Rightarrow> int option" where
  "parse_int64 tok =
     (let neg = has_prefix ''-'' tok;
          ds = (if neg then drop 1 tok else tok);
          v = (if neg then - int (digits_value ds) else int (digits_value ds))
      in if ds = [] \<or> \<not> list_all ascii_digit ds then None
         else if v < - (2 ^ 63) \<or> 2 ^ 63 \<le> v then None else Some v)"

definition parse_uint :: "nat \<Rightarrow> string \<Rightarrow> nat option" where
  "parse_uint bits tok =
     (if tok = [] \<or> \<not> list_all ascii_digit tok \<or> 2 ^ bits \<le> digits_value tok then None
      else Some (digits_value tok))"

text \<open>Storing a value into a field that currently holds \<open>old\<close>: \<open>null\<close> leaves a non-pointer
  field as it is and clears a pointer or slice; any other mismatch is an error.\<close>

definition dec_string :: "string \<Rightarrow> json \<Rightarrow> string option" where
  "dec_string old v = (case v of JStr s \<Rightarrow> Some s | JNull \<Rightarrow> Some old | _ \<Rightarrow> None)"

definition dec_int :: "int \<Rightarrow> json \<Rightarrow> int option" where
  "dec_int old v = (case v of JNum n \<Rightarrow> parse_int64 n | JNull \<Rightarrow> Some old | _ \<Rightarrow> None)"

definition dec_uint32 :: "nat \<Rightarrow> json \<Rightarrow> nat option" where
  "dec_uint32 old v = (case v of JNum n \<Rightarrow> parse_uint 32 n | JNull \<Rightarrow> Some old | _ \<Rightarrow> None)"

definition dec_bool :: "bool \<Rightarrow> json \<Rightarrow> bool option" where
  "dec_bool old v = (case v of JBool b \<Rightarrow> Some b | JNull \<Rightarrow> Some old | _ \<Rightarrow> None)"

definition dec_pointer ::
  "('a \<Rightarrow> json \<Rightarrow> 'a option) \<Rightarrow> 'a \<Rightarrow> 'a option \<Rightarrow> json \<Rightarrow> 'a option option" where
  "dec_pointer dec zero old v =
     (if v = JNull then Some None
      else map_option Some (dec (case old of None \<Rightarrow> zero | Some x \<Rightarrow> x) v))"

fun dec_elements :: "('a \<Rightarrow> json \<Rightarrow> 'a option) \<Rightarrow> 'a \<Rightarrow> 'a list \<Rightarrow> json list \<Rightarrow> 'a list option" where
  "dec_elements dec zero old [] = Some []"
| "dec_elements dec zero old (v # vs) =
     (case dec (case old of [] \<Rightarrow> zero | x # _ \<Rightarrow> x) v of
        None \<Rightarrow> None
      | Some y \<Rightarrow> map_option ((#) y) (dec_elements dec zero (drop 1 old) vs))"

definition dec_slice ::
  "('a \<Rightarrow> json \<Rightarrow> 'a option) \<Rightarrow> 'a \<Rightarrow> 'a list option \<Rightarrow> json \<Rightarrow> 'a list option option" where
  "dec_slice dec zero old v = (case v of
      JNull \<Rightarrow> Some None
    | JArr vs \<Rightarrow> map_option Some (dec_elements dec zero (case old of None \<Rightarrow> [] | Some xs \<Rightarrow> xs) vs)
    | _ \<Rightarrow> None)"

text \<open>Keys are matched exactly or under simple case folding; besides the ASCII letters only U+017F
  and U+212A fold to a letter of a field name.\<close>

fun fold_key :: "string \<Rightarrow> string" where
  "fold_key [] = []"
| "fold_key (c # s) =
     (if 97 \<le> byte c \<and> byte c \<le> 122 then char_of (byte c - 32) # fold_key s
      else if has_prefix [197, 191] (map byte (c # s)) then CHR ''S'' # fold_key (drop 1 s)
      else if has_prefix [226, 132, 170] (map byte (c # s)) then CHR ''K'' # fold_key (drop 2 s)
      else c # fold_key s)"

definition key_is :: "string \<Rightarrow> string \<Rightarrow> bool" where
  "key_is name k \<longleftrightarrow> fold_key k = fold_key name"

text \<open>Between names of lower-case letters, digits and underscores the match is equality.\<close>

definition plain_key :: "char \<Rightarrow> bool" where
  "plain_key c \<longleftrightarrow> (97 \<le> byte c \<and> byte c \<le> 122) \<or> (48 \<le> byte c \<and> byte c \<le> 57) \<or> byte c = 95"

lemma fold_key_plain:
  "list_all plain_key s \<Longrightarrow>
     fold_key s = map (\<lambda>c. if 97 \<le> byte c \<and> byte c \<le> 122 then char_of (byte c - 32) else c) s"
  by (induction s) (auto simp: plain_key_def has_prefix_def)

lemma key_is_plain:
  assumes "list_all plain_key a" "list_all plain_key b"
  shows "key_is a b \<longleftrightarrow> a = b"
proof -
  let ?f = "\<lambda>c. if 97 \<le> byte c \<and> byte c \<le> 122 then char_of (byte c - 32) else c :: char"
  have f: "byte (?f c) = (if 97 \<le> byte c \<and> byte c \<le> 122 then byte c - 32 else byte c)" for c
    using byte_less [of c] by (auto simp: of_char_of simp del: byte_less)
  have inj: "inj_on ?f {c. plain_key c}"
  proof (rule inj_onI)
    fix c d
    assume p: "c \<in> {c. plain_key c}" "d \<in> {c. plain_key c}" and "?f c = ?f d"
    then have "byte (?f c) = byte (?f d)" by simp
    moreover have "m = n"
      if "(if 97 \<le> m \<and> m \<le> 122 then m - 32 else m) = (if 97 \<le> n \<and> n \<le> 122 then n - 32 else n)"
        "(97 \<le> m \<and> m \<le> 122) \<or> (48 \<le> m \<and> m \<le> 57) \<or> m = 95"
        "(97 \<le> n \<and> n \<le> 122) \<or> (48 \<le> n \<and> n \<le> 57) \<or> n = 95" for m n :: nat
      using that by (auto split: if_split_asm)
    ultimately have "byte c = byte d"
      unfolding f using p unfolding plain_key_def mem_Collect_eq by blast
    then show "c = d" by (metis char_of_char)
  qed
  have "set a \<union> set b \<subseteq> {c. plain_key c}"
    using assms by (auto simp: list_all_iff)
  with inj have "inj_on ?f (set a \<union> set b)"
    by (rule inj_on_subset)
  then have m: "map ?f a = map ?f b \<longleftrightarrow> a = b"
    by (rule inj_on_map_eq_map)
  have "key_is a b \<longleftrightarrow> map ?f b = map ?f a"
    unfolding key_is_def fold_key_plain [OF assms(1)] fold_key_plain [OF assms(2)] ..
  also have "\<dots> \<longleftrightarrow> map ?f a = map ?f b"
    by (rule eq_commute)
  finally show ?thesis
    unfolding m .
qed

text \<open>
  An object decoded into a struct: \<open>step\<close> stores one member, \<open>None\<close> is an error (a mismatch, or
  an unknown field where those are disallowed).  \<open>null\<close> leaves the struct as it is.
\<close>

fun decode_members :: "('r \<Rightarrow> string \<Rightarrow> json \<Rightarrow> 'r option) \<Rightarrow> 'r \<Rightarrow> (string \<times> json) list \<Rightarrow> 'r option" where
  "decode_members step r [] = Some r"
| "decode_members step r ((k, v) # ms) =
     (case step r k v of None \<Rightarrow> None | Some r' \<Rightarrow> decode_members step r' ms)"

definition decode_struct :: "('r \<Rightarrow> string \<Rightarrow> json \<Rightarrow> 'r option) \<Rightarrow> 'r \<Rightarrow> json \<Rightarrow> 'r option" where
  "decode_struct step old v = (case v of
      JNull \<Rightarrow> Some old
    | JObj ms \<Rightarrow> decode_members step old ms
    | _ \<Rightarrow> None)"

section \<open>The reader never needs more fuel than it is given\<close>

lemma length_skip_ws: "length (skip_ws s) \<le> length s"
  by (simp add: skip_ws_def length_dropWhile_le)

lemma skip_ws_cons_less: "skip_ws s = c # t \<Longrightarrow> length t < length s"
  using length_skip_ws [of s] by simp

lemma span_digits_length: "span_digits s = (ds, rest) \<Longrightarrow> s = ds @ rest"
  by (auto simp: span_digits_def)

lemma parse_number_split:
  "parse_number s = Some (n, r) \<Longrightarrow> s = n @ r \<and> n \<noteq> []"
proof -
  assume "parse_number s = Some (n, r)"
  then obtain sg s1 i s2 fr s3 e where
    "number_sign s = (sg, s1)" "number_int s1 = Some (i, s2)" "number_frac s2 = Some (fr, s3)"
    "number_exp s3 = Some (e, r)" "n = sg @ i @ fr @ e"
    by (auto simp: parse_number_def split: prod.splits option.splits)
  moreover have "s = sg @ s1"
    using \<open>number_sign s = (sg, s1)\<close> by (auto simp: number_sign_def split: list.splits if_splits)
  moreover have "s1 = i @ s2 \<and> i \<noteq> []"
    using \<open>number_int s1 = Some (i, s2)\<close>
    by (auto simp: number_int_def span_digits_def split: list.splits if_splits)
  moreover have "s2 = fr @ s3"
    using \<open>number_frac s2 = Some (fr, s3)\<close>
    by (auto simp: number_frac_def span_digits_def split: list.splits if_splits)
  moreover have "s3 = e @ r"
  proof (cases s3)
    case Nil
    with \<open>number_exp s3 = Some (e, r)\<close> show ?thesis by (simp add: number_exp_def)
  next
    case (Cons c t)
    have "takeWhile ascii_digit t @ dropWhile ascii_digit t = t" by simp
    with Cons \<open>number_exp s3 = Some (e, r)\<close> show ?thesis
      by (auto simp: number_exp_def span_digits_def Let_def split: list.splits if_splits)
  qed
  ultimately show ?thesis by simp
qed

lemma parse_length:
  "(parse_value f d s = Some (v, r) \<longrightarrow> length r < length s)
   \<and> (parse_elements f d s = Some (vs, r) \<longrightarrow> length r < length s)
   \<and> (parse_members f d s = Some (ms, r) \<longrightarrow> length r < length s)"
proof (induction f arbitrary: d s v vs ms r)
  case 0
  show ?case by simp
next
  case (Suc f)
  have "parse_value (Suc f) d s = Some (v, r) \<longrightarrow> length r < length s"
  proof
    assume a: "parse_value (Suc f) d s = Some (v, r)"
    then obtain c t where s: "s = c # t" by (cases s) auto
    have lit: "length (drop n s) < length s" if "0 < n" for n
      using that s by simp
    have arr: "length r < length s"
      if "skip_ws t = x # rest" "parse_elements f (d - 1) (x # rest) = Some (vs', r)" for x rest vs'
      using that Suc.IH [of "d - 1" "x # rest"] length_skip_ws [of t] s by fastforce
    have obj: "length r < length s"
      if "skip_ws t = x # rest" "parse_members f (d - 1) (x # rest) = Some (ms', r)" for x rest ms'
      using that Suc.IH [of "d - 1" "x # rest"] length_skip_ws [of t] s by fastforce
    have num: "length r < length s" if "parse_number s = Some (n, r)" for n
      using parse_number_split [OF that] by auto
    from a show "length r < length s"
      using lit arr obj num parse_string_length skip_ws_cons_less [of t] s
      by (auto split: if_split_asm list.split_asm intro: less_SucI)
  qed
  moreover have "parse_elements (Suc f) d s = Some (vs, r) \<longrightarrow> length r < length s"
  proof
    assume "parse_elements (Suc f) d s = Some (vs, r)"
    then obtain v' r' c t where e: "parse_value f d s = Some (v', r')" "skip_ws r' = c # t"
      "(c = CHR '']'' \<and> r = t) \<or> (\<exists>vs'. parse_elements f d (skip_ws t) = Some (vs', r))"
      by (auto simp: prepend_Some split: option.split_asm list.split_asm if_split_asm)
    have "length r' < length s" using Suc.IH e(1) by blast
    moreover have "length t < length r'" using e(2) by (rule skip_ws_cons_less)
    moreover have "length r \<le> length t"
      using e(3) Suc.IH [of d "skip_ws t"] length_skip_ws [of t] by fastforce
    ultimately show "length r < length s" by simp
  qed
  moreover have "parse_members (Suc f) d s = Some (ms, r) \<longrightarrow> length r < length s"
  proof
    assume "parse_members (Suc f) d s = Some (ms, r)"
    then obtain s0 k s1 s2 v' r' c t where e: "s = quote # s0" "parse_string s0 = Some (k, s1)"
      "skip_ws s1 = CHR '':'' # s2"
      "parse_value f d (skip_ws s2) = Some (v', r')" "skip_ws r' = c # t"
      "(c = CHR ''}'' \<and> r = t) \<or> (\<exists>ms'. parse_members f d (skip_ws t) = Some (ms', r))"
      by (auto simp: prepend_Some split: option.split_asm list.split_asm if_split_asm)
    have "length s1 < length s" using parse_string_length [OF e(2)] e(1) by simp
    moreover have "length s2 < length s1" using e(3) by (rule skip_ws_cons_less)
    moreover have "length r' < length (skip_ws s2)" using Suc.IH e(4) by blast
    moreover have "length t < length r'" using e(5) by (rule skip_ws_cons_less)
    moreover have "length r \<le> length t"
      using e(6) Suc.IH [of d "skip_ws t"] length_skip_ws [of t] by fastforce
    ultimately show "length r < length s" using length_skip_ws [of s2] by simp
  qed
  ultimately show ?case by blast
qed

lemma parse_value_length: "parse_value f d s = Some (v, r) \<Longrightarrow> length r < length s"
  using parse_length by blast

lemma parse_fuel:
  "(2 * length s < f \<longrightarrow> 2 * length s < g \<longrightarrow> parse_value f d s = parse_value g d s)
   \<and> (Suc (2 * length s) < f \<longrightarrow> Suc (2 * length s) < g \<longrightarrow> parse_elements f d s = parse_elements g d s)
   \<and> (Suc (2 * length s) < f \<longrightarrow> Suc (2 * length s) < g \<longrightarrow> parse_members f d s = parse_members g d s)"
proof (induction f arbitrary: d s g)
  case 0
  show ?case by simp
next
  case (Suc f)
  have "parse_value (Suc f) d s = parse_value g d s" if l: "2 * length s < Suc f" "2 * length s < g"
  proof -
    from l obtain h where g: "g = Suc h" by (cases g) auto
    show ?thesis
    proof (cases s)
      case (Cons c t)
      have "parse_elements f (d - 1) (x # rest) = parse_elements h (d - 1) (x # rest)"
        "parse_members f (d - 1) (x # rest) = parse_members h (d - 1) (x # rest)"
        if "skip_ws t = x # rest" for x rest
        using Suc.IH [of "x # rest" h "d - 1"] skip_ws_cons_less [OF that] l g Cons by auto
      then show ?thesis
        by (auto simp: g Cons split: list.split)
    qed (simp add: g)
  qed
  moreover have "parse_elements (Suc f) d s = parse_elements g d s"
    if l: "Suc (2 * length s) < Suc f" "Suc (2 * length s) < g"
  proof -
    from l obtain h where g: "g = Suc h" by (cases g) auto
    have v: "parse_value f d s = parse_value h d s"
      using Suc.IH [of s h d] l g by auto
    have "parse_elements f d (skip_ws t) = parse_elements h d (skip_ws t)"
      if "parse_value h d s = Some (v', r)" "skip_ws r = c # t" for v' r c t
      using Suc.IH [of "skip_ws t" h d] parse_value_length [OF that(1)] skip_ws_cons_less [OF that(2)]
        length_skip_ws [of t] l g by auto
    then show ?thesis
      by (auto simp: g v split: option.split list.split)
  qed
  moreover have "parse_members (Suc f) d s = parse_members g d s"
    if l: "Suc (2 * length s) < Suc f" "Suc (2 * length s) < g"
  proof -
    from l obtain h where g: "g = Suc h" by (cases g) auto
    have v: "parse_value f d (skip_ws s2) = parse_value h d (skip_ws s2)"
      and m: "parse_value h d (skip_ws s2) = Some (v', r) \<Longrightarrow> skip_ws r = c # t \<Longrightarrow>
        parse_members f d (skip_ws t) = parse_members h d (skip_ws t)"
      if "s = q # s0" "parse_string s0 = Some (k, s1)" "skip_ws s1 = x # s2"
      for q s0 k s1 x s2 v' r c t
    proof -
      have l2: "length (skip_ws s2) < length s"
        using that parse_string_length [OF that(2)] skip_ws_cons_less [OF that(3)] length_skip_ws [of s2]
        by simp
      then show "parse_value f d (skip_ws s2) = parse_value h d (skip_ws s2)"
        using Suc.IH [of "skip_ws s2" h d] l g by auto
      assume "parse_value h d (skip_ws s2) = Some (v', r)" "skip_ws r = c # t"
      then show "parse_members f d (skip_ws t) = parse_members h d (skip_ws t)"
        using Suc.IH [of "skip_ws t" h d] parse_value_length [of h d "skip_ws s2" v' r]
          skip_ws_cons_less [of r c t] length_skip_ws [of t] l g l2 by auto
    qed
    then show ?thesis
      by (auto simp: g split: option.split list.split)
  qed
  ultimately show ?case by blast
qed

lemma parse_value_fuel:
  "2 * length s < f \<Longrightarrow> parse_value f d s = parse_value (Suc (2 * length s)) d s"
  using parse_fuel [of s f "Suc (2 * length s)" d] by simp

end
