(* ===== verification/JsonRoundtrip.thy ===== *)
theory JsonRoundtrip
  imports Json
begin

text \<open>
  Reading back what was printed: \<open>json_decode (json_print j) = Some j\<close> for every value whose
  numbers are integers, whose strings are valid UTF-8 and whose nesting the reader allows.
  The cursor, request and response texts of the program are of this kind.
\<close>

section \<open>Integers\<close>

lemma digit_char [simp]: "n < 10 \<Longrightarrow> ascii_digit (char_of (48 + n :: nat))"
  by (simp add: ascii_digit_def of_char_of)

lemma print_nat_digits: "list_all ascii_digit (print_nat n)"
proof (induction n rule: print_nat.induct)
  case (1 n)
  then show ?case by (subst print_nat.simps) auto
qed

lemma print_nat_nonempty: "print_nat n \<noteq> []"
  by (subst print_nat.simps) auto

lemma digits_value_snoc: "digits_value (s @ [c]) = 10 * digits_value s + digit_value c"
  by (simp add: digits_value_def)

lemma digits_value_print_nat: "digits_value (print_nat n) = n"
proof (induction n rule: print_nat.induct)
  case (1 n)
  show ?case
  proof (cases "n < 10")
    case True
    then show ?thesis
      by (subst print_nat.simps) (simp add: digits_value_def digit_value_def of_char_of)
  next
    case False
    then have "print_nat n = print_nat (n div 10) @ [char_of (48 + n mod 10)]"
      by (subst print_nat.simps) simp
    with 1 False show ?thesis
      by (simp add: digits_value_snoc digit_value_def of_char_of)
  qed
qed

lemma print_nat_hd_zero: "hd (print_nat n) = CHR ''0'' \<Longrightarrow> print_nat n = ''0''"
proof (induction n rule: print_nat.induct)
  case (1 n)
  show ?case
  proof (cases "n < 10")
    case True
    then have e: "print_nat n = [char_of (48 + n)]" by (subst print_nat.simps) simp
    with "1.prems" show ?thesis by simp
  next
    case False
    then have e: "print_nat n = print_nat (n div 10) @ [char_of (48 + n mod 10)]"
      by (subst print_nat.simps) simp
    with "1.prems" print_nat_nonempty [of "n div 10"] have "hd (print_nat (n div 10)) = CHR ''0''"
      by simp
    with "1.IH" False have "print_nat (n div 10) = ''0''" by simp
    then have "n div 10 = 0"
      using digits_value_print_nat [of "n div 10"] by (simp add: digits_value_def digit_value_def)
    with False show ?thesis by simp
  qed
qed

lemma print_int_minus: "ascii_digit c \<Longrightarrow> c \<noteq> CHR ''-''"
  by (auto simp: ascii_digit_def)

lemma parse_int64_print_int:
  assumes "- (2 ^ 63) \<le> i" "i < 2 ^ 63"
  shows "parse_int64 (print_int i) = Some i"
proof (cases "i < 0")
  case True
  then show ?thesis
    using assms print_nat_nonempty [of "nat (- i)"] print_nat_digits [of "nat (- i)"]
    by (simp add: parse_int64_def print_int_def has_prefix_def digits_value_print_nat)
next
  case False
  obtain c t where c: "print_nat (nat i) = c # t" using print_nat_nonempty by (metis neq_Nil_conv)
  with print_nat_digits [of "nat i"] have "c \<noteq> CHR ''-''" by (auto simp: print_int_minus)
  with False c assms digits_value_print_nat [of "nat i"] print_nat_digits [of "nat i"] show ?thesis
    by (simp add: parse_int64_def print_int_def has_prefix_def)
qed

text \<open>A rest that cannot be read as part of a number.\<close>

definition ends_number :: "string \<Rightarrow> bool" where
  "ends_number s \<longleftrightarrow> (case s of [] \<Rightarrow> True
     | c # _ \<Rightarrow> \<not> ascii_digit c \<and> c \<notin> {CHR ''.'', CHR ''e'', CHR ''E''})"

lemma number_tail: "ends_number rest \<Longrightarrow>
    number_frac rest = Some ([], rest) \<and> number_exp rest = Some ([], rest)"
  by (auto simp: ends_number_def number_frac_def number_exp_def split: list.splits)

lemma takeWhile_digits:
  "list_all ascii_digit ds \<Longrightarrow> ends_number rest \<Longrightarrow> span_digits (ds @ rest) = (ds, rest)"
  by (induction ds) (auto simp: span_digits_def ends_number_def split: list.splits)

lemma number_int_print:
  assumes "ends_number rest"
  shows "number_int (print_nat n @ rest) = Some (print_nat n, rest)"
proof -
  obtain c t where c: "print_nat n = c # t" using print_nat_nonempty by (metis neq_Nil_conv)
  show ?thesis
  proof (cases "c = CHR ''0''")
    case True
    with c print_nat_hd_zero [of n] show ?thesis by (simp add: number_int_def)
  next
    case False
    then show ?thesis
      using takeWhile_digits [OF print_nat_digits [of n] assms] print_nat_digits [of n]
      by (simp add: number_int_def c)
  qed
qed

lemma parse_number_print_int:
  assumes "ends_number rest"
  shows "parse_number (print_int i @ rest) = Some (print_int i, rest)"
proof (cases "i < 0")
  case True
  then show ?thesis
    by (simp add: parse_number_def number_sign_def print_int_def
        number_int_print [OF assms] number_tail [OF assms])
next
  case False
  obtain c t where c: "print_nat (nat i) = c # t" using print_nat_nonempty by (metis neq_Nil_conv)
  with print_nat_digits [of "nat i"] have "c \<noteq> CHR ''-''" by (auto simp: print_int_minus)
  then have "number_sign (print_nat (nat i) @ rest) = ([], print_nat (nat i) @ rest)"
    by (simp add: number_sign_def c)
  with False show ?thesis
    by (simp add: parse_number_def print_int_def number_int_print [OF assms] number_tail [OF assms])
qed

section \<open>Strings\<close>

lemma hex_value_digit: "n < 16 \<Longrightarrow> hex_value (hex_digit n) = Some n"
proof -
  assume "n < 16"
  moreover have "\<forall>n < (16::nat). hex_value (hex_digit n) = Some n"
    by code_simp
  ultimately show ?thesis by blast
qed

lemma hex4_u_escape:
  assumes "r < 65536"
  shows "hex4 (drop 2 (u_escape r) @ rest) = Some (r, rest)"
proof -
  have e: "r div 4096 * 4096 + r div 256 mod 16 * 256 + r div 16 mod 16 * 16 + r mod 16 = r"
  proof -
    have "r = 16 * (r div 16) + r mod 16" by simp
    moreover have "r div 16 = 16 * (r div 256) + r div 16 mod 16"
      using div_mult2_eq [of r 16 16] by simp
    moreover have "r div 256 = 16 * (r div 4096) + r div 256 mod 16"
      using div_mult2_eq [of r 256 16] by simp
    ultimately show ?thesis by linarith
  qed
  have "r div 4096 < 16"
    using assms by (simp add: less_mult_imp_div_less)
  with e show ?thesis
    by (simp add: u_escape_def hex4_def hex_value_digit)
qed

lemma unicode_escape_plain:
  "\<not> (55296 \<le> r \<and> r \<le> 57343) \<Longrightarrow> unicode_escape r s = (encode_rune r, s)"
  by (simp only: unicode_escape_def if_False)

lemma parse_u_escape:
  assumes "r < 65536" "\<not> (55296 \<le> r \<and> r \<le> 57343)"
  shows "parse_string (u_escape r @ rest) = prepend (encode_rune r) (parse_string rest)"
proof -
  have h: "hex4 (hex_digit (r div 4096 mod 16) # hex_digit (r div 256 mod 16) #
      hex_digit (r div 16 mod 16) # hex_digit (r mod 16) # rest) = Some (r, rest)"
    using hex4_u_escape [OF assms(1), of rest] by (simp add: u_escape_def)
  have "simple_escape CHR ''u'' = None"
    by (simp add: simple_escape_def)
  with h show ?thesis
    by (simp add: u_escape_def parse_string.simps(2) unicode_escape_plain [OF assms(2)])
qed

lemma parse_escape_ascii:
  assumes "byte c < 128"
  shows "parse_string (escape_ascii c @ rest) = prepend [c] (parse_string rest)"
proof -
  have bc: "byte c = n \<Longrightarrow> c = char_of n" for n by auto
  have simple: "simple_escape quote = Some quote" "simple_escape backslash = Some backslash"
    "simple_escape CHR ''b'' = Some (char_of (8::nat))" "simple_escape CHR ''f'' = Some (char_of (12::nat))"
    "simple_escape CHR ''n'' = Some (char_of (10::nat))" "simple_escape CHR ''r'' = Some (char_of (13::nat))"
    "simple_escape CHR ''t'' = Some (char_of (9::nat))"
    by (simp_all add: simple_escape_def)
  have esc: "parse_string (backslash # e # rest) = prepend [x] (parse_string rest)"
    if "simple_escape e = Some x" for e x
    using that by (simp add: parse_string.simps(2))
  have u: "parse_string (u_escape (byte c) @ rest) = prepend [c] (parse_string rest)"
    using parse_u_escape [of "byte c" rest] assms by (simp add: encode_rune_def)
  show ?thesis
  proof (cases "c = quote \<or> c = backslash \<or> byte c \<in> {8, 12, 10, 13, 9} \<or> byte c < 32
      \<or> c \<in> {CHR ''<'', CHR ''>'', CHR ''&''}")
    case True
    then show ?thesis
      using u esc simple by (auto simp: escape_ascii_def dest: bc)
  next
    case False
    then have "escape_ascii c = [c]" by (auto simp: escape_ascii_def)
    with False assms show ?thesis
      by (simp add: parse_string.simps(2) rune_error_def)
  qed
qed

lemma decode_rune_cases:
  assumes "decode_rune b bs \<noteq> rune_error" "128 \<le> b"
  obtains b1 t where "bs = b1 # t" "194 \<le> b" "b \<le> 223" "cont_byte b1"
      "\<And>t. decode_rune b (b1 # t) = ((b - 192) * 64 + (b1 - 128), 2)"
  | b1 b2 t where "bs = b1 # b2 # t" "224 \<le> b" "b \<le> 239" "cont_byte b1" "cont_byte b2"
      "\<And>t. decode_rune b (b1 # b2 # t) = ((b - 224) * 4096 + (b1 - 128) * 64 + (b2 - 128), 3)"
  | b1 b2 b3 t where "bs = b1 # b2 # b3 # t" "240 \<le> b" "b \<le> 244" "cont_byte b1"
      "cont_byte b2" "cont_byte b3" "b = 240 \<Longrightarrow> 144 \<le> b1"
      "\<And>t. decode_rune b (b1 # b2 # b3 # t) =
         ((b - 240) * 262144 + (b1 - 128) * 4096 + (b2 - 128) * 64 + (b3 - 128), 4)"
proof -
  consider "194 \<le> b" "b \<le> 223" | "224 \<le> b" "b \<le> 239" | "240 \<le> b" "b \<le> 244"
    using assms by (auto simp: decode_rune_def split: if_split_asm)
  then show ?thesis
  proof cases
    case 1
    with assms have "decode2 b bs \<noteq> rune_error" by (simp add: decode_rune_def)
    then obtain b1 t where "bs = b1 # t" "cont_byte b1"
      by (auto simp: decode2_def split: list.split_asm if_split_asm)
    with 1 show ?thesis by (intro that(1)) (auto simp: decode_rune_def decode2_def)
  next
    case 2
    with assms have "decode3 b bs \<noteq> rune_error" by (simp add: decode_rune_def)
    then obtain b1 b2 t where e: "bs = b1 # b2 # t" "cont_byte b2"
      and c: "(if b = 224 then 160 else 128) \<le> b1 \<and> b1 \<le> (if b = 237 then 159 else 191)"
      by (auto simp: decode3_def split: list.split_asm if_split_asm)
    from c have c1: "cont_byte b1" by (auto simp: cont_byte_def split: if_split_asm)
    from 2 e c have "decode_rune b (b1 # b2 # t) =
        ((b - 224) * 4096 + (b1 - 128) * 64 + (b2 - 128), 3)" for t
      by (simp add: decode_rune_def decode3_def)
    with 2 e c1 show ?thesis by (intro that(2) [of b1 b2 t]) auto
  next
    case 3
    with assms have "decode4 b bs \<noteq> rune_error" by (simp add: decode_rune_def)
    then obtain b1 b2 b3 t where e: "bs = b1 # b2 # b3 # t" "cont_byte b2" "cont_byte b3"
      and c: "(if b = 240 then 144 else 128) \<le> b1 \<and> b1 \<le> (if b = 244 then 143 else 191)"
      by (auto simp: decode4_def split: list.split_asm if_split_asm)
    from c have c1: "cont_byte b1" "b = 240 \<Longrightarrow> 144 \<le> b1"
      by (auto simp: cont_byte_def split: if_split_asm)
    from 3 e c have "decode_rune b (b1 # b2 # b3 # t) =
        ((b - 240) * 262144 + (b1 - 128) * 4096 + (b2 - 128) * 64 + (b3 - 128), 4)" for t
      by (simp add: decode_rune_def decode4_def)
    with 3 e c1 show ?thesis by (intro that(3) [of b1 b2 b3 t]) auto
  qed
qed

lemma decode_rune_local:
  assumes "decode_rune b bs \<noteq> rune_error" "128 \<le> b"
  shows "decode_rune b (take (snd (decode_rune b bs) - 1) bs @ zs) = decode_rune b bs"
    and "length (take (snd (decode_rune b bs) - 1) bs) = snd (decode_rune b bs) - 1"
  using assms by (cases rule: decode_rune_cases; simp)+

lemma decode_rune_separator:
  assumes "decode_rune b bs = (r, w)" "r = 8232 \<or> r = 8233" "128 \<le> b"
  shows "w = 3" "b = 226" "take 2 bs = [128, r - 8064]" "2 \<le> length bs"
proof -
  have ne: "decode_rune b bs \<noteq> rune_error"
    using assms by (auto simp: rune_error_def)
  have "w = 3 \<and> b = 226 \<and> take 2 bs = [128, r - 8064] \<and> 2 \<le> length bs"
    using ne assms(3)
  proof (cases rule: decode_rune_cases)
    case (1 b1 t)
    with assms show ?thesis by (auto simp: cont_byte_def)
  next
    case (2 b1 b2 t)
    then have r: "r = (b - 224) * 4096 + (b1 - 128) * 64 + (b2 - 128)" "w = 3"
      using assms(1) by auto
    have "b - 224 = 2"
      using r assms(2) 2 by (auto simp: cont_byte_def)
    moreover then have "b1 - 128 = 0"
      using r assms(2) 2 by (auto simp: cont_byte_def)
    ultimately show ?thesis
      using r assms(2) 2 by (auto simp: cont_byte_def)
  next
    case (3 b1 b2 b3 t)
    have "65536 \<le> (b - 240) * 262144 + (b1 - 128) * 4096"
    proof (cases "b = 240")
      case True
      with 3 show ?thesis by simp
    next
      case False
      with 3 have "1 \<le> b - 240" by simp
      then show ?thesis by simp
    qed
    with 3 assms show ?thesis by auto
  qed
  then show "w = 3" "b = 226" "take 2 bs = [128, r - 8064]" "2 \<le> length bs"
    by blast+
qed

lemma parse_escape_string:
  "valid_utf8_bytes (map byte s) \<Longrightarrow>
     parse_string (escape_string s @ quote # rest) = Some (s, rest)"
proof (induction s rule: escape_string.induct)
  case 1
  show ?case by (simp add: parse_string.simps(2))
next
  case (2 c s)
  let ?d = "decode_rune (byte c) (map byte s)"
  from "2.prems" have ne: "?d \<noteq> rune_error"
    and v: "valid_utf8_bytes (map byte (drop (snd ?d - 1) s))"
    by (simp_all add: drop_map)
  show ?case
  proof (cases "byte c < 128")
    case True
    with "2.IH"(1) v show ?thesis
      by (simp add: escape_string.simps(2) parse_escape_ascii prepend_def)
  next
    case False
    obtain r w where d: "?d = (r, w)" by fastforce
    with ne have nerr: "(r, w) \<noteq> rune_error" by simp
    show ?thesis
    proof (cases "r = 8232 \<or> r = 8233")
      case True
      note sep = decode_rune_separator [OF d True] False
      have IH: "parse_string (escape_string (drop (w - 1) s) @ quote # rest) = Some (drop (w - 1) s, rest)"
        using "2.IH"(3) [OF False d [symmetric] refl nerr True] v d by simp
      have bytes: "map byte (take 2 s) = [128, r - 8064]" "byte c = 226"
        using sep by (simp_all add: take_map)
      have "map byte (encode_rune r) = map byte (c # take 2 s)"
        using True bytes by (auto simp: encode_rune_def of_char_of)
      then have enc: "encode_rune r = c # take 2 s"
        by (metis inj_map_eq_map inj_on_def of_char_eq_iff)
      have "parse_string (escape_string (c # s) @ quote # rest)
          = prepend (encode_rune r) (Some (drop (w - 1) s, rest))"
        using False d nerr True IH
        by (auto simp: escape_string.simps(2) parse_u_escape)
      then show ?thesis
        using sep by (simp add: enc prepend_def)
    next
      case nosep: False
      have IH: "parse_string (escape_string (drop (w - 1) s) @ quote # rest) = Some (drop (w - 1) s, rest)"
        using "2.IH"(4) [OF False d [symmetric] refl nerr nosep] v d by simp
      let ?tail = "escape_string (drop (w - 1) s) @ quote # rest"
      have loc: "decode_rune (byte c) (map byte (take (w - 1) s @ ?tail)) = (r, w)"
        using decode_rune_local(1) [OF ne, of "map byte ?tail"] False d by (simp add: take_map)
      have len: "length (take (w - 1) s) = w - 1"
        using decode_rune_local(2) [OF ne] False d by simp
      have nq: "c \<noteq> quote" "c \<noteq> backslash" "\<not> byte c < 32"
        using False by auto
      have "escape_string (c # s) @ quote # rest = c # take (w - 1) s @ ?tail"
        using False d nerr nosep by (simp add: escape_string.simps(2))
      moreover have "take (w - 1) (take (w - 1) s @ ?tail) = take (w - 1) s"
        "drop (w - 1) (take (w - 1) s @ ?tail) = ?tail"
        by (metis append_eq_conv_conj len)+
      ultimately show ?thesis
        using nq loc nerr IH
        by (simp add: parse_string.simps(2) prepend_def del: take_append drop_append)
    qed
  qed
qed

lemma parse_print_string:
  "valid_utf8 s \<Longrightarrow> parse_string (escape_string s @ quote # rest) = Some (s, rest)"
  unfolding valid_utf8_def by (rule parse_escape_string)

section \<open>Values\<close>

text \<open>The values that are read back: integer numbers, valid strings, and a nesting bound.\<close>

fun json_wf :: "nat \<Rightarrow> json \<Rightarrow> bool" where
  "json_wf d JNull = True"
| "json_wf d (JBool b) = True"
| "json_wf d (JNum n) = (\<exists>i. n = print_int i)"
| "json_wf d (JStr s) = valid_utf8 s"
| "json_wf d (JArr vs) = (0 < d \<and> (\<forall>v \<in> set vs. json_wf (d - 1) v))"
| "json_wf d (JObj ms) = (0 < d \<and> (\<forall>m \<in> set ms. valid_utf8 (fst m) \<and> json_wf (d - 1) (snd m)))"

lemma skip_ws_cons [simp]: "\<not> json_space c \<Longrightarrow> skip_ws (c # t) = c # t"
  by (simp add: skip_ws_def)

lemma json_space_punct [simp]:
  "\<not> json_space quote" "\<not> json_space CHR ''{''" "\<not> json_space CHR ''}''"
  "\<not> json_space CHR ''[''" "\<not> json_space CHR '']''" "\<not> json_space CHR '':''"
  "\<not> json_space CHR '',''" "\<not> json_space CHR ''n''" "\<not> json_space CHR ''t''"
  "\<not> json_space CHR ''f''"
  by (simp_all add: json_space_def)

lemma print_int_hd: "\<exists>c t. print_int i = c # t \<and> (ascii_digit c \<or> c = CHR ''-'')"
proof -
  obtain c t where "print_nat (nat i) = c # t" using print_nat_nonempty by (metis neq_Nil_conv)
  with print_nat_digits [of "nat i"] show ?thesis by (auto simp: print_int_def)
qed

lemma digit_head:
  assumes "ascii_digit c \<or> c = CHR ''-''"
  shows "\<not> json_space c" "c \<noteq> quote" "c \<noteq> CHR ''{''" "c \<noteq> CHR ''[''"
    "c \<noteq> CHR ''t''" "c \<noteq> CHR ''f''" "c \<noteq> CHR ''n''"
  using assms by (auto simp: ascii_digit_def json_space_def)

lemma json_print_hd:
  assumes "json_wf d j"
  shows "\<exists>c t. json_print j = c # t \<and> \<not> json_space c \<and> c \<noteq> CHR '']''"
proof (cases j)
  case (JNum n)
  with assms obtain i where n: "n = print_int i" by auto
  obtain c t where c: "print_int i = c # t" "ascii_digit c \<or> c = CHR ''-''"
    using print_int_hd by blast
  from c(2) have "c \<noteq> CHR '']''" by (auto simp: ascii_digit_def)
  with JNum n c digit_head(1) show ?thesis by simp
next
  case (JBool b)
  then show ?thesis by (cases b) simp_all
qed (simp_all add: print_string_def)

lemma skip_ws_print: "json_wf d j \<Longrightarrow> skip_ws (json_print j @ rest) = json_print j @ rest"
  using json_print_hd [of d j] by auto

lemma skip_ws_print_elements:
  "vs \<noteq> [] \<Longrightarrow> \<forall>v \<in> set vs. json_wf d v \<Longrightarrow>
     \<exists>c t. print_elements vs = c # t \<and> \<not> json_space c \<and> c \<noteq> CHR '']''"
  using json_print_hd [of d "hd vs"] by (cases vs) auto

lemma ends_number_punct [simp]:
  "ends_number []" "ends_number (CHR '','' # t)" "ends_number (CHR '']'' # t)" "ends_number (CHR ''}'' # t)"
  by (simp_all add: ends_number_def ascii_digit_def)

lemma parse_print:
  "json_wf d j \<longrightarrow> ends_number rest \<longrightarrow> 2 * length (json_print j @ rest) < f \<longrightarrow>
     parse_value f d (json_print j @ rest) = Some (j, rest)"
  "vs \<noteq> [] \<longrightarrow> (\<forall>v \<in> set vs. json_wf d v) \<longrightarrow>
     Suc (2 * length (print_elements vs @ CHR '']'' # rest)) < f \<longrightarrow>
     parse_elements f d (print_elements vs @ CHR '']'' # rest) = Some (vs, rest)"
  "ms \<noteq> [] \<longrightarrow> (\<forall>m \<in> set ms. valid_utf8 (fst m) \<and> json_wf d (snd m)) \<longrightarrow>
     Suc (2 * length (print_members ms @ CHR ''}'' # rest)) < f \<longrightarrow>
     parse_members f d (print_members ms @ CHR ''}'' # rest) = Some (ms, rest)"
proof (induction j and vs and ms arbitrary: d rest f and d rest f and d rest f
    rule: json_print_print_elements_print_members.induct)
  case 1
  show ?case by (cases f) (auto simp: has_prefix_def)
next
  case (2 b)
  show ?case by (cases f; cases b) (auto simp: has_prefix_def)
next
  case (3 n)
  show ?case
  proof (intro impI)
    assume a: "json_wf d (JNum n)" "ends_number rest" "2 * length (json_print (JNum n) @ rest) < f"
    then obtain i g where n: "n = print_int i" and f: "f = Suc g" by (cases f) auto
    obtain c t where c: "print_int i = c # t" "ascii_digit c \<or> c = CHR ''-''"
      using print_int_hd by blast
    note h = digit_head [OF c(2)]
    have p: "parse_number (c # t @ rest) = Some (c # t, rest)"
      using parse_number_print_int [OF a(2), of i] c(1) by simp
    show "parse_value f d (json_print (JNum n) @ rest) = Some (JNum n, rest)"
      using h p by (simp add: f n c(1) has_prefix_def)
  qed
next
  case (4 s)
  show ?case
    by (cases f) (auto simp: print_string_def parse_print_string)
next
  case (5 vs)
  show ?case
  proof (intro impI)
    assume a: "json_wf d (JArr vs)" "ends_number rest" "2 * length (json_print (JArr vs) @ rest) < f"
    then obtain g where f: "f = Suc g" by (cases f) auto
    show "parse_value f d (json_print (JArr vs) @ rest) = Some (JArr vs, rest)"
    proof (cases "vs = []")
      case True
      with a f show ?thesis by simp
    next
      case False
      with a obtain c t where c: "print_elements vs = c # t" "\<not> json_space c" "c \<noteq> CHR '']''"
        using skip_ws_print_elements [of vs "d - 1"] by auto
      have "parse_elements g (d - 1) (print_elements vs @ CHR '']'' # rest) = Some (vs, rest)"
        using 5 [of "d - 1" rest g] a f False by simp
      with a c show ?thesis by (simp add: f)
    qed
  qed
next
  case (6 ms)
  show ?case
  proof (intro impI)
    assume a: "json_wf d (JObj ms)" "ends_number rest" "2 * length (json_print (JObj ms) @ rest) < f"
    then obtain g where f: "f = Suc g" by (cases f) auto
    show "parse_value f d (json_print (JObj ms) @ rest) = Some (JObj ms, rest)"
    proof (cases ms)
      case Nil
      with a f show ?thesis by simp
    next
      case (Cons m ms')
      obtain k v where m: "m = (k, v)" by fastforce
      obtain t where c: "print_members ms = quote # t"
        by (simp add: Cons m print_string_def)
      have "parse_members g (d - 1) (print_members ms @ CHR ''}'' # rest) = Some (ms, rest)"
        using 6 [of "d - 1" rest g] a f Cons by simp
      with a c show ?thesis by (simp add: f)
    qed
  qed
next
  case 7
  show ?case by simp
next
  case (8 v vs)
  show ?case
  proof (intro impI)
    assume a: "\<forall>w \<in> set (v # vs). json_wf d w"
      "Suc (2 * length (print_elements (v # vs) @ CHR '']'' # rest)) < f"
    then obtain g where f: "f = Suc g" by (cases f) auto
    let ?rest = "(if vs = [] then [] else CHR '','' # print_elements vs) @ CHR '']'' # rest"
    have v: "parse_value g d (json_print v @ ?rest) = Some (v, ?rest)"
      using "8.IH"(1) [of d ?rest g] a f by simp
    show "parse_elements f d (print_elements (v # vs) @ CHR '']'' # rest) = Some (v # vs, rest)"
    proof (cases "vs = []")
      case True
      with v show ?thesis by (simp add: f)
    next
      case False
      with a obtain c t where c: "print_elements vs = c # t" "\<not> json_space c"
        using skip_ws_print_elements [of vs d] by auto
      have "parse_elements g d (print_elements vs @ CHR '']'' # rest) = Some (vs, rest)"
        using "8.IH"(2) [of d rest g] False a f by simp
      with v False c show ?thesis by (simp add: f prepend_def)
    qed
  qed
next
  case 9
  show ?case by simp
next
  case (10 k v ms)
  show ?case
  proof (intro impI)
    assume a: "\<forall>m \<in> set ((k, v) # ms). valid_utf8 (fst m) \<and> json_wf d (snd m)"
      "Suc (2 * length (print_members ((k, v) # ms) @ CHR ''}'' # rest)) < f"
    then obtain g where f: "f = Suc g" by (cases f) auto
    let ?rest = "(if ms = [] then [] else CHR '','' # print_members ms) @ CHR ''}'' # rest"
    have v: "parse_value g d (json_print v @ ?rest) = Some (v, ?rest)"
      using "10.IH"(1) [of d ?rest g] a f by (simp add: print_string_def)
    have vw: "json_wf d v" and k: "valid_utf8 k" using a by simp_all
    note ks = parse_print_string [OF k]
    note sv = skip_ws_print [OF vw]
    show "parse_members f d (print_members ((k, v) # ms) @ CHR ''}'' # rest) = Some ((k, v) # ms, rest)"
    proof (cases ms)
      case Nil
      with v ks sv show ?thesis by (simp add: f print_string_def)
    next
      case (Cons m ms')
      obtain k' v' where m: "m = (k', v')" by fastforce
      obtain t where c: "print_members ms = quote # t"
        by (simp add: Cons m print_string_def)
      have "parse_members g d (print_members ms @ CHR ''}'' # rest) = Some (ms, rest)"
        using "10.IH"(2) [of d rest g] Cons a f by (simp add: print_string_def)
      with v ks sv Cons c show ?thesis by (simp add: f print_string_def prepend_def)
    qed
  qed
qed

lemma json_decode_print:
  assumes "json_wf max_nesting j"
  shows "json_decode (json_print j) = Some j"
proof -
  have s: "skip_ws (json_print j) = json_print j"
    using skip_ws_print [OF assms, of "[]"] by simp
  have "parse_value (Suc (2 * length (json_print j))) max_nesting (json_print j @ []) = Some (j, [])"
    using parse_print(1) [of max_nesting j "[]" "Suc (2 * length (json_print j))"] assms by simp
  then show ?thesis
    by (simp add: json_decode_def read_value_def s) (simp add: skip_ws_def)
qed

end
