(* ===== verification/Rpc.thy ===== *)
theory Rpc
  imports JsonRoundtrip
begin

text \<open>
  \<open>internal/rpc/envelope.go\<close> and \<open>validate.go\<close>: the request and response envelopes, the typed
  parameters and results, decoding them strictly and printing them as \<open>json.Marshal\<close> does.  A
  response is polymorphic in its result: the broker fills in an \<open>rpc_result\<close>, a client reads back
  JSON.
\<close>

section \<open>Requests\<close>

record request =
  rq_v :: int
  rq_id :: string
  rq_method :: string
  rq_params :: bytes

definition zero_request :: request where
  "zero_request = \<lparr>rq_v = 0, rq_id = [], rq_method = [], rq_params = []\<rparr>"

definition Version1 :: int where "Version1 = 1"
definition MethodSystemPing :: string where "MethodSystemPing = ''system.ping''"
definition MethodSystemInfo :: string where "MethodSystemInfo = ''system.info''"
definition MethodListChats :: string where "MethodListChats = ''imsg.list_chats''"
definition MethodHistory :: string where "MethodHistory = ''imsg.history''"
definition MethodGetMessage :: string where "MethodGetMessage = ''imsg.get_message''"
definition MethodCollect :: string where "MethodCollect = ''imsg.collect''"

text \<open>\<open>params\<close> is a \<open>json.RawMessage\<close>: the bytes of the member's value as they stand in the
  payload.  The members of the envelope are therefore read together with their text.\<close>

fun parse_raw_members ::
  "nat \<Rightarrow> nat \<Rightarrow> string \<Rightarrow> ((string \<times> json \<times> string) list \<times> string) option" where
  "parse_raw_members 0 d s = None"
| "parse_raw_members (Suc f) d s =
     (case s of
        [] \<Rightarrow> None
      | q # s0 \<Rightarrow>
          if q \<noteq> quote then None
          else (case parse_string s0 of
              None \<Rightarrow> None
            | Some (k, s1) \<Rightarrow>
                (case skip_ws s1 of
                   [] \<Rightarrow> None
                 | colon # s2 \<Rightarrow>
                     if colon \<noteq> CHR '':'' then None
                     else (case parse_value f d (skip_ws s2) of
                         None \<Rightarrow> None
                       | Some (v, r) \<Rightarrow>
                           let raw = take (length (skip_ws s2) - length r) (skip_ws s2) in
                           (case skip_ws r of
                              [] \<Rightarrow> None
                            | c # t \<Rightarrow>
                                if c = CHR ''}'' then Some ([(k, v, raw)], t)
                                else if c = CHR '',''
                                then prepend [(k, v, raw)] (parse_raw_members f d (skip_ws t))
                                else None)))))"

definition read_raw_object :: "string \<Rightarrow> ((string \<times> json \<times> string) list \<times> string) option" where
  "read_raw_object s =
     (case skip_ws s of
        [] \<Rightarrow> None
      | c # t \<Rightarrow>
          if c \<noteq> CHR ''{'' then None
          else (case skip_ws t of
              [] \<Rightarrow> None
            | x # rest \<Rightarrow>
                if x = CHR ''}'' then Some ([], rest)
                else parse_raw_members (2 * length (skip_ws s)) (max_nesting - 1) (x # rest)))"

definition request_step :: "request \<Rightarrow> string \<Rightarrow> json \<Rightarrow> string \<Rightarrow> request option" where
  "request_step r k v raw =
     (if key_is ''v'' k then map_option (\<lambda>x. r\<lparr>rq_v := x\<rparr>) (dec_int (rq_v r) v)
      else if key_is ''id'' k then map_option (\<lambda>x. r\<lparr>rq_id := x\<rparr>) (dec_string (rq_id r) v)
      else if key_is ''method'' k then map_option (\<lambda>x. r\<lparr>rq_method := x\<rparr>) (dec_string (rq_method r) v)
      else if key_is ''params'' k then Some (r\<lparr>rq_params := raw\<rparr>)
      else None)"

fun request_members :: "request \<Rightarrow> (string \<times> json \<times> string) list \<Rightarrow> request option" where
  "request_members r [] = Some r"
| "request_members r ((k, v, raw) # ms) =
     (case request_step r k v raw of None \<Rightarrow> None | Some r' \<Rightarrow> request_members r' ms)"

text \<open>The two \<open>Decode\<close> calls of \<open>handleConn\<close>, with the error each one reports.\<close>

datatype request_error = RequestNotJson | RequestNotOneObject

definition decode_request :: "bytes \<Rightarrow> request_error + request" where
  "decode_request payload =
     (case read_value payload of
        None \<Rightarrow> Inl RequestNotJson
      | Some (v, rest) \<Rightarrow>
          (case (case v of
                   JNull \<Rightarrow> Some zero_request
                 | JObj _ \<Rightarrow> Option.bind (read_raw_object payload) (\<lambda>(ms, _). request_members zero_request ms)
                 | _ \<Rightarrow> None) of
             None \<Rightarrow> Inl RequestNotJson
           | Some r \<Rightarrow> if skip_ws rest = [] then Inr r else Inl RequestNotOneObject))"

text \<open>\<open>json.Valid\<close>, and the first byte after \<open>bytes.TrimSpace\<close>.\<close>

definition json_valid :: "bytes \<Rightarrow> bool" where
  "json_valid s \<longleftrightarrow> json_decode s \<noteq> None"

definition opens_object :: "bytes \<Rightarrow> bool" where
  "opens_object s \<longleftrightarrow> has_prefix ''{'' (trim_space s)"

record validation_error =
  ve_code :: string
  ve_message :: string

definition ValidateRequest :: "request \<Rightarrow> validation_error + unit" where
  "ValidateRequest req =
     (if rq_v req \<noteq> Version1
      then Inl \<lparr>ve_code = ''unsupported_version'',
                ve_message = ''unsupported protocol version '' @ print_int (rq_v req)\<rparr>
      else if trim_space (rq_id req) = [] \<or> length (rq_id req) > 64
      then Inl \<lparr>ve_code = ''invalid_request'', ve_message = ''request id is missing or too long''\<rparr>
      else if trim_space (rq_method req) = [] \<or> length (rq_method req) > 128
      then Inl \<lparr>ve_code = ''invalid_request'', ve_message = ''method is missing or too long''\<rparr>
      else if rq_params req = [] \<or> \<not> json_valid (rq_params req) \<or> \<not> opens_object (rq_params req)
      then Inl \<lparr>ve_code = ''invalid_request'', ve_message = ''params must be a JSON object''\<rparr>
      else Inr ())"

section \<open>Parameters\<close>

text \<open>\<open>DecodeParams\<close>: \<open>JsonError\<close> stands for the error of \<open>encoding/json\<close>, whose text the program
  passes on.\<close>

datatype decode_error = ExpectedObject | JsonError | ExactlyOneObject

definition DecodeParams :: "('r \<Rightarrow> string \<Rightarrow> json \<Rightarrow> 'r option) \<Rightarrow> 'r \<Rightarrow> bytes \<Rightarrow> decode_error + 'r" where
  "DecodeParams step zero raw =
     (if \<not> opens_object raw then Inl ExpectedObject
      else (case read_value raw of
          None \<Rightarrow> Inl JsonError
        | Some (v, rest) \<Rightarrow>
            (case decode_struct step zero v of
               None \<Rightarrow> Inl JsonError
             | Some r \<Rightarrow> if skip_ws rest = [] then Inr r else Inl ExactlyOneObject)))"

definition empty_step :: "unit \<Rightarrow> string \<Rightarrow> json \<Rightarrow> unit option" where
  "empty_step r k v = None"

definition decodeEmpty :: "bytes \<Rightarrow> decode_error + unit" where
  "decodeEmpty raw = DecodeParams empty_step () raw"

record list_chats_params =
  lc_limit :: int

record generation_params =
  gp_chat_id :: int64
  gp_database_generation :: string
  gp_limit :: int

record get_message_params =
  gm_chat_id :: int64
  gm_database_generation :: string
  gm_guid :: string

record collect_params =
  cp_cursor :: string
  cp_after_row_id :: int64
  cp_database_generation :: string
  cp_limit :: int
  cp_not_before :: string

definition list_chats_step :: "list_chats_params \<Rightarrow> string \<Rightarrow> json \<Rightarrow> list_chats_params option" where
  "list_chats_step r k v =
     (if key_is ''limit'' k then map_option (\<lambda>x. r\<lparr>lc_limit := x\<rparr>) (dec_int (lc_limit r) v) else None)"

definition generation_step :: "generation_params \<Rightarrow> string \<Rightarrow> json \<Rightarrow> generation_params option" where
  "generation_step r k v =
     (if key_is ''chat_id'' k then map_option (\<lambda>x. r\<lparr>gp_chat_id := x\<rparr>) (dec_int (gp_chat_id r) v)
      else if key_is ''database_generation'' k
      then map_option (\<lambda>x. r\<lparr>gp_database_generation := x\<rparr>) (dec_string (gp_database_generation r) v)
      else if key_is ''limit'' k then map_option (\<lambda>x. r\<lparr>gp_limit := x\<rparr>) (dec_int (gp_limit r) v)
      else None)"

definition get_message_step :: "get_message_params \<Rightarrow> string \<Rightarrow> json \<Rightarrow> get_message_params option" where
  "get_message_step r k v =
     (if key_is ''chat_id'' k then map_option (\<lambda>x. r\<lparr>gm_chat_id := x\<rparr>) (dec_int (gm_chat_id r) v)
      else if key_is ''database_generation'' k
      then map_option (\<lambda>x. r\<lparr>gm_database_generation := x\<rparr>) (dec_string (gm_database_generation r) v)
      else if key_is ''guid'' k then map_option (\<lambda>x. r\<lparr>gm_guid := x\<rparr>) (dec_string (gm_guid r) v)
      else None)"

definition collect_step :: "collect_params \<Rightarrow> string \<Rightarrow> json \<Rightarrow> collect_params option" where
  "collect_step r k v =
     (if key_is ''cursor'' k then map_option (\<lambda>x. r\<lparr>cp_cursor := x\<rparr>) (dec_string (cp_cursor r) v)
      else if key_is ''after_row_id'' k
      then map_option (\<lambda>x. r\<lparr>cp_after_row_id := x\<rparr>) (dec_int (cp_after_row_id r) v)
      else if key_is ''database_generation'' k
      then map_option (\<lambda>x. r\<lparr>cp_database_generation := x\<rparr>) (dec_string (cp_database_generation r) v)
      else if key_is ''limit'' k then map_option (\<lambda>x. r\<lparr>cp_limit := x\<rparr>) (dec_int (cp_limit r) v)
      else if key_is ''not_before'' k
      then map_option (\<lambda>x. r\<lparr>cp_not_before := x\<rparr>) (dec_string (cp_not_before r) v)
      else None)"

definition decode_list_chats :: "bytes \<Rightarrow> decode_error + list_chats_params" where
  "decode_list_chats = DecodeParams list_chats_step \<lparr>lc_limit = 0\<rparr>"

definition decode_generation :: "bytes \<Rightarrow> decode_error + generation_params" where
  "decode_generation =
     DecodeParams generation_step \<lparr>gp_chat_id = 0, gp_database_generation = [], gp_limit = 0\<rparr>"

definition decode_get_message :: "bytes \<Rightarrow> decode_error + get_message_params" where
  "decode_get_message =
     DecodeParams get_message_step \<lparr>gm_chat_id = 0, gm_database_generation = [], gm_guid = []\<rparr>"

definition decode_collect :: "bytes \<Rightarrow> decode_error + collect_params" where
  "decode_collect =
     DecodeParams collect_step \<lparr>cp_cursor = [], cp_after_row_id = 0, cp_database_generation = [],
       cp_limit = 0, cp_not_before = []\<rparr>"

section \<open>Responses\<close>

record error_body =
  eb_code :: string
  eb_message :: string
  eb_retryable :: bool

record 'r response =
  rs_v :: int
  rs_id :: string
  rs_ok :: bool
  rs_result :: "'r option"
  rs_error :: "error_body option"

definition Success :: "string \<Rightarrow> 'r \<Rightarrow> 'r response" where
  "Success i result =
     \<lparr>rs_v = Version1, rs_id = i, rs_ok = True, rs_result = Some result, rs_error = None\<rparr>"

definition Failure :: "string \<Rightarrow> string \<Rightarrow> string \<Rightarrow> bool \<Rightarrow> 'r response" where
  "Failure i code message retryable =
     \<lparr>rs_v = Version1, rs_id = i, rs_ok = False, rs_result = None,
      rs_error = Some \<lparr>eb_code = code, eb_message = message, eb_retryable = retryable\<rparr>\<rparr>"

record contacts_policy_info =
  ci_state :: string
  ci_last_attempt_at :: string
  ci_last_success_at :: string
  ci_expires_at :: string
  ci_last_error_code :: string

record system_info =
  si_service :: string
  si_protocol_version :: int
  si_instance :: string
  si_account_id :: string
  si_database_generation :: string
  si_max_results :: int
  si_methods :: "string list"
  si_contacts_policy :: "contacts_policy_info option"
  si_collection_protocol :: string

record chat =
  ch_account_id :: string
  ch_database_generation :: string
  ch_chat_id :: int64
  ch_chat_guid :: string
  ch_service :: string
  ch_is_group :: bool
  ch_participants :: "string list"

record message =
  ms_account_id :: string
  ms_database_generation :: string
  ms_row_id :: int64
  ms_chat_id :: int64
  ms_chat_guid :: string
  ms_guid :: string
  ms_sender :: string
  ms_from_me :: bool
  ms_text :: string
  ms_created_at :: string

record list_chats_result =
  lr_chats :: "chat list"
  lr_scan_complete :: bool

record history_result =
  hr_messages :: "message list"
  hr_scan_complete :: bool

record get_message_result =
  gr_message :: message

record collect_result =
  cr_messages :: "message list"
  cr_cursor :: string
  cr_more :: bool
  cr_range_complete :: bool

datatype rpc_result =
    PongResult
  | InfoResult system_info
  | ListChatsResult list_chats_result
  | HistoryResult history_result
  | GetMessageResult get_message_result
  | CollectResult collect_result

subsection \<open>Printing\<close>

definition jint :: "int \<Rightarrow> json" where
  "jint i = JNum (print_int i)"

text \<open>A field with \<open>omitempty\<close> is left out when it holds its type's empty value.\<close>

definition omit_string :: "string \<Rightarrow> string \<Rightarrow> (string \<times> json) list" where
  "omit_string k s = (if s = [] then [] else [(k, JStr s)])"

definition contacts_policy_info_json :: "contacts_policy_info \<Rightarrow> json" where
  "contacts_policy_info_json c = JObj ([(''state'', JStr (ci_state c))]
     @ omit_string ''last_attempt_at'' (ci_last_attempt_at c)
     @ omit_string ''last_success_at'' (ci_last_success_at c)
     @ omit_string ''expires_at'' (ci_expires_at c)
     @ omit_string ''last_error_code'' (ci_last_error_code c))"

definition system_info_json :: "system_info \<Rightarrow> json" where
  "system_info_json i = JObj ([(''service'', JStr (si_service i)),
      (''protocol_version'', jint (si_protocol_version i)),
      (''instance'', JStr (si_instance i)), (''account_id'', JStr (si_account_id i)),
      (''database_generation'', JStr (si_database_generation i)),
      (''max_results'', jint (si_max_results i)),
      (''methods'', JArr (map JStr (si_methods i)))]
     @ (case si_contacts_policy i of None \<Rightarrow> []
        | Some c \<Rightarrow> [(''contacts_policy'', contacts_policy_info_json c)])
     @ omit_string ''collection_protocol'' (si_collection_protocol i))"

definition chat_json :: "chat \<Rightarrow> json" where
  "chat_json c = JObj [(''account_id'', JStr (ch_account_id c)),
      (''database_generation'', JStr (ch_database_generation c)),
      (''chat_id'', jint (ch_chat_id c)), (''chat_guid'', JStr (ch_chat_guid c)),
      (''service'', JStr (ch_service c)), (''is_group'', JBool (ch_is_group c)),
      (''participants'', JArr (map JStr (ch_participants c)))]"

definition message_json :: "message \<Rightarrow> json" where
  "message_json m = JObj ([(''account_id'', JStr (ms_account_id m)),
      (''database_generation'', JStr (ms_database_generation m)),
      (''row_id'', jint (ms_row_id m)), (''chat_id'', jint (ms_chat_id m)),
      (''chat_guid'', JStr (ms_chat_guid m)), (''guid'', JStr (ms_guid m))]
     @ omit_string ''sender'' (ms_sender m)
     @ [(''from_me'', JBool (ms_from_me m)), (''text'', JStr (ms_text m)),
        (''created_at'', JStr (ms_created_at m))])"

fun result_json :: "rpc_result \<Rightarrow> json" where
  "result_json PongResult = JObj [(''pong'', JBool True)]"
| "result_json (InfoResult i) = system_info_json i"
| "result_json (ListChatsResult r) = JObj [(''chats'', JArr (map chat_json (lr_chats r))),
     (''scan_complete'', JBool (lr_scan_complete r))]"
| "result_json (HistoryResult r) = JObj [(''messages'', JArr (map message_json (hr_messages r))),
     (''scan_complete'', JBool (hr_scan_complete r))]"
| "result_json (GetMessageResult r) = JObj [(''message'', message_json (gr_message r))]"
| "result_json (CollectResult r) = JObj [(''messages'', JArr (map message_json (cr_messages r))),
     (''cursor'', JStr (cr_cursor r)), (''more'', JBool (cr_more r)),
     (''range_complete'', JBool (cr_range_complete r))]"

definition error_body_json :: "error_body \<Rightarrow> json" where
  "error_body_json e = JObj [(''code'', JStr (eb_code e)), (''message'', JStr (eb_message e)),
     (''retryable'', JBool (eb_retryable e))]"

definition response_json :: "('r \<Rightarrow> json) \<Rightarrow> 'r response \<Rightarrow> json" where
  "response_json f r = JObj ([(''v'', jint (rs_v r)), (''id'', JStr (rs_id r)), (''ok'', JBool (rs_ok r))]
     @ (case rs_result r of None \<Rightarrow> [] | Some x \<Rightarrow> [(''result'', f x)])
     @ (case rs_error r of None \<Rightarrow> [] | Some e \<Rightarrow> [(''error'', error_body_json e)]))"

definition marshal_response :: "rpc_result response \<Rightarrow> bytes" where
  "marshal_response r = json_print (response_json result_json r)"

subsection \<open>Reading a response back\<close>

definition error_body_step :: "error_body \<Rightarrow> string \<Rightarrow> json \<Rightarrow> error_body option" where
  "error_body_step r k v =
     (if key_is ''code'' k then map_option (\<lambda>x. r\<lparr>eb_code := x\<rparr>) (dec_string (eb_code r) v)
      else if key_is ''message'' k then map_option (\<lambda>x. r\<lparr>eb_message := x\<rparr>) (dec_string (eb_message r) v)
      else if key_is ''retryable'' k
      then map_option (\<lambda>x. r\<lparr>eb_retryable := x\<rparr>) (dec_bool (eb_retryable r) v)
      else None)"

definition zero_error_body :: error_body where
  "zero_error_body = \<lparr>eb_code = [], eb_message = [], eb_retryable = False\<rparr>"

definition response_step :: "json response \<Rightarrow> string \<Rightarrow> json \<Rightarrow> json response option" where
  "response_step r k v =
     (if key_is ''v'' k then map_option (\<lambda>x. r\<lparr>rs_v := x\<rparr>) (dec_int (rs_v r) v)
      else if key_is ''id'' k then map_option (\<lambda>x. r\<lparr>rs_id := x\<rparr>) (dec_string (rs_id r) v)
      else if key_is ''ok'' k then map_option (\<lambda>x. r\<lparr>rs_ok := x\<rparr>) (dec_bool (rs_ok r) v)
      else if key_is ''result'' k then Some (r\<lparr>rs_result := (if v = JNull then None else Some v)\<rparr>)
      else if key_is ''error'' k
      then map_option (\<lambda>x. r\<lparr>rs_error := x\<rparr>)
             (dec_pointer (decode_struct error_body_step) zero_error_body (rs_error r) v)
      else None)"

definition zero_response :: "json response" where
  "zero_response = \<lparr>rs_v = 0, rs_id = [], rs_ok = False, rs_result = None, rs_error = None\<rparr>"

definition decode_response :: "bytes \<Rightarrow> decode_error + json response" where
  "decode_response = DecodeParams response_step zero_response"

section \<open>What decoding and validation establish\<close>

lemma json_space_encoding:
  assumes "json_space c"
  shows "[c] \<in> set space_encodings" "\<lbrakk>e \<in> set space_encodings; hd e = c\<rbrakk> \<Longrightarrow> e = [c]"
proof -
  have m: "[n] \<in> set [[9], [10], [11], [12], [13], [32 :: nat],
      [194, 133], [194, 160], [225, 154, 128],
      [226, 128, 128], [226, 128, 129], [226, 128, 130], [226, 128, 131], [226, 128, 132],
      [226, 128, 133], [226, 128, 134], [226, 128, 135], [226, 128, 136], [226, 128, 137],
      [226, 128, 138], [226, 128, 168], [226, 128, 169], [226, 128, 175], [226, 129, 159],
      [227, 128, 128]]" if "n \<in> {32, 9, 13, 10}" for n
    using that by auto
  have "[c] = map char_of [byte c]" by simp
  then show "[c] \<in> set space_encodings"
    using m [of "byte c"] assms unfolding space_encodings_def json_space_def set_map by (metis image_eqI)
  have l: "list_all (\<lambda>e. byte (hd e) < 128 \<longrightarrow> length e = 1) space_encodings"
    by code_simp
  assume e: "e \<in> set space_encodings" "hd e = c"
  moreover have "byte c < 128" using assms by (auto simp: json_space_def)
  ultimately have "length e = 1" using l by (auto simp: list_all_iff)
  with e(2) show "e = [c]" by (cases e) auto
qed

lemma skip_width_json_space:
  assumes "json_space c"
  shows "skip_width space_encodings (c # s) = 1"
proof (cases "find (\<lambda>e. has_prefix e (c # s)) space_encodings")
  case None
  with json_space_encoding(1) [OF assms] show ?thesis
    by (force simp: find_None_iff has_prefix_def)
next
  case (Some e)
  then have e: "e \<in> set space_encodings" "has_prefix e (c # s)"
    by (auto simp: find_Some_iff)
  then have "hd e = c"
    using space_encodings_nonempty(1) by (metis has_prefix_iff hd_append2 list.sel(1))
  with e(1) have "e = [c]"
    by (rule json_space_encoding(2) [OF assms])
  with Some show ?thesis
    by (simp add: skip_width_def)
qed

lemma trim_left_skip_ws: "trim_left (skip_ws s) = trim_left s"
proof (induction s)
  case Nil
  then show ?case by (simp add: skip_ws_def)
next
  case (Cons c s)
  have "trim_left (c # s) = trim_left s" if "json_space c"
    unfolding trim_left_def
    by (subst trim_by.simps) (simp add: skip_width_json_space [OF that])
  with Cons show ?case by (simp add: skip_ws_def)
qed

lemma graphic_stops: "graphic c \<Longrightarrow> skip_width space_encodings (c # s) = 0"
  using hd_space_encodings(1) space_encodings_nonempty(1)
  by (subst skip_width_zero_iff) (force simp: has_prefix_iff Cons_eq_append_conv)+

lemma trim_left_graphic: "graphic c \<Longrightarrow> trim_left (c # s) = c # s"
  by (simp add: trim_left_def trim_by_id graphic_stops)

lemma trim_right_graphic: "graphic c \<Longrightarrow> \<exists>t. trim_right (c # s) = c # t"
proof -
  assume g: "graphic c"
  obtain u where u: "c # s = trim_right (c # s) @ u"
    using trim_right_prefix by blast
  have "c \<in> set (trim_right (c # s))"
  proof -
    have "c \<in> set (trim_space (c # s))"
      using g by (intro trim_space_keeps) auto
    then show ?thesis by (simp add: trim_space_def trim_left_graphic [OF g])
  qed
  with u show ?thesis by (cases "trim_right (c # s)") auto
qed

lemma opens_object_iff:
  assumes "skip_ws s = c # t" "graphic c"
  shows "opens_object s \<longleftrightarrow> c = CHR ''{''"
proof -
  obtain u where "trim_space s = c # u"
    using trim_right_graphic [OF assms(2)] trim_left_skip_ws [of s] assms
    by (metis trim_space_def trim_left_graphic)
  then show ?thesis by (auto simp: opens_object_def has_prefix_def)
qed

lemma value_hd_graphic:
  assumes "parse_value f d s = Some (v, r)"
  shows "\<exists>c t. s = c # t \<and> graphic c \<and> (c = CHR ''{'' \<longleftrightarrow> (\<exists>ms. v = JObj ms))"
proof -
  from assms obtain g where f: "f = Suc g" by (cases f) auto
  from assms obtain c t where s: "s = c # t" by (cases s) (auto simp: f)
  consider "c = quote" | "c = CHR ''{''" | "c = CHR ''[''" | "has_prefix ''true'' s"
    | "has_prefix ''false'' s" | "has_prefix ''null'' s"
    | n where "c \<noteq> CHR ''{''" "parse_number s = Some (n, r)" "v = JNum n"
    using assms by (auto simp: f s split: if_split_asm)
  then show ?thesis
  proof cases
    case 7
    have "c = CHR ''-'' \<or> ascii_digit c"
      using 7(2) by (auto simp: s parse_number_def number_sign_def number_int_def ascii_digit_def
          split: if_split_asm option.split_asm prod.split_asm)
    then have "graphic c" by (auto simp: graphic_def ascii_digit_def)
    with 7 s show ?thesis by auto
  qed (use assms in \<open>auto simp: f s graphic_def has_prefix_def split: if_split_asm list.split_asm\<close>)
qed

lemma opens_object_read_value:
  assumes "read_value s = Some (v, r)"
  shows "opens_object s \<longleftrightarrow> (\<exists>ms. v = JObj ms)"
  using value_hd_graphic [OF assms [unfolded read_value_def]] opens_object_iff by metis

text \<open>Reading the envelope with its texts finds the members that reading it as a value finds.\<close>

lemma parse_raw_members_eq:
  "parse_members f d s =
     map_option (\<lambda>(ms, r). (map (\<lambda>(k, v, raw). (k, v)) ms, r)) (parse_raw_members f d s)"
proof (induction f arbitrary: s)
  case (Suc f)
  show ?case
    by (auto simp: Suc.IH prepend_def Let_def option.map_comp comp_def split_def
        split: option.split list.split)
qed simp

lemma read_raw_object_eq:
  assumes "read_value s = Some (JObj kvs, rest)"
  shows "\<exists>ms. read_raw_object s = Some (ms, rest) \<and> map (\<lambda>(k, v, raw). (k, v)) ms = kvs"
proof -
  let ?f = "2 * length (skip_ws s)"
  from value_hd_graphic [OF assms [unfolded read_value_def]] obtain t where
    s: "skip_ws s = CHR ''{'' # t" by blast
  from assms obtain x u where x: "skip_ws t = x # u"
    "if x = CHR ''}'' then kvs = [] \<and> rest = u
     else parse_members ?f (max_nesting - 1) (x # u) = Some (kvs, rest)"
    by (auto simp: read_value_def s split: if_split_asm list.split_asm)
  show ?thesis
  proof (cases "x = CHR ''}''")
    case True
    with x show ?thesis by (simp add: read_raw_object_def s)
  next
    case False
    with x(2) have "map_option (\<lambda>(ms, r). (map (\<lambda>(k, v, raw). (k, v)) ms, r))
        (parse_raw_members ?f (max_nesting - 1) (x # u)) = Some (kvs, rest)"
      by (simp only: parse_raw_members_eq [symmetric] if_False)
    with False x(1) show ?thesis
      by (auto simp: read_raw_object_def s)
  qed
qed

lemma DecodeParams_iff:
  "DecodeParams step zero raw = Inr r \<longleftrightarrow>
     (\<exists>ms. json_decode raw = Some (JObj ms) \<and> decode_members step zero ms = Some r)"
proof (cases "read_value raw")
  case None
  then show ?thesis by (simp add: DecodeParams_def json_decode_def)
next
  case (Some p)
  then obtain v rest where p: "read_value raw = Some (v, rest)" by (cases p) auto
  note opens_object_read_value [OF p]
  with p show ?thesis
    by (cases v) (auto simp: DecodeParams_def json_decode_def decode_struct_def split: option.splits)
qed

lemma object_params:
  "json_decode raw = Some (JObj ms) \<Longrightarrow>
     raw \<noteq> [] \<and> json_valid raw \<and> opens_object raw"
  by (auto simp: json_decode_def json_valid_def read_value_def skip_ws_def opens_object_read_value
      split: option.splits if_splits)

section \<open>Properties\<close>

text \<open>A request passes validation exactly when it carries protocol version 1, an id and a
  method that are not blank and at most 64 and 128 bytes long, and parameters whose text is one
  complete JSON object and nothing else.\<close>

theorem validate_request_iff:
  "ValidateRequest req = Inr () \<longleftrightarrow>
     rq_v req = 1
     \<and> trim_space (rq_id req) \<noteq> [] \<and> length (rq_id req) \<le> 64
     \<and> trim_space (rq_method req) \<noteq> [] \<and> length (rq_method req) \<le> 128
     \<and> (\<exists>ms. json_decode (rq_params req) = Some (JObj ms))"
proof -
  have "(rq_params req \<noteq> [] \<and> json_valid (rq_params req) \<and> opens_object (rq_params req))
      \<longleftrightarrow> (\<exists>ms. json_decode (rq_params req) = Some (JObj ms))"
    using object_params [of "rq_params req"]
    by (auto simp: json_valid_def json_decode_def opens_object_read_value split: option.splits if_splits)
  then show ?thesis
    by (auto simp: ValidateRequest_def Version1_def)
qed

text \<open>\<open>DecodeParams\<close> accepts exactly the texts that are one JSON object every member of which
  the parameter type takes (unknown fields and mismatched types are refused), and stores the
  members in order.\<close>

theorem decode_params_strict:
  "DecodeParams step zero raw = Inr r \<longleftrightarrow>
     (\<exists>ms. json_decode raw = Some (JObj ms) \<and> decode_members step zero ms = Some r)"
  by (rule DecodeParams_iff)

lemma dec_jint: "- (2 ^ 63) \<le> i \<Longrightarrow> i < 2 ^ 63 \<Longrightarrow> dec_int old (jint i) = Some i"
  by (simp add: dec_int_def jint_def parse_int64_print_int)

lemma dec_simps [simp]:
  "dec_string s0 (JStr s) = Some s" "dec_bool b0 (JBool b) = Some b"
  by (simp_all add: dec_string_def dec_bool_def)

lemma response_keys:
  "key_is ''v'' ''v''" "\<not> key_is ''v'' ''id''" "key_is ''id'' ''id''"
  "\<not> key_is ''v'' ''ok''" "\<not> key_is ''id'' ''ok''" "key_is ''ok'' ''ok''"
  "\<not> key_is ''v'' ''result''" "\<not> key_is ''id'' ''result''" "\<not> key_is ''ok'' ''result''"
  "key_is ''result'' ''result''"
  "\<not> key_is ''v'' ''error''" "\<not> key_is ''id'' ''error''" "\<not> key_is ''ok'' ''error''"
  "\<not> key_is ''result'' ''error''" "key_is ''error'' ''error''"
  "key_is ''code'' ''code''" "\<not> key_is ''code'' ''message''" "key_is ''message'' ''message''"
  "\<not> key_is ''code'' ''retryable''" "\<not> key_is ''message'' ''retryable''"
  "key_is ''retryable'' ''retryable''"
  by (simp_all add: key_is_plain plain_key_def)

lemma result_json_not_null: "result_json r \<noteq> JNull"
  by (cases r) (simp_all add: system_info_json_def)

lemma decode_error_body:
  "decode_struct error_body_step old (error_body_json e) = Some e"
  by (simp add: error_body_json_def decode_struct_def error_body_step_def response_keys)

lemma error_body_json_not_null: "error_body_json e \<noteq> JNull"
  by (simp add: error_body_json_def)

lemma json_wf_jint [simp]: "json_wf d (jint i)"
  by (auto simp: jint_def)

text \<open>A client that decodes what the broker printed for a response gets that response back:
  version, id, verdict, error and the JSON of the result, for every response whose strings are
  valid UTF-8 (\<open>json_wf\<close>; the encoder would replace other bytes).\<close>

theorem response_roundtrip:
  assumes "json_wf max_nesting (response_json result_json r)"
    and "- (2 ^ 63) \<le> rs_v r" "rs_v r < 2 ^ 63"
  shows "decode_response (marshal_response r) =
     Inr \<lparr>rs_v = rs_v r, rs_id = rs_id r, rs_ok = rs_ok r,
          rs_result = map_option result_json (rs_result r), rs_error = rs_error r\<rparr>"
proof -
  have "json_decode (marshal_response r) = Some (response_json result_json r)"
    unfolding marshal_response_def by (rule json_decode_print [OF assms(1)])
  moreover obtain ms where "response_json result_json r = JObj ms"
      "decode_members response_step zero_response ms =
        Some \<lparr>rs_v = rs_v r, rs_id = rs_id r, rs_ok = rs_ok r,
          rs_result = map_option result_json (rs_result r), rs_error = rs_error r\<rparr>"
    using assms(2,3) that
    by (cases "rs_result r"; cases "rs_error r")
      (simp_all add: response_json_def response_step_def response_keys dec_jint zero_response_def
        dec_pointer_def decode_error_body result_json_not_null error_body_json_not_null)
  ultimately show ?thesis
    unfolding decode_response_def DecodeParams_iff by auto
qed

lemma response_roundtrip_witness:
  "decode_response (marshal_response (Failure ''r1'' ''not_found'' ''message was not found'' False)) =
     Inr (Failure ''r1'' ''not_found'' ''message was not found'' False)"
proof -
  let ?r = "Failure ''r1'' ''not_found'' ''message was not found'' False :: rpc_result response"
  have "valid_utf8 ''r1''" "valid_utf8 ''not_found''" "valid_utf8 ''message was not found''"
    "valid_utf8 ''v''" "valid_utf8 ''id''" "valid_utf8 ''ok''" "valid_utf8 ''error''"
    "valid_utf8 ''code''" "valid_utf8 ''message''" "valid_utf8 ''retryable''"
    by (rule ascii_valid, simp)+
  then have "json_wf max_nesting (response_json result_json ?r)"
    by (simp add: Failure_def response_json_def error_body_json_def max_nesting_def)
  from response_roundtrip [OF this] show ?thesis
    by (simp add: Failure_def Version1_def)
qed

end
