(* ===== verification/GoTime.thy ===== *)
theory GoTime
  imports JsonRoundtrip
begin

text \<open>
  Go's \<open>time.Parse\<close> for the layouts \<open>RFC3339\<close> and \<open>RFC3339Nano\<close> (they accept the same texts),
  and \<open>t.UTC().Format(time.RFC3339Nano)\<close>.  The parser is the library's general one: a
  one-digit hour, a comma before the fraction, any number of fraction digits (nine are kept),
  and zone offsets up to 24:60 are accepted.  The conversion to UTC shifts the civil date by
  whole days.
\<close>

record civil =
  year :: int
  month :: nat
  day :: nat
  hour :: nat
  minute :: nat
  second :: nat
  nano :: nat

section \<open>The calendar\<close>

definition leap_year :: "int \<Rightarrow> bool" where
  "leap_year y \<longleftrightarrow> y mod 4 = 0 \<and> (y mod 100 \<noteq> 0 \<or> y mod 400 = 0)"

definition days_in :: "nat \<Rightarrow> int \<Rightarrow> nat" where
  "days_in m y =
     (if m = 2 then if leap_year y then 29 else 28
      else if m \<in> {4, 6, 9, 11} then 30 else 31)"

type_synonym date = "int \<times> nat \<times> nat"

definition next_day :: "date \<Rightarrow> date" where
  "next_day p = (case p of (y, m, d) \<Rightarrow>
     if d < days_in m y then (y, m, d + 1) else if m < 12 then (y, m + 1, 1) else (y + 1, 1, 1))"

definition prev_day :: "date \<Rightarrow> date" where
  "prev_day p = (case p of (y, m, d) \<Rightarrow>
     if 1 < d then (y, m, d - 1)
     else if 1 < m then (y, m - 1, days_in (m - 1) y) else (y - 1, 12, 31))"

definition shift_days :: "int \<Rightarrow> date \<Rightarrow> date" where
  "shift_days k p = (if 0 \<le> k then (next_day ^^ nat k) p else (prev_day ^^ nat (- k)) p)"

definition valid_date :: "date \<Rightarrow> bool" where
  "valid_date p = (case p of (y, m, d) \<Rightarrow> 1 \<le> m \<and> m \<le> 12 \<and> 1 \<le> d \<and> d \<le> days_in m y)"

definition valid_civil :: "civil \<Rightarrow> bool" where
  "valid_civil t \<longleftrightarrow> valid_date (year t, month t, day t) \<and> hour t < 24 \<and> minute t < 60
     \<and> second t < 60 \<and> nano t < 10 ^ 9"

section \<open>Parsing\<close>

text \<open>\<open>getnum\<close>: one or two digits, or exactly two when \<open>fixed\<close>.\<close>

definition getnum :: "bool \<Rightarrow> string \<Rightarrow> (nat \<times> string) option" where
  "getnum fixed s = (case s of
      [] \<Rightarrow> None
    | a # t \<Rightarrow>
        if \<not> ascii_digit a then None
        else (case t of
            b # r \<Rightarrow>
              if ascii_digit b then Some (10 * digit_value a + digit_value b, r)
              else if fixed then None else Some (digit_value a, t)
          | [] \<Rightarrow> if fixed then None else Some (digit_value a, t)))"

definition expect :: "char \<Rightarrow> string \<Rightarrow> string option" where
  "expect c s = (case s of x # t \<Rightarrow> if x = c then Some t else None | [] \<Rightarrow> None)"

definition get_year :: "string \<Rightarrow> (nat \<times> string) option" where
  "get_year s =
     (if length s < 4 \<or> \<not> list_all ascii_digit (take 4 s) then None
      else Some (digits_value (take 4 s), drop 4 s))"

text \<open>A number in a range: the code reports the field that is out of range.\<close>

definition in_range :: "nat \<Rightarrow> nat \<Rightarrow> (nat \<times> string) option \<Rightarrow> (nat \<times> string) option" where
  "in_range lo hi r = (case r of Some (n, s) \<Rightarrow> if lo \<le> n \<and> n \<le> hi then Some (n, s) else None
     | None \<Rightarrow> None)"

text \<open>The fraction: at most nine digits count, more are skipped.\<close>

definition get_fraction :: "string \<Rightarrow> nat \<times> string" where
  "get_fraction s = (case s of
      c # d # t \<Rightarrow>
        if (c = CHR ''.'' \<or> c = CHR '','') \<and> ascii_digit d
        then
          let ds = takeWhile ascii_digit (d # t);
              used = take 9 ds
          in (digits_value used * 10 ^ (9 - length used), dropWhile ascii_digit (d # t))
        else (0, s)
    | _ \<Rightarrow> (0, s))"

text \<open>The zone: \<open>Z\<close>, or a signed \<open>hh:mm\<close>; the offset in seconds and the rest.\<close>

definition get_zone :: "string \<Rightarrow> (int \<times> string) option" where
  "get_zone s = (case s of
      [] \<Rightarrow> None
    | c # t \<Rightarrow>
        if c = CHR ''Z'' then Some (0, t)
        else if length s < 6 \<or> s ! 3 \<noteq> CHR '':'' then None
        else (case (getnum True (take 2 t), getnum True (take 2 (drop 4 s))) of
            (Some (hr, _), Some (mm, _)) \<Rightarrow>
              if 24 < hr \<or> 60 < mm then None
              else if c = CHR ''+'' then Some (int ((hr * 60 + mm) * 60), drop 6 s)
              else if c = CHR ''-'' then Some (- int ((hr * 60 + mm) * 60), drop 6 s)
              else None
          | _ \<Rightarrow> None))"

text \<open>The local civil time of the text and its offset from UTC in seconds.\<close>

definition parse_local :: "string \<Rightarrow> (civil \<times> int) option" where
  "parse_local s =
     Option.bind (get_year s) (\<lambda>(y, s).
     Option.bind (expect CHR ''-'' s) (\<lambda>s.
     Option.bind (in_range 1 12 (getnum True s)) (\<lambda>(mo, s).
     Option.bind (expect CHR ''-'' s) (\<lambda>s.
     Option.bind (getnum True s) (\<lambda>(d, s).
     Option.bind (expect CHR ''T'' s) (\<lambda>s.
     Option.bind (in_range 0 23 (getnum False s)) (\<lambda>(h, s).
     Option.bind (expect CHR '':'' s) (\<lambda>s.
     Option.bind (in_range 0 59 (getnum True s)) (\<lambda>(mi, s).
     Option.bind (expect CHR '':'' s) (\<lambda>s.
     Option.bind (in_range 0 59 (getnum True s)) (\<lambda>(se, s).
     (case get_fraction s of (ns, s) \<Rightarrow>
     Option.bind (get_zone s) (\<lambda>(off, s).
       if s \<noteq> [] \<or> \<not> valid_date (int y, mo, d) then None
       else Some (\<lparr>year = int y, month = mo, day = d, hour = h, minute = mi, second = se, nano = ns\<rparr>,
              off))))))))))))))"

definition to_utc :: "civil \<Rightarrow> int \<Rightarrow> civil" where
  "to_utc t off =
     (let secs = int (hour t * 3600 + minute t * 60 + second t) - off;
          s = nat (secs mod 86400)
      in (case shift_days (secs div 86400) (year t, month t, day t) of
            (y, m, d) \<Rightarrow> \<lparr>year = y, month = m, day = d, hour = s div 3600,
               minute = s div 60 mod 60, second = s mod 60, nano = nano t\<rparr>))"

text \<open>\<open>time.Parse(time.RFC3339, s)\<close>, the instant as a UTC civil time.\<close>

definition parse_rfc3339 :: "string \<Rightarrow> civil option" where
  "parse_rfc3339 s = map_option (\<lambda>(t, off). to_utc t off) (parse_local s)"

section \<open>Formatting\<close>

definition pad2 :: "nat \<Rightarrow> string" where
  "pad2 n = [char_of (48 + n div 10 mod 10), char_of (48 + n mod 10)]"

definition pad_year :: "int \<Rightarrow> string" where
  "pad_year y =
     (let ds = print_nat (nat \<bar>y\<bar>); z = replicate (4 - length ds) CHR ''0''
      in (if y < 0 then ''-'' else []) @ z @ ds)"

definition trim_zeros :: "string \<Rightarrow> string" where
  "trim_zeros s = rev (dropWhile (\<lambda>c. c = CHR ''0'') (rev s))"

definition nine_digits :: "nat \<Rightarrow> string" where
  "nine_digits n = map (\<lambda>k. char_of (48 + n div 10 ^ (8 - k) mod 10)) [0..<9]"

definition format_fraction :: "nat \<Rightarrow> string" where
  "format_fraction n = (if n = 0 then [] else CHR ''.'' # trim_zeros (nine_digits n))"

definition format_seconds :: "civil \<Rightarrow> string" where
  "format_seconds t = pad_year (year t) @ ''-'' @ pad2 (month t) @ ''-'' @ pad2 (day t) @ ''T''
     @ pad2 (hour t) @ '':'' @ pad2 (minute t) @ '':'' @ pad2 (second t)"

definition format_rfc3339_nano :: "civil \<Rightarrow> string" where
  "format_rfc3339_nano t = format_seconds t @ format_fraction (nano t) @ ''Z''"

definition format_rfc3339 :: "civil \<Rightarrow> string" where
  "format_rfc3339 t = format_seconds t @ ''Z''"

section \<open>What is printed is read back\<close>

lemma getnum_pad2: "n < 100 \<Longrightarrow> getnum f (pad2 n @ s) = Some (n, s)"
proof -
  assume "n < 100"
  then have "n div 10 < 10" by (simp add: less_mult_imp_div_less)
  then show ?thesis
    by (simp add: getnum_def pad2_def digit_value_def of_char_of)
qed

lemma digits_value_zeros: "digits_value (replicate k CHR ''0'' @ s) = digits_value s"
  by (induction k) (simp_all add: digits_value_def digit_value_def)

lemma length_print_nat: "n < 10 ^ Suc k \<Longrightarrow> length (print_nat n) \<le> Suc k"
proof (induction k arbitrary: n)
  case 0
  then show ?case by (subst print_nat.simps) simp
next
  case (Suc k)
  show ?case
  proof (cases "n < 10")
    case True
    then show ?thesis by (subst print_nat.simps) simp
  next
    case False
    have "n div 10 < 10 ^ Suc k"
      using Suc.prems by (simp add: less_mult_imp_div_less)
    with Suc.IH [of "n div 10"] False show ?thesis
      by (subst print_nat.simps) simp
  qed
qed

lemma get_year_pad:
  assumes "0 \<le> y" "y < 10000"
  shows "get_year (pad_year y @ s) = Some (nat y, s)"
proof -
  let ?ds = "print_nat (nat \<bar>y\<bar>)" and ?p = "pad_year y"
  have "length ?ds \<le> 4"
    using length_print_nat [of "nat y" 3] assms by simp
  then have l: "length ?p = 4" "?p = replicate (4 - length ?ds) CHR ''0'' @ ?ds"
    using assms by (auto simp: pad_year_def Let_def)
  have d: "list_all ascii_digit ?p"
    using l(2) print_nat_digits by (auto simp: list_all_iff ascii_digit_def)
  have v: "digits_value ?p = nat y"
    using l(2) assms by (simp add: digits_value_zeros digits_value_print_nat)
  have "take 4 (?p @ s) = ?p" "drop 4 (?p @ s) = s"
    using l(1) by simp_all
  then show ?thesis
    using d v l(1) by (simp add: get_year_def)
qed

lemma length_nine [simp]: "length (nine_digits n) = 9"
  by (simp add: nine_digits_def)

lemma nine_digits_digit: "list_all ascii_digit (nine_digits n)"
  by (simp add: nine_digits_def list_all_iff)

lemma digits_value_append:
  "digits_value (s @ t) = digits_value s * 10 ^ length t + digits_value t"
proof (induction t rule: rev_induct)
  case (snoc c t)
  have "digits_value (s @ t @ [c]) = 10 * digits_value (s @ t) + digit_value c"
    by (metis append.assoc digits_value_snoc)
  with snoc show ?case by (simp add: digits_value_snoc algebra_simps)
qed (simp add: digits_value_def)

lemma digit_value_char [simp]: "n < 10 \<Longrightarrow> digit_value (char_of (48 + n :: nat)) = n"
  by (simp add: digit_value_def of_char_of)

lemma digits_value_upto:
  "digits_value (map (\<lambda>k. char_of (48 + n div 10 ^ (m - k) mod 10)) [0..<j]) = n div 10 ^ (Suc m - j) mod 10 ^ j"
  if "j \<le> Suc m"
  using that
proof (induction j)
  case 0
  show ?case by (simp add: digits_value_def)
next
  case (Suc j)
  have e: "Suc m - j = Suc (m - j)" using Suc.prems by simp
  let ?x = "n div 10 ^ (m - j)"
  have "n div 10 ^ (Suc m - j) = ?x div 10"
    by (simp only: e power_Suc2 div_mult2_eq)
  moreover have "?x mod 10 ^ Suc j = 10 * (?x div 10 mod 10 ^ j) + ?x mod 10"
    by (simp add: mod_mult2_eq)
  ultimately show ?case
    using Suc by (simp add: digits_value_snoc)
qed

lemma digits_value_nine: "n < 10 ^ 9 \<Longrightarrow> digits_value (nine_digits n) = n"
  using digits_value_upto [of 9 8 n] by (simp add: nine_digits_def)

lemma trim_zeros_split: "\<exists>k. s = trim_zeros s @ replicate k CHR ''0''"
proof -
  have "rev s = takeWhile (\<lambda>c. c = CHR ''0'') (rev s) @ dropWhile (\<lambda>c. c = CHR ''0'') (rev s)"
    by simp
  moreover have "takeWhile (\<lambda>c. c = CHR ''0'') (rev s)
      = replicate (length (takeWhile (\<lambda>c. c = CHR ''0'') (rev s))) CHR ''0''"
    by (rule replicate_eqI) (auto dest: set_takeWhileD)
  ultimately have "s = rev (dropWhile (\<lambda>c. c = CHR ''0'') (rev s))
      @ replicate (length (takeWhile (\<lambda>c. c = CHR ''0'') (rev s))) CHR ''0''"
    by (metis rev_append rev_replicate rev_rev_ident)
  then show ?thesis unfolding trim_zeros_def by blast
qed

lemma digits_value_replicate_zero [simp]: "digits_value (replicate k CHR ''0'') = 0"
  by (induction k) (simp_all add: digits_value_def digit_value_def)

lemma get_fraction_format:
  assumes "n < 10 ^ 9"
  shows "get_fraction (format_fraction n @ ''Z'') = (n, ''Z'')"
proof (cases "n = 0")
  case True
  then show ?thesis by (simp add: format_fraction_def get_fraction_def)
next
  case False
  let ?d = "nine_digits n"
  obtain k where k: "?d = trim_zeros ?d @ replicate k CHR ''0''"
    using trim_zeros_split by blast
  have v: "digits_value (trim_zeros ?d) * 10 ^ k = n"
    using digits_value_nine [OF assms] k digits_value_append [of "trim_zeros ?d" "replicate k CHR ''0''"]
    by simp
  have "trim_zeros ?d \<noteq> []"
    using v False by (auto simp: digits_value_def)
  then obtain c t where c: "trim_zeros ?d = c # t" by (metis neq_Nil_conv)
  have dig: "list_all ascii_digit (c # t)"
    using nine_digits_digit [of n] k c by (metis list_all_append)
  have l: "length (c # t) + k = 9"
    using k c length_nine [of n] by (metis length_append length_replicate)
  have tw: "takeWhile ascii_digit (c # t @ ''Z'') = c # t"
    "dropWhile ascii_digit (c # t @ ''Z'') = ''Z''"
    using takeWhile_digits [OF dig, of "''Z''"] by (simp_all add: span_digits_def ends_number_def ascii_digit_def)
  have "take 9 (c # t) = c # t" "9 - length (c # t) = k"
    using l by simp_all
  with tw dig v c False show ?thesis
    by (simp add: format_fraction_def get_fraction_def Let_def)
qed

lemma expect_self [simp]: "expect c (c # s) = Some s"
  by (simp add: expect_def)

lemma get_zone_Z [simp]: "get_zone ''Z'' = Some (0, [])"
  by (simp add: get_zone_def)

lemma days_in_le: "days_in m y \<le> 31"
  by (simp add: days_in_def)

lemma parse_local_format:
  assumes "valid_civil t" "0 \<le> year t" "year t < 10000"
  shows "parse_local (format_rfc3339_nano t) = Some (t, 0)"
proof -
  from assms(1) have r: "1 \<le> month t" "month t \<le> 12" "day t \<le> 31" "hour t < 24" "minute t < 60"
    "second t < 60" "nano t < 10 ^ 9" "valid_date (year t, month t, day t)"
    using days_in_le [of "month t" "year t"]
    by (auto simp: valid_civil_def valid_date_def)
  note f = get_fraction_format [OF r(7)]
  have fmt: "format_rfc3339_nano t =
      pad_year (year t) @ CHR ''-'' # pad2 (month t) @ CHR ''-'' # pad2 (day t) @ CHR ''T''
       # pad2 (hour t) @ CHR '':'' # pad2 (minute t) @ CHR '':'' # pad2 (second t)
       @ format_fraction (nano t) @ ''Z''"
    by (simp add: format_rfc3339_nano_def format_seconds_def)
  have "int (nat (year t)) = year t" using assms by simp
  then show ?thesis
    unfolding fmt parse_local_def get_year_pad [OF assms(2,3)]
    using r f by (simp add: getnum_pad2 in_range_def)
qed

lemma to_utc_zero: "valid_civil t \<Longrightarrow> to_utc t 0 = t"
proof -
  assume "valid_civil t"
  then have r: "hour t < 24" "minute t < 60" "second t < 60" by (simp_all add: valid_civil_def)
  let ?s = "hour t * 3600 + minute t * 60 + second t"
  have "?s < 86400" using r by simp
  then have d: "int ?s div 86400 = 0" "nat (int ?s mod 86400) = ?s"
    by (simp_all add: nat_mod_distrib)
  have ms: "minute t * 60 + second t < 3600" using r by simp
  have "?s div 3600 = hour t"
    using ms by (metis add.assoc div_less div_mult_self3 add_0_right less_numeral_extra(3) zero_less_numeral)
  moreover have "?s div 60 mod 60 = minute t"
  proof -
    have "?s = (hour t * 60 + minute t) * 60 + second t" by (simp add: algebra_simps)
    then have "?s div 60 = hour t * 60 + minute t" using r(3) by simp
    then show ?thesis using r(2) by simp
  qed
  moreover have "?s mod 60 = second t"
  proof -
    have "?s = second t + (hour t * 60 + minute t) * 60" by (simp add: algebra_simps)
    then show ?thesis using r(3) by (metis mod_less mod_mult_self1)
  qed
  ultimately show ?thesis
    using d by (simp add: to_utc_def Let_def shift_days_def del: of_nat_add of_nat_mult)
qed

lemma parse_format_rfc3339:
  assumes "valid_civil t" "0 \<le> year t" "year t < 10000"
  shows "parse_rfc3339 (format_rfc3339_nano t) = Some t"
  using parse_local_format [OF assms] to_utc_zero [OF assms(1)] by (simp add: parse_rfc3339_def)

section \<open>The instant of a parsed text is a valid civil time\<close>

lemma next_day_valid: "valid_date p \<Longrightarrow> valid_date (next_day p)"
  by (auto simp: valid_date_def next_day_def days_in_def split: if_split_asm)

lemma prev_day_valid: "valid_date p \<Longrightarrow> valid_date (prev_day p)"
proof -
  assume v: "valid_date p"
  obtain y m d where p: "p = (y, m, d)" using prod_cases3 by blast
  have pos: "1 \<le> days_in m y" for m y by (simp add: days_in_def)
  have dec: "days_in 12 y = 31" for y by (simp add: days_in_def)
  show ?thesis
  proof (cases "1 < d")
    case True
    with v p show ?thesis by (auto simp: valid_date_def prev_day_def)
  next
    case False
    with v p pos [of "m - 1" y] dec [of "y - 1"] show ?thesis
      by (cases "1 < m") (auto simp: valid_date_def prev_day_def)
  qed
qed

lemma shift_days_valid: "valid_date p \<Longrightarrow> valid_date (shift_days k p)"
proof -
  assume v: "valid_date p"
  have "valid_date ((next_day ^^ n) p)" "valid_date ((prev_day ^^ n) p)" for n
    using v by (induction n) (auto intro: next_day_valid prev_day_valid)
  then show ?thesis by (simp add: shift_days_def)
qed

lemma to_utc_valid:
  assumes "valid_date (year t, month t, day t)" "nano t < 10 ^ 9"
  shows "valid_civil (to_utc t off)"
proof -
  let ?secs = "int (hour t * 3600 + minute t * 60 + second t) - off"
  let ?s = "nat (?secs mod 86400)"
  obtain y m d where ymd: "shift_days (?secs div 86400) (year t, month t, day t) = (y, m, d)"
    using prod_cases3 by blast
  then have "valid_date (y, m, d)"
    using shift_days_valid [OF assms(1)] by metis
  moreover have "?s < 86400" by simp
  then have "?s div 3600 < 24" by (simp only: less_mult_imp_div_less)
  ultimately show ?thesis
    using assms(2) ymd by (simp add: to_utc_def Let_def valid_civil_def)
qed

lemma digits_value_bound: "list_all ascii_digit s \<Longrightarrow> digits_value s < 10 ^ length s"
proof (induction s rule: rev_induct)
  case (snoc c s)
  then have "digit_value c < 10" "digits_value s < 10 ^ length s"
    by (auto simp: digit_value_def ascii_digit_def)
  then show ?case by (simp add: digits_value_snoc)
qed (simp add: digits_value_def)

lemma get_fraction_bound: "get_fraction s = (n, r) \<Longrightarrow> n < 10 ^ 9"
proof -
  assume a: "get_fraction s = (n, r)"
  have main: "digits_value u * 10 ^ (9 - length u) < 10 ^ 9"
    if "list_all ascii_digit u" "length u \<le> 9" for u
  proof -
    have "digits_value u * 10 ^ (9 - length u) < 10 ^ length u * 10 ^ (9 - length u)"
      using digits_value_bound [OF that(1)] by simp
    also have "\<dots> = 10 ^ 9" using that(2) by (simp flip: power_add)
    finally show ?thesis .
  qed
  have tw: "list_all ascii_digit (take 9 (takeWhile ascii_digit x))" for x
    by (auto simp: list_all_iff dest: in_set_takeD set_takeWhileD)
  from a show ?thesis
    using main [OF tw]
    by (auto simp: get_fraction_def Let_def simp del: takeWhile.simps split: list.splits if_splits)
qed

lemma parse_local_facts:
  "parse_local s = Some (l, off) \<Longrightarrow>
     valid_date (year l, month l, day l) \<and> (\<exists>u. nano l = fst (get_fraction u))"
  by (auto simp: parse_local_def bind_eq_Some_conv case_prod_unfold split: if_split_asm)

lemma parse_rfc3339_valid: "parse_rfc3339 s = Some t \<Longrightarrow> valid_civil t"
proof -
  assume "parse_rfc3339 s = Some t"
  then obtain l off where l: "parse_local s = Some (l, off)" "t = to_utc l off"
    by (auto simp: parse_rfc3339_def)
  then show ?thesis
    using parse_local_facts [OF l(1)] get_fraction_bound to_utc_valid
    by (metis prod.collapse)
qed

end
