(* ===== verification/Base64.thy ===== *)
theory Base64
  imports GoStrings
begin

text \<open>
  Go's \<open>base64.RawURLEncoding\<close>: the URL alphabet without padding.  The decoder skips CR and LF,
  rejects any other foreign character and a final group of one character, and ignores the
  unused low bits of a final group, as the library does.
\<close>

definition b64_alphabet :: string where
  "b64_alphabet = ''ABCDEFGHIJKLMNOPQRSTUVWXYZabcdefghijklmnopqrstuvwxyz0123456789-_''"

definition b64_char :: "nat \<Rightarrow> char" where
  "b64_char n = b64_alphabet ! n"

definition b64_value :: "char \<Rightarrow> nat option" where
  "b64_value c =
     (if 65 \<le> byte c \<and> byte c \<le> 90 then Some (byte c - 65)
      else if 97 \<le> byte c \<and> byte c \<le> 122 then Some (byte c - 71)
      else if 48 \<le> byte c \<and> byte c \<le> 57 then Some (byte c + 4)
      else if c = CHR ''-'' then Some 62
      else if c = CHR ''_'' then Some 63
      else None)"

fun b64_encode :: "bytes \<Rightarrow> string" where
  "b64_encode [] = []"
| "b64_encode [a] = [b64_char (byte a div 4), b64_char (byte a mod 4 * 16)]"
| "b64_encode [a, b] =
     [b64_char (byte a div 4), b64_char (byte a mod 4 * 16 + byte b div 16),
      b64_char (byte b mod 16 * 4)]"
| "b64_encode (a # b # c # rest) =
     b64_char (byte a div 4) # b64_char (byte a mod 4 * 16 + byte b div 16)
     # b64_char (byte b mod 16 * 4 + byte c div 64) # b64_char (byte c mod 64)
     # b64_encode rest"

fun b64_quanta :: "nat list \<Rightarrow> bytes option" where
  "b64_quanta [] = Some []"
| "b64_quanta [_] = None"
| "b64_quanta [p, q] = Some [char_of (p * 4 + q div 16)]"
| "b64_quanta [p, q, r] = Some [char_of (p * 4 + q div 16), char_of (q mod 16 * 16 + r div 4)]"
| "b64_quanta (p # q # r # s # rest) =
     map_option (\<lambda>bs. char_of (p * 4 + q div 16) # char_of (q mod 16 * 16 + r div 4)
       # char_of (r mod 4 * 64 + s) # bs) (b64_quanta rest)"

fun b64_values :: "string \<Rightarrow> nat list option" where
  "b64_values [] = Some []"
| "b64_values (c # cs) =
     (if byte c = 10 \<or> byte c = 13 then b64_values cs
      else (case b64_value c of None \<Rightarrow> None | Some v \<Rightarrow> map_option ((#) v) (b64_values cs)))"

definition b64_decode :: "string \<Rightarrow> bytes option" where
  "b64_decode s = Option.bind (b64_values s) b64_quanta"

lemma b64_char_facts:
  assumes "n < 64"
  shows "b64_value (b64_char n) = Some n" "byte (b64_char n) \<noteq> 10" "byte (b64_char n) \<noteq> 13"
    "byte (b64_char n) < 128"
proof -
  have v: "map b64_value b64_alphabet = map Some [0..<64]"
    by code_simp
  have l: "length b64_alphabet = 64"
    by (simp add: b64_alphabet_def)
  have a: "list_all (\<lambda>c. byte c \<noteq> 10 \<and> byte c \<noteq> 13 \<and> byte c < 128) b64_alphabet"
    by code_simp
  have n: "b64_char n \<in> set b64_alphabet"
    using assms l by (simp add: b64_char_def)
  show "b64_value (b64_char n) = Some n"
    using arg_cong [OF v, of "\<lambda>xs. xs ! n"] assms l by (simp add: b64_char_def)
  show "byte (b64_char n) \<noteq> 10" "byte (b64_char n) \<noteq> 13" "byte (b64_char n) < 128"
    using a n by (simp_all only: list_all_iff) blast+
qed

lemma b64_values_char:
  "n < 64 \<Longrightarrow> b64_values (b64_char n # s) = map_option ((#) n) (b64_values s)"
  by (simp add: b64_char_facts)

lemma sextets:
  "byte a div 4 < 64" "byte a mod 4 * 16 < 64" "byte a mod 4 * 16 + byte b div 16 < 64"
  "byte b mod 16 * 4 < 64" "byte b mod 16 * 4 + byte c div 64 < 64" "byte c mod 64 < 64"
proof -
  note b = byte_less [of a] byte_less [of b] byte_less [of c]
  show "byte a div 4 < 64" using b by (simp add: less_mult_imp_div_less)
  have m: "byte a mod 4 < 4" "byte b mod 16 < 16" "byte c mod 64 < 64" by simp_all
  have d: "byte b div 16 < 16" "byte c div 64 < 4"
    using b by (simp_all add: less_mult_imp_div_less)
  from m d show "byte a mod 4 * 16 < 64" "byte a mod 4 * 16 + byte b div 16 < 64"
    "byte b mod 16 * 4 < 64" "byte b mod 16 * 4 + byte c div 64 < 64" "byte c mod 64 < 64"
    by linarith+
qed

text \<open>Reassembling the octets from the sextets.\<close>

lemma octets:
  "char_of (byte a div 4 * 4 + (byte a mod 4 * 16 + byte b div 16) div 16) = a"
  "char_of (byte a div 4 * 4 + byte a mod 4 * 16 div 16) = a"
  "char_of ((byte a mod 4 * 16 + byte b div 16) mod 16 * 16 + (byte b mod 16 * 4 + byte c div 64) div 4) = b"
  "char_of ((byte a mod 4 * 16 + byte b div 16) mod 16 * 16 + byte b mod 16 * 4 div 4) = b"
  "char_of ((byte b mod 16 * 4 + byte c div 64) mod 4 * 64 + byte c mod 64) = c"
proof -
  have db: "byte b div 16 < 16" "byte c div 64 < 4"
    using byte_less [of b] byte_less [of c] by (simp_all add: less_mult_imp_div_less)
  have "byte a div 4 * 4 + (byte a mod 4 * 16 + byte b div 16) div 16 = byte a"
    using db by simp
  then show "char_of (byte a div 4 * 4 + (byte a mod 4 * 16 + byte b div 16) div 16) = a" by simp
  have "byte a div 4 * 4 + byte a mod 4 * 16 div 16 = byte a" by simp
  then show "char_of (byte a div 4 * 4 + byte a mod 4 * 16 div 16) = a" by simp
  have m: "(byte a mod 4 * 16 + byte b div 16) mod 16 = byte b div 16"
    using db by simp
  have "byte b div 16 * 16 + (byte b mod 16 * 4 + byte c div 64) div 4 = byte b"
    using db by simp
  then show "char_of ((byte a mod 4 * 16 + byte b div 16) mod 16 * 16
      + (byte b mod 16 * 4 + byte c div 64) div 4) = b"
    by (simp only: m) simp
  have "byte b div 16 * 16 + byte b mod 16 * 4 div 4 = byte b" by simp
  then show "char_of ((byte a mod 4 * 16 + byte b div 16) mod 16 * 16 + byte b mod 16 * 4 div 4) = b"
    by (simp only: m) simp
  have "(byte b mod 16 * 4 + byte c div 64) mod 4 = byte c div 64"
    using db by simp
  then have "(byte b mod 16 * 4 + byte c div 64) mod 4 * 64 + byte c mod 64 = byte c"
    by simp
  then show "char_of ((byte b mod 16 * 4 + byte c div 64) mod 4 * 64 + byte c mod 64) = c"
    by simp
qed

lemma b64_decode_encode: "b64_decode (b64_encode s) = Some s"
proof -
  have "\<exists>vs. b64_values (b64_encode s) = Some vs \<and> b64_quanta vs = Some s"
  proof (induction s rule: b64_encode.induct)
    case (2 a)
    have "b64_values (b64_encode [a]) = Some [byte a div 4, byte a mod 4 * 16]"
      by (simp add: b64_values_char sextets del: b64_values.simps(2))
    then show ?case
      by (simp only: b64_quanta.simps octets option.inject ex_simps simp_thms)
  next
    case (3 a b)
    have "b64_values (b64_encode [a, b]) =
        Some [byte a div 4, byte a mod 4 * 16 + byte b div 16, byte b mod 16 * 4]"
      by (simp add: b64_values_char sextets del: b64_values.simps(2))
    then show ?case
      by (simp only: b64_quanta.simps octets option.inject ex_simps simp_thms)
  next
    case (4 a b c rest)
    then obtain vs where "b64_values (b64_encode rest) = Some vs" "b64_quanta vs = Some rest"
      by blast
    moreover from this have "b64_values (b64_encode (a # b # c # rest)) =
        Some ((byte a div 4) # (byte a mod 4 * 16 + byte b div 16)
          # (byte b mod 16 * 4 + byte c div 64) # (byte c mod 64) # vs)"
      by (simp add: b64_values_char sextets del: b64_values.simps(2))
    ultimately show ?case
      by (simp only: b64_quanta.simps octets option.map option.inject ex_simps simp_thms)
  qed simp
  then show ?thesis by (auto simp: b64_decode_def)
qed

lemma length_b64_encode: "length (b64_encode s) = (8 * length s + 5) div 6"
  by (induction s rule: b64_encode.induct) auto

end
