(* ===== verification/Backend.thy ===== *)
theory Backend
  imports Rpc GoTime Base64 Policy
begin

text \<open>
  \<open>internal/backend\<close>: the rows the \<open>imsg\<close> backend prints, decoding them, the bounded reader of
  its output, the loop that consumes a run, and the four operations of the \<open>Service\<close> interface on
  a \<open>Process\<close>.  The environment of one run is a \<open>run_env\<close>: what the file system shows before and
  after it, and what the started command lets the loop observe.  An operation is \<open>None\<close> while the
  environment has not yet made it return.
\<close>

section \<open>Rows\<close>

record raw_chat =
  rc_id :: int64
  rc_identifier :: string
  rc_guid :: string
  rc_service :: string
  rc_account_id :: "string option"
  rc_is_group :: "bool option"
  rc_participants :: "string list option"

record raw_message =
  rm_id :: int64
  rm_chat_id :: int64
  rm_guid :: string
  rm_sender :: string
  rm_is_from_me :: "bool option"
  rm_text :: string
  rm_created_at :: string
  rm_chat_identifier :: string
  rm_chat_guid :: string
  rm_is_group :: "bool option"
  rm_participants :: "string list option"

definition zero_chat :: raw_chat where
  "zero_chat = \<lparr>rc_id = 0, rc_identifier = [], rc_guid = [], rc_service = [],
     rc_account_id = None, rc_is_group = None, rc_participants = None\<rparr>"

definition zero_message :: raw_message where
  "zero_message = \<lparr>rm_id = 0, rm_chat_id = 0, rm_guid = [], rm_sender = [], rm_is_from_me = None,
     rm_text = [], rm_created_at = [], rm_chat_identifier = [], rm_chat_guid = [],
     rm_is_group = None, rm_participants = None\<rparr>"

definition Conversation :: "raw_message \<Rightarrow> raw_chat" where
  "Conversation m = \<lparr>rc_id = rm_chat_id m, rc_identifier = rm_chat_identifier m,
     rc_guid = rm_chat_guid m, rc_service = [], rc_account_id = None,
     rc_is_group = rm_is_group m, rc_participants = rm_participants m\<rparr>"

text \<open>A pointer to a slice of strings: \<open>null\<close> clears the pointer.\<close>

definition dec_strings :: "string list option \<Rightarrow> json \<Rightarrow> string list option option" where
  "dec_strings old v = dec_slice dec_string [] old v"

text \<open>Storing one member; \<open>strict\<close> is \<open>DisallowUnknownFields\<close>.\<close>

definition raw_chat_step :: "bool \<Rightarrow> raw_chat \<Rightarrow> string \<Rightarrow> json \<Rightarrow> raw_chat option" where
  "raw_chat_step strict r k v =
     (if key_is ''id'' k then map_option (\<lambda>x. r\<lparr>rc_id := x\<rparr>) (dec_int (rc_id r) v)
      else if key_is ''identifier'' k
      then map_option (\<lambda>x. r\<lparr>rc_identifier := x\<rparr>) (dec_string (rc_identifier r) v)
      else if key_is ''guid'' k then map_option (\<lambda>x. r\<lparr>rc_guid := x\<rparr>) (dec_string (rc_guid r) v)
      else if key_is ''service'' k then map_option (\<lambda>x. r\<lparr>rc_service := x\<rparr>) (dec_string (rc_service r) v)
      else if key_is ''account_id'' k
      then map_option (\<lambda>x. r\<lparr>rc_account_id := x\<rparr>) (dec_pointer dec_string [] (rc_account_id r) v)
      else if key_is ''is_group'' k
      then map_option (\<lambda>x. r\<lparr>rc_is_group := x\<rparr>) (dec_pointer dec_bool False (rc_is_group r) v)
      else if key_is ''participants'' k
      then map_option (\<lambda>x. r\<lparr>rc_participants := x\<rparr>) (dec_strings (rc_participants r) v)
      else if strict then None else Some r)"

definition raw_message_step :: "bool \<Rightarrow> raw_message \<Rightarrow> string \<Rightarrow> json \<Rightarrow> raw_message option" where
  "raw_message_step strict r k v =
     (if key_is ''id'' k then map_option (\<lambda>x. r\<lparr>rm_id := x\<rparr>) (dec_int (rm_id r) v)
      else if key_is ''chat_id'' k then map_option (\<lambda>x. r\<lparr>rm_chat_id := x\<rparr>) (dec_int (rm_chat_id r) v)
      else if key_is ''guid'' k then map_option (\<lambda>x. r\<lparr>rm_guid := x\<rparr>) (dec_string (rm_guid r) v)
      else if key_is ''sender'' k then map_option (\<lambda>x. r\<lparr>rm_sender := x\<rparr>) (dec_string (rm_sender r) v)
      else if key_is ''is_from_me'' k
      then map_option (\<lambda>x. r\<lparr>rm_is_from_me := x\<rparr>) (dec_pointer dec_bool False (rm_is_from_me r) v)
      else if key_is ''text'' k then map_option (\<lambda>x. r\<lparr>rm_text := x\<rparr>) (dec_string (rm_text r) v)
      else if key_is ''created_at'' k
      then map_option (\<lambda>x. r\<lparr>rm_created_at := x\<rparr>) (dec_string (rm_created_at r) v)
      else if key_is ''chat_identifier'' k
      then map_option (\<lambda>x. r\<lparr>rm_chat_identifier := x\<rparr>) (dec_string (rm_chat_identifier r) v)
      else if key_is ''chat_guid'' k
      then map_option (\<lambda>x. r\<lparr>rm_chat_guid := x\<rparr>) (dec_string (rm_chat_guid r) v)
      else if key_is ''is_group'' k
      then map_option (\<lambda>x. r\<lparr>rm_is_group := x\<rparr>) (dec_pointer dec_bool False (rm_is_group r) v)
      else if key_is ''participants'' k
      then map_option (\<lambda>x. r\<lparr>rm_participants := x\<rparr>) (dec_strings (rm_participants r) v)
      else if strict then None else Some r)"

text \<open>\<open>decodeLine\<close>: exactly one JSON value per line, unknown fields ignored.\<close>

definition decodeLine :: "('r \<Rightarrow> string \<Rightarrow> json \<Rightarrow> 'r option) \<Rightarrow> 'r \<Rightarrow> bytes \<Rightarrow> 'r option" where
  "decodeLine step zero line =
     (case read_value line of
        None \<Rightarrow> None
      | Some (v, rest) \<Rightarrow>
          (case decode_struct step zero v of
             None \<Rightarrow> None
           | Some r \<Rightarrow> if skip_ws rest = [] then Some r else None))"

section \<open>Reading the output of the command\<close>

definition maxBackendLineBytes :: nat where "maxBackendLineBytes = 2 * 1024 * 1024"
definition maxBackendOutputBytes :: nat where "maxBackendOutputBytes = 64 * 1024 * 1024"

abbreviation newline :: char where "newline \<equiv> CHR 0x0A"
abbreviation carriage_return :: char where "carriage_return \<equiv> CHR 0x0D"

text \<open>\<open>bufio.Scanner\<close> with \<open>ScanLines\<close>: the lines without their end marker, and whether the scan
  stopped at a line that does not fit the buffer.\<close>

definition drop_cr :: "bytes \<Rightarrow> bytes" where
  "drop_cr l = (if l \<noteq> [] \<and> last l = carriage_return then butlast l else l)"

function scan_tokens :: "nat \<Rightarrow> bytes \<Rightarrow> bytes list \<times> bool" where
  "scan_tokens limit s =
     (if s = [] then ([], False)
      else
        let l = takeWhile (\<lambda>c. c \<noteq> newline) s in
        if limit \<le> length l then ([], True)
        else (case scan_tokens limit (drop (Suc (length l)) s) of
            (ls, too_long) \<Rightarrow> (drop_cr l # ls, too_long)))"
  by pat_completeness auto
termination by (relation "measure (\<lambda>(limit, s). length s)") auto

declare scan_tokens.simps [simp del]

text \<open>The reader's loop: every line counts against the output bound, blank lines are not sent.\<close>

fun emit_lines :: "nat \<Rightarrow> bytes list \<Rightarrow> bytes list \<times> bool" where
  "emit_lines tot [] = ([], False)"
| "emit_lines tot (l # ls) =
     (let tot = tot + length l + 1 in
      if tot > maxBackendOutputBytes then ([], True)
      else (case emit_lines tot ls of
          (sent, overflow) \<Rightarrow> (if trim_space l = [] then sent else l # sent, overflow)))"

datatype backend_error = ErrFailed | ErrOverflow | ErrUnsupported | DeadlineExceeded | Canceled

text \<open>An error is the list of the sentinels it wraps; \<open>errors.Is\<close> is membership.\<close>

type_synonym berr = "backend_error list"

datatype read_error = ReadOverflow | ReadTooLong | ReadIO

datatype stream_event = Line bytes | Final "read_error option" bool

text \<open>All events of a stream whose reader is never interrupted: \<open>read_ok\<close> says that the pipe ended
  without an I/O error, \<open>exit_ok\<close> that the process exited successfully.\<close>

definition stream_events :: "bytes \<Rightarrow> bool \<Rightarrow> bool \<Rightarrow> stream_event list" where
  "stream_events stdout read_ok exit_ok =
     (case scan_tokens maxBackendLineBytes stdout of (tokens, too_long) \<Rightarrow>
        (case emit_lines 0 tokens of (sent, overflow) \<Rightarrow>
           map Line sent @
             [Final (if overflow then Some ReadOverflow else if too_long then Some ReadTooLong
                     else if read_ok then None else Some ReadIO) exit_ok]))"

section \<open>One run\<close>

text \<open>What one \<open>select\<close> of the loop observes; each comes with the value of \<open>ctx.Err()\<close> at that
  moment.\<close>

datatype observation =
    Received stream_event "backend_error option"
  | EventsClosed "backend_error option"
  | CtxDone backend_error

record fs_view =
  fs_owner_ok :: "string \<Rightarrow> bool \<Rightarrow> bool"
  fs_stat :: "string \<Rightarrow> (int \<times> int) option"

record run_env =
  re_before :: fs_view
  re_start :: "string list \<Rightarrow> observation list option"
  re_after :: fs_view

record process =
  pr_path :: string
  pr_database :: string
  pr_generation :: string
  pr_identity :: string
  pr_bounded_collection :: bool
  pr_account_id :: string

definition databaseIdentity :: "fs_view \<Rightarrow> string \<Rightarrow> string option" where
  "databaseIdentity v path =
     map_option (\<lambda>(dev, ino). print_int dev @ '':'' @ print_int ino) (fs_stat v path)"

definition checkIdentity :: "process \<Rightarrow> fs_view \<Rightarrow> berr + unit" where
  "checkIdentity p v =
     (if \<not> fs_owner_ok v (pr_database p) False then Inl [ErrFailed]
      else if \<not> fs_owner_ok v (pr_path p) True then Inl [ErrFailed]
      else (case databaseIdentity v (pr_database p) of
          None \<Rightarrow> Inl [ErrFailed]
        | Some current \<Rightarrow> if current \<noteq> pr_identity p then Inl [ErrFailed] else Inr ()))"

fun stream_loop ::
  "(bytes \<Rightarrow> 's \<Rightarrow> 's option) \<Rightarrow> int \<Rightarrow> (berr + unit) \<Rightarrow> int \<Rightarrow> observation list \<Rightarrow> 's \<Rightarrow> (berr + 's) option" where
  "stream_loop handle maxRows final_check count [] s = None"
| "stream_loop handle maxRows final_check count (CtxDone e # obs) s = Some (Inl [ErrFailed, e])"
| "stream_loop handle maxRows final_check count (EventsClosed ctx_err # obs) s =
     Some (Inl (ErrFailed # option_list ctx_err))"
| "stream_loop handle maxRows final_check count (Received ev ctx_err # obs) s =
     (if ctx_err \<noteq> None then Some (Inl (ErrFailed # option_list ctx_err))
      else (case ev of
          Final read_err exit_ok \<Rightarrow>
            if read_err \<noteq> None \<or> \<not> exit_ok then Some (Inl [ErrFailed])
            else (case final_check of Inl e \<Rightarrow> Some (Inl e) | Inr _ \<Rightarrow> Some (Inr s))
        | Line line \<Rightarrow>
            let count = count + 1 in
            if count > maxRows then Some (Inl [ErrFailed])
            else (case handle line s of
                None \<Rightarrow> Some (Inl [ErrFailed])
              | Some s' \<Rightarrow> stream_loop handle maxRows final_check count obs s')))"

definition run ::
  "process \<Rightarrow> run_env \<Rightarrow> string list \<Rightarrow> int \<Rightarrow> (bytes \<Rightarrow> 's \<Rightarrow> 's option) \<Rightarrow> 's \<Rightarrow> (berr + 's) option" where
  "run p env args maxRows handle s =
     (case checkIdentity p (re_before env) of
        Inl e \<Rightarrow> Some (Inl e)
      | Inr _ \<Rightarrow>
          (case re_start env args of
             None \<Rightarrow> Some (Inl [ErrFailed])
           | Some obs \<Rightarrow> stream_loop handle maxRows (checkIdentity p (re_after env)) 0 obs s))"

text \<open>The handler of the three row listings: decode the line and append it.\<close>

definition append_row :: "(bytes \<Rightarrow> 'r option) \<Rightarrow> bytes \<Rightarrow> 'r list \<Rightarrow> 'r list option" where
  "append_row decode line rows = map_option (\<lambda>row. rows @ [row]) (decode line)"

definition decode_chat :: "bytes \<Rightarrow> raw_chat option" where
  "decode_chat = decodeLine (raw_chat_step False) zero_chat"

definition decode_message :: "bytes \<Rightarrow> raw_message option" where
  "decode_message = decodeLine (raw_message_step False) zero_message"

definition ListChats :: "process \<Rightarrow> run_env \<Rightarrow> int \<Rightarrow> (berr + raw_chat list) option" where
  "ListChats p env limit =
     run p env [''chats'', ''--db'', pr_database p, ''--limit'', print_int limit, ''--json'']
       limit (append_row decode_chat) []"

definition Chat :: "process \<Rightarrow> run_env \<Rightarrow> int64 \<Rightarrow> (berr + raw_chat) option" where
  "Chat p env chatID =
     map_option (\<lambda>r. case r of Inl e \<Rightarrow> Inl e | Inr rows \<Rightarrow> (case rows of [row] \<Rightarrow> Inr row | _ \<Rightarrow> Inl [ErrFailed]))
       (run p env [''group'', ''--db'', pr_database p, ''--chat-id'', print_int chatID, ''--json'']
          1 (append_row decode_chat) [])"

definition History :: "process \<Rightarrow> run_env \<Rightarrow> int64 \<Rightarrow> int \<Rightarrow> (berr + raw_message list) option" where
  "History p env chatID limit =
     run p env [''history'', ''--db'', pr_database p, ''--chat-id'', print_int chatID,
         ''--limit'', print_int limit, ''--json'']
       limit (append_row decode_message) []"

section \<open>Collection\<close>

record collection_row =
  cw_row_id :: int64
  cw_message :: "raw_message option"
  cw_chat :: "raw_chat option"

record collection_page =
  pg_rows :: "collection_row list"
  pg_through :: int64
  pg_scanned :: int64
  pg_complete :: bool

record collection_event =
  ev_kind :: string
  ev_row_id :: "int64 option"
  ev_message :: "raw_message option"
  ev_chat :: "raw_chat option"
  ev_schema :: string
  ev_through :: "int64 option"
  ev_scanned :: "int64 option"
  ev_complete :: "bool option"

definition zero_event :: collection_event where
  "zero_event = \<lparr>ev_kind = [], ev_row_id = None, ev_message = None, ev_chat = None, ev_schema = [],
     ev_through = None, ev_scanned = None, ev_complete = None\<rparr>"

definition zero_page :: collection_page where
  "zero_page = \<lparr>pg_rows = [], pg_through = 0, pg_scanned = 0, pg_complete = False\<rparr>"

definition event_step :: "collection_event \<Rightarrow> string \<Rightarrow> json \<Rightarrow> collection_event option" where
  "event_step r k v =
     (if key_is ''kind'' k then map_option (\<lambda>x. r\<lparr>ev_kind := x\<rparr>) (dec_string (ev_kind r) v)
      else if key_is ''row_id'' k
      then map_option (\<lambda>x. r\<lparr>ev_row_id := x\<rparr>) (dec_pointer dec_int 0 (ev_row_id r) v)
      else if key_is ''message'' k
      then map_option (\<lambda>x. r\<lparr>ev_message := x\<rparr>)
             (dec_pointer (decode_struct (raw_message_step True)) zero_message (ev_message r) v)
      else if key_is ''chat'' k
      then map_option (\<lambda>x. r\<lparr>ev_chat := x\<rparr>)
             (dec_pointer (decode_struct (raw_chat_step True)) zero_chat (ev_chat r) v)
      else if key_is ''schema'' k then map_option (\<lambda>x. r\<lparr>ev_schema := x\<rparr>) (dec_string (ev_schema r) v)
      else if key_is ''through_row_id'' k
      then map_option (\<lambda>x. r\<lparr>ev_through := x\<rparr>) (dec_pointer dec_int 0 (ev_through r) v)
      else if key_is ''scanned_through_row_id'' k
      then map_option (\<lambda>x. r\<lparr>ev_scanned := x\<rparr>) (dec_pointer dec_int 0 (ev_scanned r) v)
      else if key_is ''complete'' k
      then map_option (\<lambda>x. r\<lparr>ev_complete := x\<rparr>) (dec_pointer dec_bool False (ev_complete r) v)
      else None)"

definition decode_event :: "bytes \<Rightarrow> collection_event option" where
  "decode_event = decodeLine event_step zero_event"

text \<open>One line of a collection: the page so far and whether the checkpoint was seen.\<close>

definition collect_line ::
  "bytes \<Rightarrow> collection_page \<times> bool \<Rightarrow> (collection_page \<times> bool) option" where
  "collect_line line st = (case st of (page, checkpoint) \<Rightarrow>
     (case decode_event line of
        None \<Rightarrow> None
      | Some event \<Rightarrow>
          if checkpoint then None
          else if ev_kind event = ''row'' then
            (case ev_row_id event of
               None \<Rightarrow> None
             | Some row_id \<Rightarrow>
                 if ev_schema event \<noteq> [] \<or> ev_through event \<noteq> None \<or> ev_scanned event \<noteq> None
                    \<or> ev_complete event \<noteq> None
                 then None
                 else Some (page\<lparr>pg_rows := pg_rows page @
                     [\<lparr>cw_row_id = row_id, cw_message = ev_message event, cw_chat = ev_chat event\<rparr>]\<rparr>,
                   checkpoint))
          else if ev_kind event = ''checkpoint'' then
            (if ev_row_id event \<noteq> None \<or> ev_message event \<noteq> None \<or> ev_chat event \<noteq> None
                \<or> ev_schema event \<noteq> ''safe-imsg.collect.v1''
             then None
             else (case (ev_through event, ev_scanned event, ev_complete event) of
                 (Some t, Some sc, Some c) \<Rightarrow>
                   Some (page\<lparr>pg_through := t, pg_scanned := sc, pg_complete := c\<rparr>, True)
               | _ \<Rightarrow> None))
          else None))"

text \<open>\<open>ValidateCollectionPage\<close>, true when it returns no error; the loop returns the last row id.\<close>

fun check_rows :: "int64 \<Rightarrow> int64 \<Rightarrow> collection_row list \<Rightarrow> int64 option" where
  "check_rows through prev [] = Some prev"
| "check_rows through prev (row # rows) =
     (if cw_row_id row \<le> prev \<or> cw_row_id row > through
         \<or> (cw_message row = None) \<noteq> (cw_chat row = None) then None
      else (case (cw_message row, cw_chat row) of
          (Some m, Some c) \<Rightarrow>
            if rm_id m \<noteq> cw_row_id row \<or> rc_id c \<noteq> rm_chat_id m then None
            else check_rows through (cw_row_id row) rows
        | _ \<Rightarrow> check_rows through (cw_row_id row) rows))"

definition ValidateCollectionPage :: "collection_page \<Rightarrow> int64 \<Rightarrow> int64 \<Rightarrow> int \<Rightarrow> bool" where
  "ValidateCollectionPage page after through limit =
     (if pg_through page < after \<or> (through \<noteq> 0 \<and> pg_through page \<noteq> through)
         \<or> int (length (pg_rows page)) > limit then False
      else (case check_rows (pg_through page) after (pg_rows page) of
          None \<Rightarrow> False
        | Some prev \<Rightarrow>
            if pg_complete page then pg_scanned page = pg_through page
            else \<not> (int (length (pg_rows page)) \<noteq> limit \<or> prev \<le> after \<or> prev \<ge> pg_through page
                    \<or> pg_scanned page \<noteq> prev)))"

definition collect_args :: "process \<Rightarrow> int64 \<Rightarrow> int64 \<Rightarrow> int \<Rightarrow> string \<Rightarrow> string list" where
  "collect_args p afterRowID throughRowID limit notBefore =
     [''collect'', ''--db'', pr_database p, ''--since-rowid'', print_int afterRowID,
      ''--limit'', print_int limit, ''--account-id'', pr_account_id p, ''--json'']
     @ (if throughRowID \<noteq> 0 then [''--through-rowid'', print_int throughRowID] else [])
     @ (if notBefore \<noteq> [] then [''--not-before'', notBefore] else [])"

definition Collect ::
  "process \<Rightarrow> run_env \<Rightarrow> int64 \<Rightarrow> int64 \<Rightarrow> int \<Rightarrow> string \<Rightarrow> (berr + collection_page) option" where
  "Collect p env afterRowID throughRowID limit notBefore =
     (if \<not> pr_bounded_collection p then Some (Inl [ErrUnsupported])
      else if afterRowID < 0 \<or> throughRowID < 0 \<or> (throughRowID \<noteq> 0 \<and> throughRowID < afterRowID)
         \<or> limit < 1 \<or> limit > 1000
         \<or> (notBefore \<noteq> [] \<and> \<not> ((afterRowID = 0 \<and> throughRowID = 0) \<or> (afterRowID > 0 \<and> throughRowID > 0)))
      then Some (Inl [ErrFailed])
      else if notBefore \<noteq> [] \<and> parse_rfc3339 notBefore = None then Some (Inl [ErrFailed])
      else map_option (\<lambda>r. case r of
            Inl e \<Rightarrow> Inl e
          | Inr (page, checkpoint) \<Rightarrow>
              if \<not> checkpoint \<or> \<not> ValidateCollectionPage page afterRowID throughRowID limit
              then Inl [ErrFailed] else Inr page)
        (run p env (collect_args p afterRowID throughRowID limit notBefore) (limit + 1)
           collect_line (zero_page, False)))"

section \<open>Starting the backend\<close>

text \<open>\<open>cappedBuffer\<close>: a write that does not fit is refused and ends the copying.\<close>

fun capped_write :: "nat \<Rightarrow> bytes \<Rightarrow> bytes list \<Rightarrow> bytes \<times> bool" where
  "capped_write limit buffer [] = (buffer, True)"
| "capped_write limit buffer (chunk # chunks) =
     (if length chunk > limit - length buffer then (buffer, False)
      else capped_write limit (buffer @ chunk) chunks)"

text \<open>\<open>checkVersion\<close>: the chunks the command wrote, whether it succeeded, whether the three seconds
  were over.\<close>

definition checkVersion :: "bytes list \<Rightarrow> bool \<Rightarrow> bool \<Rightarrow> string \<Rightarrow> bool" where
  "checkVersion chunks exit_ok expired expected =
     (case capped_write 256 [] chunks of (output, copied) \<Rightarrow>
        copied \<and> exit_ok \<and> \<not> expired \<and> trim_space output = expected)"

text \<open>The generation that names one account on one database file; SHA-256 is a parameter.\<close>

definition generation_of :: "(bytes \<Rightarrow> bytes) \<Rightarrow> string \<Rightarrow> string \<Rightarrow> string \<Rightarrow> string \<Rightarrow> string" where
  "generation_of sha256 account backend_account database_generation identity =
     ''dbgen_'' @ b64_encode (take 18 (sha256 (account @ [CHR 0x00] @ backend_account @ [CHR 0x00]
        @ database_generation @ [CHR 0x00] @ identity)))"

section \<open>Validated pages\<close>

definition coherent_row :: "collection_row \<Rightarrow> bool" where
  "coherent_row row \<longleftrightarrow> (case (cw_message row, cw_chat row) of
      (None, None) \<Rightarrow> True
    | (Some m, Some c) \<Rightarrow> rm_id m = cw_row_id row \<and> rc_id c = rm_chat_id m
    | _ \<Rightarrow> False)"

text \<open>What a page promises: strictly ascending rows above \<open>after\<close> and within the pinned boundary,
  and a checkpoint that is the boundary, or the last row of a full page short of it.\<close>

definition page_ok :: "collection_page \<Rightarrow> int64 \<Rightarrow> int64 \<Rightarrow> int \<Rightarrow> bool" where
  "page_ok page after through limit \<longleftrightarrow>
     after \<le> pg_through page \<and> (through = 0 \<or> pg_through page = through)
     \<and> int (length (pg_rows page)) \<le> limit
     \<and> sorted_wrt (<) (map cw_row_id (pg_rows page))
     \<and> (\<forall>row \<in> set (pg_rows page). after < cw_row_id row \<and> cw_row_id row \<le> pg_through page
          \<and> coherent_row row)
     \<and> (if pg_complete page then pg_scanned page = pg_through page
        else int (length (pg_rows page)) = limit \<and> pg_rows page \<noteq> []
          \<and> pg_scanned page = cw_row_id (last (pg_rows page)) \<and> pg_scanned page < pg_through page)"

lemma check_rows_iff:
  "check_rows through prev rows = Some l \<longleftrightarrow>
     sorted_wrt (<) (prev # map cw_row_id rows)
     \<and> (\<forall>row \<in> set rows. cw_row_id row \<le> through \<and> coherent_row row)
     \<and> l = last (prev # map cw_row_id rows)"
proof (induction rows arbitrary: prev)
  case Nil
  then show ?case by auto
next
  case (Cons row rows)
  have c: "check_rows through prev (row # rows) = Some l \<longleftrightarrow>
      prev < cw_row_id row \<and> cw_row_id row \<le> through \<and> coherent_row row
      \<and> check_rows through (cw_row_id row) rows = Some l"
    by (auto simp: coherent_row_def split: option.split)
  show ?case
    unfolding c Cons.IH by auto
qed

lemma ValidateCollectionPage_iff:
  "ValidateCollectionPage page after through limit \<longleftrightarrow> page_ok page after through limit"
proof (cases "check_rows (pg_through page) after (pg_rows page)")
  case None
  then have "\<not> page_ok page after through limit"
    using check_rows_iff [of "pg_through page" after "pg_rows page" "last (after # map cw_row_id (pg_rows page))"]
    by (auto simp: page_ok_def)
  with None show ?thesis by (simp add: ValidateCollectionPage_def)
next
  case (Some l)
  note c = Some [unfolded check_rows_iff]
  show ?thesis
    using c Some
    by (cases "pg_rows page = []") (auto simp: ValidateCollectionPage_def page_ok_def last_map not_le)
qed

lemma page_ok_progress [page_simps]:
  assumes "page_ok page after through limit"
  shows "after \<le> pg_scanned page" "pg_scanned page \<le> pg_through page"
    "pg_complete page \<longleftrightarrow> pg_scanned page = pg_through page"
    "row \<in> set (pg_rows page) \<Longrightarrow> cw_row_id row \<le> pg_scanned page"
    "\<not> pg_complete page \<Longrightarrow> after < pg_scanned page"
proof -
  have l: "cw_row_id row \<le> cw_row_id (last (pg_rows page))" if r: "row \<in> set (pg_rows page)" for row
  proof -
    obtain xs y where xs: "pg_rows page = xs @ [y]"
      using r by (metis append_butlast_last_id empty_iff list.set(1))
    with assms have "\<forall>x \<in> set xs. cw_row_id x < cw_row_id y"
      by (auto simp: page_ok_def sorted_wrt_append)
    with xs r show ?thesis by auto
  qed
  have le: "cw_row_id (last (pg_rows page)) \<le> pg_through page" "after < cw_row_id (last (pg_rows page))"
    if "pg_rows page \<noteq> []"
    using assms that by (auto simp: page_ok_def)
  show "after \<le> pg_scanned page" "pg_scanned page \<le> pg_through page"
    "pg_complete page \<longleftrightarrow> pg_scanned page = pg_through page"
    "\<not> pg_complete page \<Longrightarrow> after < pg_scanned page"
    using assms le by (auto simp: page_ok_def intro: less_imp_le split: if_split_asm)
  show "row \<in> set (pg_rows page) \<Longrightarrow> cw_row_id row \<le> pg_scanned page"
    using assms l by (auto simp: page_ok_def split: if_split_asm)
qed

section \<open>What a finished run means\<close>

fun fold_lines :: "(bytes \<Rightarrow> 's \<Rightarrow> 's option) \<Rightarrow> bytes list \<Rightarrow> 's \<Rightarrow> 's option" where
  "fold_lines handle [] s = Some s"
| "fold_lines handle (l # ls) s = Option.bind (handle l s) (fold_lines handle ls)"

text \<open>The loop returns a state only for a trace that ends with a clean final event, never after the
  context has ended.\<close>

definition clean_trace :: "bytes list \<Rightarrow> observation list \<Rightarrow> bool" where
  "clean_trace lines obs \<longleftrightarrow>
     (\<exists>rest. obs = map (\<lambda>l. Received (Line l) None) lines @ Received (Final None True) None # rest)"

lemma clean_trace_simps [simp]:
  "\<not> clean_trace lines []"
  "\<not> clean_trace lines (CtxDone e # obs)"
  "\<not> clean_trace lines (EventsClosed c0 # obs)"
  "\<not> clean_trace lines (Received ev (Some c) # obs)"
  "clean_trace lines (Received (Final r x) None # obs) \<longleftrightarrow> lines = [] \<and> r = None \<and> x"
  "clean_trace lines (Received (Line l) None # obs) \<longleftrightarrow> (\<exists>ls. lines = l # ls \<and> clean_trace ls obs)"
  by (cases lines; auto simp: clean_trace_def)+

lemma stream_loop_ok:
  "stream_loop handle maxRows final_check count obs s = Some (Inr s') \<longleftrightarrow>
     (\<exists>lines. clean_trace lines obs \<and> fold_lines handle lines s = Some s'
        \<and> (lines \<noteq> [] \<longrightarrow> count + int (length lines) \<le> maxRows) \<and> final_check = Inr ())"
proof (induction handle maxRows final_check count obs s rule: stream_loop.induct)
  case (4 handle maxRows final_check count ev ctx_err obs s)
  show ?case
  proof (cases ctx_err)
    case (Some c)
    then show ?thesis by simp
  next
    case None
    show ?thesis
    proof (cases ev)
      case (Final r x)
      with None show ?thesis by (auto split: sum.split)
    next
      case (Line l)
      show ?thesis
      proof (cases "handle l s")
        case None
        with Line \<open>ctx_err = None\<close> show ?thesis by auto
      next
        case (Some t)
        show ?thesis
        proof (cases "maxRows < count + 1")
          case True
          with Line Some None show ?thesis by auto
        next
          case False
          from "4.IH" [OF _ Line refl False Some] None
          have ih: "stream_loop handle maxRows final_check (count + 1) obs t = Some (Inr s') \<longleftrightarrow>
            (\<exists>lines. clean_trace lines obs \<and> fold_lines handle lines t = Some s'
               \<and> (lines \<noteq> [] \<longrightarrow> count + 1 + int (length lines) \<le> maxRows) \<and> final_check = Inr ())"
            by simp
          have e: "(\<exists>lines. clean_trace lines (Received (Line l) None # obs) \<and> Q lines)
              \<longleftrightarrow> (\<exists>ls. clean_trace ls obs \<and> Q (l # ls))" for Q
            by auto
          have step: "stream_loop handle maxRows final_check count (Received (Line l) None # obs) s =
              stream_loop handle maxRows final_check (count + 1) obs t"
            using False Some by simp
          have count: "(l # ls \<noteq> [] \<longrightarrow> count + int (length (l # ls)) \<le> maxRows) \<longleftrightarrow>
              (ls \<noteq> [] \<longrightarrow> count + 1 + int (length ls) \<le> maxRows)" for ls :: "bytes list"
            using False by (cases ls) auto
          show ?thesis
            unfolding Line None step ih e count by (simp add: Some)
        qed
      qed
    qed
  qed
qed auto

lemma run_ok:
  "run p env args maxRows handle s = Some (Inr s') \<longleftrightarrow>
     checkIdentity p (re_before env) = Inr () \<and> checkIdentity p (re_after env) = Inr ()
     \<and> (\<exists>obs lines. re_start env args = Some obs \<and> clean_trace lines obs
          \<and> fold_lines handle lines s = Some s' \<and> (lines \<noteq> [] \<longrightarrow> int (length lines) \<le> maxRows))"
  by (auto simp: run_def stream_loop_ok split: sum.split option.split)

lemma fold_append_row:
  "fold_lines (append_row decode) lines rows = Some rows' \<longleftrightarrow>
     (\<exists>new. rows' = rows @ new \<and> map decode lines = map Some new)"
proof (induction lines arbitrary: rows)
  case Nil
  then show ?case by auto
next
  case (Cons l ls)
  show ?case
  proof (cases "decode l")
    case None
    then show ?thesis by (auto simp: append_row_def)
  next
    case (Some x)
    then have "fold_lines (append_row decode) (l # ls) rows = fold_lines (append_row decode) ls (rows @ [x])"
      by (simp add: append_row_def [of decode l])
    with Some show ?thesis by (auto simp: Cons.IH map_eq_Cons_conv)
  qed
qed

section \<open>The output of a whole run\<close>

definition plays :: "bytes \<Rightarrow> bool \<Rightarrow> bool \<Rightarrow> observation list" where
  "plays stdout read_ok exit_ok = map (\<lambda>e. Received e None) (stream_events stdout read_ok exit_ok)"

lemma emit_lines_overflow:
  "snd (emit_lines tot ls) \<longleftrightarrow> ls \<noteq> [] \<and> maxBackendOutputBytes < tot + (\<Sum>l\<leftarrow>ls. length l + 1)"
proof (induction ls arbitrary: tot)
  case (Cons l ls)
  show ?case
    by (cases ls) (use Cons.IH [of "tot + length l + 1"] in \<open>auto simp: Let_def split: prod.split\<close>)
qed simp

lemma emit_lines_filter:
  "\<not> snd (emit_lines tot ls) \<Longrightarrow> fst (emit_lines tot ls) = filter (\<lambda>l. trim_space l \<noteq> []) ls"
  by (induction tot ls rule: emit_lines.induct) (auto simp: Let_def split: prod.splits if_split_asm)

lemma emit_lines_bounds:
  "tot \<le> maxBackendOutputBytes \<Longrightarrow>
     tot + (\<Sum>l\<leftarrow>fst (emit_lines tot ls). length l + 1) \<le> maxBackendOutputBytes"
  "l \<in> set (fst (emit_lines tot ls)) \<Longrightarrow> l \<in> set ls \<and> trim_space l \<noteq> []"
proof -
  show "tot \<le> maxBackendOutputBytes \<Longrightarrow>
     tot + (\<Sum>l\<leftarrow>fst (emit_lines tot ls). length l + 1) \<le> maxBackendOutputBytes"
  proof (induction ls arbitrary: tot)
    case (Cons l ls)
    show ?case
    proof (cases "maxBackendOutputBytes < tot + length l + 1")
      case True
      with Cons.prems show ?thesis by simp
    next
      case False
      obtain sent overflow where e: "emit_lines (tot + length l + 1) ls = (sent, overflow)"
        by (cases "emit_lines (tot + length l + 1) ls")
      have "tot + length l + 1 + (\<Sum>l\<leftarrow>sent. length l + 1) \<le> maxBackendOutputBytes"
        using Cons.IH [of "tot + length l + 1"] False e by simp
      with False e show ?thesis by simp
    qed
  qed simp
  show "l \<in> set (fst (emit_lines tot ls)) \<Longrightarrow> l \<in> set ls \<and> trim_space l \<noteq> []"
    by (induction tot ls rule: emit_lines.induct) (auto simp: Let_def split: prod.splits if_split_asm)
qed

lemma length_drop_cr: "length (drop_cr l) \<le> length l"
  by (simp add: drop_cr_def)

lemma scan_tokens_bounds: "l \<in> set (fst (scan_tokens limit s)) \<Longrightarrow> length l < limit"
proof (induction limit s rule: scan_tokens.induct)
  case (1 limit s)
  show ?case
  proof (cases "s = [] \<or> limit \<le> length (takeWhile (\<lambda>c. c \<noteq> newline) s)")
    case True
    then have "fst (scan_tokens limit s) = []" by (subst scan_tokens.simps) (auto simp: Let_def)
    with "1.prems" show ?thesis by simp
  next
    case False
    let ?l = "takeWhile (\<lambda>c. c \<noteq> newline) s"
    have "fst (scan_tokens limit s) = drop_cr ?l # fst (scan_tokens limit (drop (Suc (length ?l)) s))"
      using False by (subst scan_tokens.simps) (simp add: Let_def split: prod.split)
    with "1.prems" consider "l = drop_cr ?l" | "l \<in> set (fst (scan_tokens limit (drop (Suc (length ?l)) s)))"
      by auto
    then show ?thesis
    proof cases
      case 1
      with False length_drop_cr [of ?l] show ?thesis by simp
    next
      case 2
      with False "1.IH" show ?thesis by simp
    qed
  qed
qed

lemma clean_trace_play:
  "clean_trace lines (map (\<lambda>e. Received e None) (map Line ls @ [Final r x])) \<longleftrightarrow> lines = ls \<and> r = None \<and> x"
  by (induction ls arbitrary: lines) auto

text \<open>The output fits when no line reaches the line bound and all lines together, with one byte for
  each line end, stay within the output bound.\<close>

definition fits :: "bytes \<Rightarrow> bool" where
  "fits stdout \<longleftrightarrow> (case scan_tokens maxBackendLineBytes stdout of (tokens, too_long) \<Rightarrow>
     \<not> too_long \<and> (\<Sum>l\<leftarrow>tokens. length l + 1) \<le> maxBackendOutputBytes)"

definition output_lines :: "bytes \<Rightarrow> bytes list" where
  "output_lines stdout =
     filter (\<lambda>l. trim_space l \<noteq> []) (fst (scan_tokens maxBackendLineBytes stdout))"

lemma clean_trace_plays:
  "clean_trace lines (plays stdout read_ok exit_ok) \<longleftrightarrow>
     fits stdout \<and> lines = output_lines stdout \<and> read_ok \<and> exit_ok"
proof -
  obtain tokens too_long where t: "scan_tokens maxBackendLineBytes stdout = (tokens, too_long)"
    by (cases "scan_tokens maxBackendLineBytes stdout")
  obtain sent overflow where e: "emit_lines 0 tokens = (sent, overflow)"
    by (cases "emit_lines 0 tokens")
  have o: "overflow \<longleftrightarrow> maxBackendOutputBytes < (\<Sum>l\<leftarrow>tokens. length l + 1)"
    using emit_lines_overflow [of 0 tokens] e by (auto simp: maxBackendOutputBytes_def)
  have f: "\<not> overflow \<Longrightarrow> sent = filter (\<lambda>l. trim_space l \<noteq> []) tokens"
    using emit_lines_filter [of 0 tokens] e by simp
  have "clean_trace lines (plays stdout read_ok exit_ok) \<longleftrightarrow> lines = sent
      \<and> (if overflow then Some ReadOverflow else if too_long then Some ReadTooLong
           else if read_ok then None else Some ReadIO) = None \<and> exit_ok"
    by (simp only: plays_def stream_events_def t e prod.case clean_trace_play)
  then show ?thesis
    using o f by (auto simp: fits_def output_lines_def t)
qed

lemma run_returns_plays:
  "re_start env args = Some (plays stdout read_ok exit_ok) \<Longrightarrow>
     \<exists>r. run p env args maxRows handle s = Some r"
proof -
  assume r: "re_start env args = Some (plays stdout read_ok exit_ok)"
  have "\<exists>r. stream_loop handle maxRows fc count
      (map (\<lambda>e. Received e None) (map Line ls @ [Final re x])) s = Some r" for fc count ls re x s
    by (induction ls arbitrary: count s) (auto simp: Let_def split: option.split sum.split)
  with r show ?thesis
    by (auto simp: run_def plays_def stream_events_def split: sum.split prod.split)
qed

section \<open>The lines of a collection\<close>

definition row_event :: "bytes \<Rightarrow> collection_row option" where
  "row_event line = Option.bind (decode_event line) (\<lambda>event.
     Option.bind (ev_row_id event) (\<lambda>row_id.
       if ev_kind event = ''row'' \<and> ev_schema event = [] \<and> ev_through event = None
          \<and> ev_scanned event = None \<and> ev_complete event = None
       then Some \<lparr>cw_row_id = row_id, cw_message = ev_message event, cw_chat = ev_chat event\<rparr>
       else None))"

definition checkpoint_event :: "bytes \<Rightarrow> (int64 \<times> int64 \<times> bool) option" where
  "checkpoint_event line = Option.bind (decode_event line) (\<lambda>event.
     if ev_kind event = ''checkpoint'' \<and> ev_row_id event = None \<and> ev_message event = None
        \<and> ev_chat event = None \<and> ev_schema event = ''safe-imsg.collect.v1''
     then (case (ev_through event, ev_scanned event, ev_complete event) of
         (Some t, Some sc, Some c) \<Rightarrow> Some (t, sc, c) | _ \<Rightarrow> None)
     else None)"

lemma collect_line_open:
  "collect_line line (page, False) =
     (case row_event line of
        Some row \<Rightarrow> Some (page\<lparr>pg_rows := pg_rows page @ [row]\<rparr>, False)
      | None \<Rightarrow> map_option (\<lambda>(t, sc, c). (page\<lparr>pg_through := t, pg_scanned := sc, pg_complete := c\<rparr>, True))
          (checkpoint_event line))"
proof (cases "decode_event line")
  case (Some event)
  then show ?thesis
    by (cases "ev_kind event = ''row''"; cases "ev_row_id event"; cases "ev_through event";
        cases "ev_scanned event"; cases "ev_complete event")
      (simp_all add: collect_line_def row_event_def checkpoint_event_def)
qed (simp add: collect_line_def row_event_def checkpoint_event_def)

lemma collect_line_closed: "collect_line line (page, True) = None"
  by (simp add: collect_line_def split: option.split)

lemma fold_collect_closed:
  "fold_lines collect_line lines (page, True) = Some st \<longleftrightarrow> lines = [] \<and> st = (page, True)"
  by (cases lines) (auto simp: collect_line_closed)

lemma fold_collect:
  "fold_lines collect_line lines (page, False) = Some (page', True) \<longleftrightarrow>
     (\<exists>row_lines cp rows t sc c. lines = row_lines @ [cp] \<and> map row_event row_lines = map Some rows
        \<and> row_event cp = None \<and> checkpoint_event cp = Some (t, sc, c)
        \<and> page' = \<lparr>pg_rows = pg_rows page @ rows, pg_through = t, pg_scanned = sc, pg_complete = c\<rparr>)"
  (is "_ \<longleftrightarrow> ?rhs lines page")
proof (induction lines arbitrary: page)
  case Nil
  then show ?case by simp
next
  case (Cons l ls)
  show ?case
  proof (cases "row_event l")
    case None
    have "?rhs (l # ls) page \<longleftrightarrow> ls = [] \<and> (\<exists>t sc c. checkpoint_event l = Some (t, sc, c)
        \<and> page' = \<lparr>pg_rows = pg_rows page, pg_through = t, pg_scanned = sc, pg_complete = c\<rparr>)"
      using None by (auto simp: Cons_eq_append_conv map_eq_Cons_conv)
    then show ?thesis
      using None by (cases "checkpoint_event l")
        (auto simp: collect_line_open fold_collect_closed intro: collection_page.equality)
  next
    case (Some row)
    have "fold_lines collect_line (l # ls) (page, False) =
        fold_lines collect_line ls (page\<lparr>pg_rows := pg_rows page @ [row]\<rparr>, False)"
      using Some by (simp add: collect_line_open)
    moreover have "?rhs (l # ls) page \<longleftrightarrow> ?rhs ls (page\<lparr>pg_rows := pg_rows page @ [row]\<rparr>)"
      using Some
      by (auto simp: Cons_eq_append_conv map_eq_Cons_conv)
    ultimately show ?thesis
      using Cons.IH by simp
  qed
qed

lemma Collect_ok:
  assumes "Collect p env after through limit notBefore = Some (Inr page)"
  shows "page_ok page after through limit" "pr_bounded_collection p"
    "0 \<le> after" "through = 0 \<or> after \<le> through" "1 \<le> limit" "limit \<le> 1000"
    "notBefore \<noteq> [] \<Longrightarrow> parse_rfc3339 notBefore \<noteq> None"
    "checkIdentity p (re_before env) = Inr ()" "checkIdentity p (re_after env) = Inr ()"
    "\<exists>obs row_lines cp. re_start env (collect_args p after through limit notBefore) = Some obs
       \<and> clean_trace (row_lines @ [cp]) obs \<and> map row_event row_lines = map Some (pg_rows page)
       \<and> checkpoint_event cp = Some (pg_through page, pg_scanned page, pg_complete page)"
proof -
  have guards: "pr_bounded_collection p" "0 \<le> after" "through = 0 \<or> after \<le> through" "1 \<le> limit"
    "limit \<le> 1000" "notBefore \<noteq> [] \<longrightarrow> parse_rfc3339 notBefore \<noteq> None"
    using assms by (auto simp: Collect_def split: if_split_asm)
  show "pr_bounded_collection p" "0 \<le> after" "through = 0 \<or> after \<le> through" "1 \<le> limit"
    "limit \<le> 1000" "notBefore \<noteq> [] \<Longrightarrow> parse_rfc3339 notBefore \<noteq> None"
    using guards by auto
  from assms obtain r where r: "run p env (collect_args p after through limit notBefore) (limit + 1)
      collect_line (zero_page, False) = Some r"
    "(case r of Inl e \<Rightarrow> Inl e | Inr (page, checkpoint) \<Rightarrow>
        if \<not> checkpoint \<or> \<not> ValidateCollectionPage page after through limit
        then Inl [ErrFailed] else Inr page) = Inr page"
    by (auto simp: Collect_def split: if_split_asm)
  then have run: "run p env (collect_args p after through limit notBefore) (limit + 1)
      collect_line (zero_page, False) = Some (Inr (page, True))"
    and v: "ValidateCollectionPage page after through limit"
    by (auto split: sum.split_asm if_split_asm)
  show "page_ok page after through limit"
    using v by (simp add: ValidateCollectionPage_iff)
  from run [unfolded run_ok] obtain obs lines where o:
    "checkIdentity p (re_before env) = Inr ()" "checkIdentity p (re_after env) = Inr ()"
    "re_start env (collect_args p after through limit notBefore) = Some obs" "clean_trace lines obs"
    "fold_lines collect_line lines (zero_page, False) = Some (page, True)"
    by blast
  show "checkIdentity p (re_before env) = Inr ()" "checkIdentity p (re_after env) = Inr ()"
    using o by auto
  from o(5) [unfolded fold_collect] o(3,4) show
    "\<exists>obs row_lines cp. re_start env (collect_args p after through limit notBefore) = Some obs
       \<and> clean_trace (row_lines @ [cp]) obs \<and> map row_event row_lines = map Some (pg_rows page)
       \<and> checkpoint_event cp = Some (pg_through page, pg_scanned page, pg_complete page)"
    by (fastforce simp: zero_page_def)
qed

section \<open>The interface the broker uses\<close>

locale bounded_service =
  fixes collect :: "'e \<Rightarrow> int64 \<Rightarrow> int64 \<Rightarrow> int \<Rightarrow> string \<Rightarrow> (berr + collection_page) option"
    and chats :: "'e \<Rightarrow> int \<Rightarrow> (berr + raw_chat list) option"
    and messages :: "'e \<Rightarrow> int64 \<Rightarrow> int \<Rightarrow> (berr + raw_message list) option"
  assumes collect_page: "collect e after through limit nb = Some (Inr page) \<Longrightarrow>
      page_ok page after through limit"
    and collect_guard: "collect e after through limit nb = Some (Inr page) \<Longrightarrow>
      0 \<le> after \<and> (through = 0 \<or> after \<le> through) \<and> 1 \<le> limit"
    and chats_bound: "chats e limit = Some (Inr rows) \<Longrightarrow> rows \<noteq> [] \<Longrightarrow> int (length rows) \<le> limit"
    and messages_bound: "messages e chat limit = Some (Inr msgs) \<Longrightarrow> msgs \<noteq> [] \<Longrightarrow>
      int (length msgs) \<le> limit"
begin

lemma collect_advances:
  "collect e after through limit nb = Some (Inr page) \<Longrightarrow>
     after \<le> pg_scanned page \<and> (pg_scanned page < pg_through page \<longrightarrow> after < pg_scanned page)"
  using page_ok_progress [OF collect_page] by (metis less_irrefl)

text \<open>The checkpoint of an unfinished page is a valid pinned position for the next call.\<close>

lemma collect_next:
  "collect e after through limit nb = Some (Inr page) \<Longrightarrow> \<not> pg_complete page \<Longrightarrow>
     0 < pg_scanned page \<and> pg_scanned page < pg_through page"
  using page_ok_progress [OF collect_page, of e after through limit nb page] collect_guard [of e after through limit nb page]
  by force

lemma collect_rows:
  "collect e after through limit nb = Some (Inr page) \<Longrightarrow> row \<in> set (pg_rows page) \<Longrightarrow>
     after < cw_row_id row \<and> cw_row_id row \<le> pg_scanned page"
  using page_ok_progress(4) [OF collect_page] collect_page by (fastforce simp: page_ok_def)

end

interpretation process: bounded_service "Collect p" "ListChats p" "History p" for p
proof unfold_locales
  fix e after through limit nb page
  assume c: "Collect p e after through limit nb = Some (Inr page)"
  show "page_ok page after through limit" by (rule Collect_ok(1) [OF c])
  show "0 \<le> after \<and> (through = 0 \<or> after \<le> through) \<and> 1 \<le> limit"
    using Collect_ok(3-5) [OF c] by simp
next
  fix e limit rows
  assume "ListChats p e limit = Some (Inr rows)" "rows \<noteq> []"
  then show "int (length rows) \<le> limit"
    by (auto simp: ListChats_def run_ok fold_append_row dest!: map_eq_imp_length_eq)
next
  fix e chat limit msgs
  assume "History p e chat limit = Some (Inr msgs)" "msgs \<noteq> []"
  then show "int (length msgs) \<le> limit"
    by (auto simp: History_def run_ok fold_append_row dest!: map_eq_imp_length_eq)
qed

section \<open>Properties\<close>

text \<open>C19: \<open>ValidateCollectionPage\<close> accepts exactly the pages whose rows are strictly ascending,
  above the exclusive start and within the (pinned) boundary, at most \<open>limit\<close> many, each with
  coherent message and chat, and whose checkpoint is the boundary when complete and otherwise
  the last row of a full page short of the boundary.\<close>

theorem validate_collection_page_iff:
  "ValidateCollectionPage page after through limit \<longleftrightarrow> page_ok page after through limit"
  by (rule ValidateCollectionPage_iff)

lemma scan_example:
  "scan_tokens maxBackendLineBytes (''{}'' @ [newline]) = ([''{}''], False)"
  by (simp add: scan_tokens.simps [of _ "_ # _"] scan_tokens.simps [of _ "[]"] drop_cr_def
      maxBackendLineBytes_def)

lemma print_identity_example: "print_int 1 @ '':'' @ print_int 2 = ''1:2''"
  by code_simp

text \<open>C21: A backend run succeeds exactly when the database and the executable pass the identity check
  before and after it, and the stream delivered, with the context alive at every step, at most
  \<open>maxRows\<close> lines that the handler accepts in order, followed by a clean end of output and a
  successful exit; a truncated, cancelled or failed stream never yields a result.\<close>

theorem run_succeeds_iff:
  "run p env args maxRows handle s = Some (Inr s') \<longleftrightarrow>
     checkIdentity p (re_before env) = Inr () \<and> checkIdentity p (re_after env) = Inr ()
     \<and> (\<exists>obs lines. re_start env args = Some obs \<and> clean_trace lines obs
          \<and> fold_lines handle lines s = Some s' \<and> (lines \<noteq> [] \<longrightarrow> int (length lines) \<le> maxRows))"
  by (rule run_ok)

lemma run_succeeds_iff_witness:
  "run \<lparr>pr_path = ''/b'', pr_database = ''/d'', pr_generation = [], pr_identity = ''1:2'',
         pr_bounded_collection = True, pr_account_id = []\<rparr>
     \<lparr>re_before = \<lparr>fs_owner_ok = \<lambda>_ _. True, fs_stat = \<lambda>_. Some (1, 2)\<rparr>,
      re_start = \<lambda>_. Some [Received (Line ''x'') None, Received (Final None True) None],
      re_after = \<lparr>fs_owner_ok = \<lambda>_ _. True, fs_stat = \<lambda>_. Some (1, 2)\<rparr>\<rparr>
     [''chats''] 1 (\<lambda>l ls. Some (ls @ [l])) [] = Some (Inr [''x''])"
proof -
  note i = print_identity_example
  show ?thesis
    unfolding run_succeeds_iff
    using i by (simp add: checkIdentity_def databaseIdentity_def)
qed

text \<open>When the whole output of \<open>imsg chats\<close> is read and the process and the identity checks
  succeed, the call returns; it returns chats exactly when the output fits the bounds, has at
  most \<open>limit\<close> non-blank lines and each is one JSON chat, and the chats are those lines, in order.\<close>

theorem list_chats_output:
  assumes "re_start env [''chats'', ''--db'', pr_database p, ''--limit'', print_int limit, ''--json'']
      = Some (plays stdout read_ok exit_ok)"
    and "checkIdentity p (re_before env) = Inr ()" "checkIdentity p (re_after env) = Inr ()"
    and "0 \<le> limit"
  shows "(\<exists>r. ListChats p env limit = Some r)
     \<and> (ListChats p env limit = Some (Inr rows) \<longleftrightarrow>
          read_ok \<and> exit_ok \<and> fits stdout \<and> int (length (output_lines stdout)) \<le> limit
          \<and> map decode_chat (output_lines stdout) = map Some rows)"
proof
  show "\<exists>r. ListChats p env limit = Some r"
    unfolding ListChats_def by (rule run_returns_plays [OF assms(1)])
  show "ListChats p env limit = Some (Inr rows) \<longleftrightarrow>
          read_ok \<and> exit_ok \<and> fits stdout \<and> int (length (output_lines stdout)) \<le> limit
          \<and> map decode_chat (output_lines stdout) = map Some rows"
    using assms(4)
    by (auto simp: ListChats_def run_ok assms(1-3) clean_trace_plays fold_append_row)
qed

lemma list_chats_output_witness:
  "ListChats \<lparr>pr_path = ''/b'', pr_database = ''/d'', pr_generation = [], pr_identity = ''1:2'',
         pr_bounded_collection = True, pr_account_id = []\<rparr>
     \<lparr>re_before = \<lparr>fs_owner_ok = \<lambda>_ _. True, fs_stat = \<lambda>_. Some (1, 2)\<rparr>,
      re_start = \<lambda>_. Some (plays (''{}'' @ [newline]) True True),
      re_after = \<lparr>fs_owner_ok = \<lambda>_ _. True, fs_stat = \<lambda>_. Some (1, 2)\<rparr>\<rparr> 5 = Some (Inr [zero_chat])"
proof -
  note i = print_identity_example
  note t = scan_example
  have d: "decode_chat ''{}'' = Some zero_chat" by code_simp
  have s: "trim_space ''{}'' = ''{}''"
    by (rule trim_space_graphic) (simp_all add: graphic_def)
  have o: "output_lines (''{}'' @ [newline]) = [''{}'']" "fits (''{}'' @ [newline])"
    by (simp_all only: output_lines_def fits_def t) (simp_all add: s maxBackendOutputBytes_def)
  show ?thesis
    by (rule iffD2 [OF conjunct2 [OF list_chats_output [where stdout = "''{}'' @ [newline]"
          and read_ok = True and exit_ok = True]]])
      (use i o d in \<open>simp_all add: checkIdentity_def databaseIdentity_def\<close>)
qed

text \<open>C22: Whatever the backend prints, the reader hands over only non-blank lines shorter than 2 MiB,
  and all of them together, with one byte per line end, stay within 64 MiB.\<close>

theorem stream_events_bounded:
  "(\<forall>l. Line l \<in> set (stream_events stdout read_ok exit_ok) \<longrightarrow>
      trim_space l \<noteq> [] \<and> length l < 2 * 1024 * 1024)
   \<and> (\<Sum>l\<leftarrow>concat (map (\<lambda>e. case e of Line l \<Rightarrow> [l] | _ \<Rightarrow> []) (stream_events stdout read_ok exit_ok)).
        length l + 1) \<le> 64 * 1024 * 1024"
proof -
  obtain tokens too_long where t: "scan_tokens maxBackendLineBytes stdout = (tokens, too_long)"
    by (cases "scan_tokens maxBackendLineBytes stdout")
  obtain sent overflow where e: "emit_lines 0 tokens = (sent, overflow)"
    by (cases "emit_lines 0 tokens")
  obtain final x where s: "stream_events stdout read_ok exit_ok = map Line sent @ [Final final x]"
    by (simp add: stream_events_def t e)
  have c: "concat (map ((\<lambda>e. case e of Line l \<Rightarrow> [l] | _ \<Rightarrow> []) \<circ> Line) sent) = sent"
    by (induction sent) auto
  have l: "l \<in> set tokens \<Longrightarrow> length l < maxBackendLineBytes" for l
    using scan_tokens_bounds [of l maxBackendLineBytes stdout] t by simp
  show ?thesis
    using emit_lines_bounds(1) [of 0 tokens] emit_lines_bounds(2) [where tot = 0 and ls = tokens] l
    by (auto simp: s t e c maxBackendLineBytes_def maxBackendOutputBytes_def)
qed

lemma stream_events_bounded_witness:
  "Line ''{}'' \<in> set (stream_events (''{}'' @ [newline]) True True) \<and> length ''{}'' < 2 * 1024 * 1024"
proof -
  have "trim_space ''{}'' = ''{}''"
    by (rule trim_space_graphic) (simp_all add: graphic_def)
  then have "Line ''{}'' \<in> set (stream_events (''{}'' @ [newline]) True True)"
    unfolding stream_events_def scan_example by (simp add: maxBackendOutputBytes_def)
  with stream_events_bounded [of "''{}'' @ [newline]" True True] show ?thesis by blast
qed

text \<open>C20: A collection that returns a page did all of the following: it ran only on a backend with
  bounded collection and with valid bounds, the database identity held before and after, the
  stream was complete, its last line is the one checkpoint, every other line is a row, the page is
  exactly those rows and that checkpoint, and the page is valid for the request.\<close>

theorem collect_page_sound:
  assumes "Collect p env after through limit notBefore = Some (Inr page)"
  shows "pr_bounded_collection p \<and> 0 \<le> after \<and> (through = 0 \<or> after \<le> through)
     \<and> 1 \<le> limit \<and> limit \<le> 1000 \<and> (notBefore = [] \<or> parse_rfc3339 notBefore \<noteq> None)
     \<and> checkIdentity p (re_before env) = Inr () \<and> checkIdentity p (re_after env) = Inr ()
     \<and> page_ok page after through limit
     \<and> (\<exists>obs row_lines cp. re_start env (collect_args p after through limit notBefore) = Some obs
          \<and> clean_trace (row_lines @ [cp]) obs \<and> map row_event row_lines = map Some (pg_rows page)
          \<and> checkpoint_event cp = Some (pg_through page, pg_scanned page, pg_complete page))"
  using Collect_ok [OF assms] by blast

lemma decodeLine_print:
  "json_wf max_nesting j \<Longrightarrow> decodeLine step zero (json_print j) = decode_struct step zero j"
proof -
  assume "json_wf max_nesting j"
  from json_decode_print [OF this] obtain rest where
    "read_value (json_print j) = Some (j, rest)" "skip_ws rest = []"
    by (auto simp: json_decode_def split: option.split_asm if_split_asm)
  then show ?thesis
    by (simp add: decodeLine_def split: option.split)
qed

text \<open>The checkpoint line of an empty, complete page.\<close>

definition checkpoint_json :: "int64 \<Rightarrow> json" where
  "checkpoint_json n = JObj [(''kind'', JStr ''checkpoint''),
      (''schema'', JStr ''safe-imsg.collect.v1''), (''through_row_id'', jint n),
      (''scanned_through_row_id'', jint n), (''complete'', JBool True)]"

lemma decode_checkpoint_json:
  assumes "- (2 ^ 63) \<le> n" "n < 2 ^ 63"
  shows "decode_event (json_print (checkpoint_json n)) =
     Some \<lparr>ev_kind = ''checkpoint'', ev_row_id = None, ev_message = None, ev_chat = None,
       ev_schema = ''safe-imsg.collect.v1'', ev_through = Some n, ev_scanned = Some n,
       ev_complete = Some True\<rparr>"
proof -
  have "valid_utf8 ''kind''" "valid_utf8 ''checkpoint''" "valid_utf8 ''schema''"
    "valid_utf8 ''safe-imsg.collect.v1''" "valid_utf8 ''through_row_id''"
    "valid_utf8 ''scanned_through_row_id''" "valid_utf8 ''complete''"
    by (rule ascii_valid, simp)+
  then have w: "json_wf max_nesting (checkpoint_json n)"
    by (simp add: checkpoint_json_def max_nesting_def)
  have j: "dec_pointer dec_int 0 None (jint n) = Some (Some n)"
    using assms by (simp add: dec_pointer_def dec_jint) (simp add: jint_def)
  show ?thesis
    unfolding decode_event_def decodeLine_print [OF w]
    by (simp add: checkpoint_json_def decode_struct_def event_step_def zero_event_def j
        key_is_plain plain_key_def) (simp add: dec_pointer_def)
qed

lemma collect_page_sound_witness:
  "\<exists>env. Collect \<lparr>pr_path = ''/b'', pr_database = ''/d'', pr_generation = [], pr_identity = ''1:2'',
         pr_bounded_collection = True, pr_account_id = ''a''\<rparr> env 7 0 50 [] =
       Some (Inr \<lparr>pg_rows = [], pg_through = 7, pg_scanned = 7, pg_complete = True\<rparr>)
     \<and> page_ok \<lparr>pg_rows = [], pg_through = 7, pg_scanned = 7, pg_complete = True\<rparr> 7 0 50"
proof -
  let ?p = "\<lparr>pr_path = ''/b'', pr_database = ''/d'', pr_generation = [], pr_identity = ''1:2'',
         pr_bounded_collection = True, pr_account_id = ''a''\<rparr>"
  let ?v = "\<lparr>fs_owner_ok = \<lambda>_ _. True, fs_stat = \<lambda>_. Some (1, 2)\<rparr>"
  let ?env = "\<lparr>re_before = ?v, re_start = \<lambda>_. Some [Received (Line (json_print (checkpoint_json 7))) None,
      Received (Final None True) None], re_after = ?v\<rparr>"
  let ?page = "\<lparr>pg_rows = [], pg_through = 7, pg_scanned = 7, pg_complete = True\<rparr>"
  have i: "checkIdentity ?p ?v = Inr ()"
    using print_identity_example by (simp add: checkIdentity_def databaseIdentity_def)
  have "collect_line (json_print (checkpoint_json 7)) (zero_page, False) = Some (?page, True)"
    by (simp add: collect_line_def decode_checkpoint_json zero_page_def)
  then have c: "Collect ?p ?env 7 0 50 [] = Some (Inr ?page)"
    by (simp add: Collect_def run_def i ValidateCollectionPage_def)
  from collect_page_sound [OF c] c show ?thesis by blast
qed

end
