(* ===== verification/GoPath.thy ===== *)
theory GoPath
  imports GoStrings
begin

text \<open>
  The lexical path functions of Go's \<open>path/filepath\<close> on Unix that the program uses.  An absolute
  clean path is a list of proper components, \<open>abs_path\<close>; the lemmas relate the functions to
  operations on that list.
\<close>

abbreviation slash :: char where "slash \<equiv> CHR ''/''"

definition IsAbs :: "string \<Rightarrow> bool" where
  "IsAbs path \<longleftrightarrow> has_prefix [slash] path"

text \<open>One element of \<open>Clean\<close>: empty and dot elements vanish, a double dot removes the element before
  it, or stays in front of a relative path.\<close>

definition clean_comp :: "bool \<Rightarrow> string list \<Rightarrow> string \<Rightarrow> string list" where
  "clean_comp rooted cs p =
     (if p = [] \<or> p = ''.'' then cs
      else if p = ''..'' then
        (if cs \<noteq> [] \<and> last cs \<noteq> ''..'' then butlast cs else if rooted then cs else cs @ [p])
      else cs @ [p])"

definition Clean :: "string \<Rightarrow> string" where
  "Clean path =
     (if path = [] then ''.''
      else
        let rooted = IsAbs path;
            cs = foldl (clean_comp rooted) [] (split_on slash path)
        in if rooted then slash # join_with [slash] cs
           else if cs = [] then ''.'' else join_with [slash] cs)"

definition Join :: "string \<Rightarrow> string \<Rightarrow> string" where
  "Join a b = (if a = [] then if b = [] then [] else Clean b else Clean (a @ slash # b))"

definition Dir :: "string \<Rightarrow> string" where
  "Dir path = Clean (rev (dropWhile (\<lambda>c. c \<noteq> slash) (rev path)))"

section \<open>Absolute paths as lists of components\<close>

definition proper :: "string \<Rightarrow> bool" where
  "proper p \<longleftrightarrow> p \<noteq> [] \<and> p \<noteq> ''.'' \<and> p \<noteq> ''..'' \<and> slash \<notin> set p"

definition abs_path :: "string list \<Rightarrow> string" where
  "abs_path cs = slash # join_with [slash] cs"

lemma IsAbs_iff: "IsAbs path \<longleftrightarrow> (\<exists>t. path = slash # t)"
  by (cases path) (auto simp: IsAbs_def has_prefix_def)

lemma IsAbs_abs_path [simp]: "IsAbs (abs_path cs)"
  by (simp add: IsAbs_iff abs_path_def)

lemma split_on_snoc: "c \<notin> set p \<Longrightarrow> split_on c (s @ c # p) = split_on c s @ [p]"
proof (induction s)
  case Nil
  then show ?case by (simp add: split_on_id)
next
  case (Cons x s)
  obtain q qs where q: "split_on c s = q # qs"
    using split_on_nonempty [of c s] by (metis neq_Nil_conv)
  with Cons show ?case by simp
qed

lemma split_abs_path:
  "list_all proper cs \<Longrightarrow> split_on slash (abs_path cs) = [] # (if cs = [] then [[]] else cs)"
  using split_join [of cs slash]
  by (auto simp: abs_path_def proper_def list_all_iff)

lemma foldl_proper:
  "list_all proper cs \<Longrightarrow> foldl (clean_comp rooted) acc cs = acc @ cs"
  by (induction cs arbitrary: acc) (auto simp: clean_comp_def proper_def)

lemma clean_comp_skip [simp]: "clean_comp rooted cs [] = cs"
  by (simp add: clean_comp_def)

lemma Clean_abs_path: "list_all proper cs \<Longrightarrow> Clean (abs_path cs) = abs_path cs"
  by (simp add: Clean_def split_abs_path foldl_proper) (simp add: abs_path_def)

lemma clean_comp_proper:
  "list_all proper cs \<Longrightarrow> slash \<notin> set p \<Longrightarrow> list_all proper (clean_comp True cs p)"
  by (auto simp: clean_comp_def proper_def list_all_iff dest: in_set_butlastD)

lemma foldl_clean_proper:
  "list_all proper acc \<Longrightarrow> (\<forall>p \<in> set ps. slash \<notin> set p) \<Longrightarrow>
     list_all proper (foldl (clean_comp True) acc ps)"
  by (induction ps arbitrary: acc) (auto simp: clean_comp_proper)

text \<open>An absolute path that \<open>Clean\<close> leaves unchanged is a list of proper components.\<close>

lemma clean_absolute_iff:
  "IsAbs path \<and> Clean path = path \<longleftrightarrow> (\<exists>cs. list_all proper cs \<and> path = abs_path cs)"
proof
  assume a: "IsAbs path \<and> Clean path = path"
  let ?cs = "foldl (clean_comp True) [] (split_on slash path)"
  have "path = abs_path ?cs"
    using a by (auto simp: Clean_def IsAbs_iff abs_path_def Let_def split: if_split_asm)
  moreover have "list_all proper ?cs"
    by (rule foldl_clean_proper) (auto dest: split_on_no_sep)
  ultimately show "\<exists>cs. list_all proper cs \<and> path = abs_path cs" by blast
qed (auto simp: Clean_abs_path)

lemma Join_abs_path:
  assumes "list_all proper cs" "slash \<notin> set p"
  shows "Join (abs_path cs) p = abs_path (clean_comp True cs p)"
proof -
  have s: "split_on slash (abs_path cs @ slash # p) = split_on slash (abs_path cs) @ [p]"
    by (rule split_on_snoc [OF assms(2)])
  have "IsAbs (abs_path cs @ slash # p)" "abs_path cs \<noteq> []"
    by (simp_all add: abs_path_def IsAbs_iff)
  then show ?thesis
    using assms(1)
    by (simp add: Join_def Clean_def s split_abs_path foldl_proper) (simp add: abs_path_def)
qed

lemma join_with_snoc: "cs \<noteq> [] \<Longrightarrow> join_with [c] (cs @ [x]) = join_with [c] cs @ c # x"
  by (induction "[c]" cs rule: join_with.induct) auto

lemma Dir_abs_path:
  assumes "list_all proper (cs @ [x])"
  shows "Dir (abs_path (cs @ [x])) = abs_path cs"
proof -
  have x: "slash \<notin> set x" using assms by (simp add: proper_def)
  have d: "dropWhile (\<lambda>c. c \<noteq> slash) (rev (s @ slash # x)) = rev (s @ [slash])" for s
  proof -
    have "dropWhile (\<lambda>c. c \<noteq> slash) (rev x @ slash # rev s) = slash # rev s"
      using x by (subst dropWhile_append2) auto
    then show ?thesis by simp
  qed
  show ?thesis
  proof (cases "cs = []")
    case True
    then have "abs_path (cs @ [x]) = [] @ slash # x" by (simp add: abs_path_def)
    then have "Dir (abs_path (cs @ [x])) = Clean [slash]"
      unfolding Dir_def by (simp only: d) simp
    also have "\<dots> = abs_path []" using Clean_abs_path [of "[]"] by (simp add: abs_path_def)
    finally show ?thesis using True by simp
  next
    case False
    then have "abs_path (cs @ [x]) = abs_path cs @ slash # x"
      by (simp add: abs_path_def join_with_snoc)
    then have "Dir (abs_path (cs @ [x])) = Clean (abs_path cs @ [slash])"
      unfolding Dir_def by (simp only: d) simp
    also have "\<dots> = abs_path (clean_comp True cs [])"
      using Join_abs_path [of cs "[]"] assms
      by (simp add: Join_def) (simp add: abs_path_def)
    finally show ?thesis by simp
  qed
qed

end
