(* ===== verification/SecureFile.thy ===== *)
theory SecureFile
  imports GoPath Prelude "HOL-Library.Word"
begin

unbundle bit_operations_syntax

text \<open>
  \<open>internal/securefile\<close>: which files and directories the broker trusts.  A file system snapshot
  answers \<open>Lstat\<close> and \<open>Readlink\<close>; opening a file yields its own \<open>Stat\<close> and contents, because
  the code inspects the descriptor it reads.  Modes are \<open>os.FileMode\<close> words.
\<close>

section \<open>File information\<close>

record file_info =
  fi_mode :: "32 word"
  fi_uid :: "32 word option"

definition ModeDir :: "32 word" where "ModeDir = push_bit 31 1"
definition ModeSymlink :: "32 word" where "ModeSymlink = push_bit 27 1"
definition ModeSocket :: "32 word" where "ModeSocket = push_bit 24 1"
definition ModeSticky :: "32 word" where "ModeSticky = push_bit 20 1"

text \<open>\<open>ModeType\<close>: directory, symlink, pipe, socket, device, character device, irregular.\<close>

definition ModeType :: "32 word" where
  "ModeType = ModeDir OR ModeSymlink OR push_bit 26 1 OR push_bit 25 1 OR ModeSocket
     OR push_bit 21 1 OR push_bit 19 1"

definition is_regular :: "32 word \<Rightarrow> bool" where "is_regular m \<longleftrightarrow> m AND ModeType = 0"
definition is_dir :: "32 word \<Rightarrow> bool" where "is_dir m \<longleftrightarrow> m AND ModeDir \<noteq> 0"
definition is_symlink :: "32 word \<Rightarrow> bool" where "is_symlink m \<longleftrightarrow> m AND ModeSymlink \<noteq> 0"
definition is_sticky :: "32 word \<Rightarrow> bool" where "is_sticky m \<longleftrightarrow> m AND ModeSticky \<noteq> 0"
definition perm :: "32 word \<Rightarrow> 32 word" where "perm m = m AND 0x1FF"

text \<open>Writable by group or others (\<open>0o022\<close>), executable by anyone (\<open>0o111\<close>).\<close>

definition shared_writable :: "32 word \<Rightarrow> bool" where "shared_writable m \<longleftrightarrow> perm m AND 0x12 \<noteq> 0"
definition some_executable :: "32 word \<Rightarrow> bool" where "some_executable m \<longleftrightarrow> perm m AND 0x49 \<noteq> 0"

datatype secure_error =
    PathNotClean
  | NoWorkingDirectory
  | LstatError
  | ReadlinkError
  | ParentNotOwned
  | TooManySymlinks
  | ParentWritable
  | OpenError
  | StatError
  | NotRegular
  | FileWritable
  | FileNotOwned
  | NotExecutable
  | ReadError
  | TooLarge

text \<open>\<open>ownerUID\<close> is \<open>fi_uid\<close>; the owner must be root or the broker's user.\<close>

definition trusted_owner :: "32 word \<Rightarrow> 32 word option \<Rightarrow> bool" where
  "trusted_owner euid uid \<longleftrightarrow> (case uid of None \<Rightarrow> False | Some u \<Rightarrow> u = 0 \<or> u = euid)"

definition checkInfo :: "32 word \<Rightarrow> file_info \<Rightarrow> bool \<Rightarrow> secure_error + unit" where
  "checkInfo euid info executable =
     (if \<not> is_regular (fi_mode info) then Inl NotRegular
      else if shared_writable (fi_mode info) then Inl FileWritable
      else (case fi_uid info of
          None \<Rightarrow> Inl FileNotOwned
        | Some uid \<Rightarrow>
            if uid \<noteq> euid \<and> uid \<noteq> 0 then Inl FileNotOwned
            else if executable \<and> \<not> some_executable (fi_mode info) then Inl NotExecutable
            else Inr ()))"

section \<open>Parent directories\<close>

record fs =
  fs_euid :: "32 word"
  fs_cwd :: "string option"
  fs_lstat :: "string \<Rightarrow> file_info option"
  fs_readlink :: "string \<Rightarrow> string option"

text \<open>The loop of \<open>checkDirectory\<close>; it returns the directory it resolved to, which the code only
  uses while walking.  Every symlink uses up one of forty, everything else one pending element.\<close>

function walk :: "fs \<Rightarrow> string \<Rightarrow> string list \<Rightarrow> nat \<Rightarrow> secure_error + string" where
  "walk f resolved [] links = Inr resolved"
| "walk f resolved (p # pending) links =
     (case fs_lstat f (Join resolved p) of
        None \<Rightarrow> Inl LstatError
      | Some info \<Rightarrow>
          (case fi_uid info of
             None \<Rightarrow> Inl ParentNotOwned
           | Some uid \<Rightarrow>
               if uid \<noteq> 0 \<and> uid \<noteq> fs_euid f then Inl ParentNotOwned
               else if is_symlink (fi_mode info) then
                 (if 40 < Suc links then Inl TooManySymlinks
                  else (case fs_readlink f (Join resolved p) of
                      None \<Rightarrow> Inl ReadlinkError
                    | Some target \<Rightarrow>
                        walk f (if IsAbs target then [slash] else resolved)
                          (split_on slash target @ pending) (Suc links)))
               else if \<not> is_dir (fi_mode info)
                  \<or> (shared_writable (fi_mode info) \<and> \<not> (uid = 0 \<and> is_sticky (fi_mode info)))
               then Inl ParentWritable
               else walk f (Join resolved p) pending links))"
  by pat_completeness auto
termination
  by (relation "measures [\<lambda>(f, r, ps, links). 40 - links, \<lambda>(f, r, ps, links). length ps]") auto

definition checkDirectory :: "fs \<Rightarrow> string \<Rightarrow> secure_error + unit" where
  "checkDirectory f dir =
     (case walk f [slash] (split_on slash dir) 0 of Inl e \<Rightarrow> Inl e | Inr _ \<Rightarrow> Inr ())"

definition CheckParents :: "fs \<Rightarrow> string \<Rightarrow> secure_error + unit" where
  "CheckParents f path =
     (if Clean path \<noteq> path then Inl PathNotClean
      else if IsAbs path then checkDirectory f (Dir (Clean path))
      else (case fs_cwd f of
          None \<Rightarrow> Inl NoWorkingDirectory
        | Some wd \<Rightarrow> checkDirectory f (Dir (Join wd path))))"

section \<open>Trusted files\<close>

text \<open>What opening a path without following a final symlink gives: the descriptor's \<open>Stat\<close> and
  the bytes reading it to the end would return.\<close>

record opened =
  op_stat :: "file_info option"
  op_read :: "bytes option"

type_synonym open_env = "string \<Rightarrow> opened option"

definition OpenOwnerFile :: "fs \<Rightarrow> open_env \<Rightarrow> string \<Rightarrow> bool \<Rightarrow> secure_error + opened" where
  "OpenOwnerFile f env path executable =
     (case CheckParents f path of
        Inl e \<Rightarrow> Inl e
      | Inr _ \<Rightarrow>
          (case env path of
             None \<Rightarrow> Inl OpenError
           | Some file \<Rightarrow>
               (case op_stat file of
                  None \<Rightarrow> Inl StatError
                | Some info \<Rightarrow>
                    (case checkInfo (fs_euid f) info executable of
                       Inl e \<Rightarrow> Inl e
                     | Inr _ \<Rightarrow> Inr file))))"

definition CheckOwnerFile :: "fs \<Rightarrow> open_env \<Rightarrow> string \<Rightarrow> bool \<Rightarrow> secure_error + unit" where
  "CheckOwnerFile f env path executable =
     (case OpenOwnerFile f env path executable of Inl e \<Rightarrow> Inl e | Inr _ \<Rightarrow> Inr ())"

definition ReadOwnerFile :: "fs \<Rightarrow> open_env \<Rightarrow> string \<Rightarrow> nat \<Rightarrow> secure_error + bytes" where
  "ReadOwnerFile f env path maxBytes =
     (case OpenOwnerFile f env path False of
        Inl e \<Rightarrow> Inl e
      | Inr file \<Rightarrow>
          (case map_option (take (maxBytes + 1)) (op_read file) of
             None \<Rightarrow> Inl ReadError
           | Some data \<Rightarrow> if maxBytes < length data then Inl TooLarge else Inr data))"

section \<open>What the walk guarantees\<close>

definition protected_dir :: "fs \<Rightarrow> string \<Rightarrow> bool" where
  "protected_dir f path \<longleftrightarrow> (\<exists>info. fs_lstat f path = Some info
     \<and> trusted_owner (fs_euid f) (fi_uid info) \<and> \<not> is_symlink (fi_mode info) \<and> is_dir (fi_mode info)
     \<and> (shared_writable (fi_mode info) \<longrightarrow> fi_uid info = Some 0 \<and> is_sticky (fi_mode info)))"

text \<open>A directory and everything above it.\<close>

definition protected_chain :: "fs \<Rightarrow> string list \<Rightarrow> bool" where
  "protected_chain f cs \<longleftrightarrow> (\<forall>i \<le> length cs. protected_dir f (abs_path (take i cs)))"

lemma protected_chain_Nil: "protected_chain f [] \<longleftrightarrow> protected_dir f (abs_path [])"
  by (simp add: protected_chain_def)

lemma protected_chain_snoc:
  "protected_chain f (cs @ [x]) \<longleftrightarrow> protected_chain f cs \<and> protected_dir f (abs_path (cs @ [x]))"
proof
  assume a: "protected_chain f (cs @ [x])"
  have "protected_dir f (abs_path (take i cs))" if "i \<le> length cs" for i
    using a [unfolded protected_chain_def, rule_format, of i] that by simp
  moreover have "protected_dir f (abs_path (cs @ [x]))"
    using a [unfolded protected_chain_def, rule_format, of "length (cs @ [x])"] by simp
  ultimately show "protected_chain f cs \<and> protected_dir f (abs_path (cs @ [x]))"
    by (simp add: protected_chain_def)
next
  assume a: "protected_chain f cs \<and> protected_dir f (abs_path (cs @ [x]))"
  show "protected_chain f (cs @ [x])"
    unfolding protected_chain_def
  proof (intro allI impI)
    fix i
    assume "i \<le> length (cs @ [x])"
    then consider "i \<le> length cs" | "i = Suc (length cs)" by force
    then show "protected_dir f (abs_path (take i (cs @ [x])))"
      using a by cases (simp_all add: protected_chain_def)
  qed
qed

lemma protected_chain_butlast: "protected_chain f cs \<Longrightarrow> protected_chain f (butlast cs)"
  by (cases cs rule: rev_cases) (simp_all add: protected_chain_snoc)

lemma protected_chain_step:
  assumes "protected_chain f cs" "protected_dir f (abs_path (clean_comp True cs p))"
  shows "protected_chain f (clean_comp True cs p)"
  using assms by (auto simp: clean_comp_def protected_chain_snoc protected_chain_butlast)

text \<open>One successful step enters a protected directory or follows a symlink.\<close>

lemma walk_step:
  assumes "walk f resolved (p # pending) links = Inr r"
  obtains (enter) info uid where "fs_lstat f (Join resolved p) = Some info" "fi_uid info = Some uid"
      "\<not> (uid \<noteq> 0 \<and> uid \<noteq> fs_euid f)" "\<not> is_symlink (fi_mode info)"
      "\<not> (\<not> is_dir (fi_mode info)
         \<or> (shared_writable (fi_mode info) \<and> \<not> (uid = 0 \<and> is_sticky (fi_mode info))))"
      "walk f (Join resolved p) pending links = Inr r"
  | (follow) info uid target where "fs_lstat f (Join resolved p) = Some info" "fi_uid info = Some uid"
      "\<not> (uid \<noteq> 0 \<and> uid \<noteq> fs_euid f)" "is_symlink (fi_mode info)" "\<not> 40 < Suc links"
      "fs_readlink f (Join resolved p) = Some target"
      "walk f (if IsAbs target then [slash] else resolved) (split_on slash target @ pending) (Suc links) = Inr r"
proof -
  obtain info where i: "fs_lstat f (Join resolved p) = Some info"
    using assms by (cases "fs_lstat f (Join resolved p)") simp_all
  obtain uid where u: "fi_uid info = Some uid" "\<not> (uid \<noteq> 0 \<and> uid \<noteq> fs_euid f)"
    using assms i by (cases "fi_uid info") (simp_all split: if_split_asm)
  show ?thesis
  proof (cases "is_symlink (fi_mode info)")
    case True
    with assms i u follow show ?thesis
      by (cases "fs_readlink f (Join resolved p)") (simp_all split: if_split_asm)
  next
    case False
    with assms i u have "\<not> (\<not> is_dir (fi_mode info)
        \<or> (shared_writable (fi_mode info) \<and> \<not> (uid = 0 \<and> is_sticky (fi_mode info))))"
      "walk f (Join resolved p) pending links = Inr r"
      by (simp_all only: walk.simps option.case if_False split: if_split_asm) simp_all
    with i u False enter show ?thesis by blast
  qed
qed

text \<open>The root of the file system is a directory, never a symlink.\<close>

definition real_root :: "fs \<Rightarrow> bool" where
  "real_root f \<longleftrightarrow> (\<forall>info. fs_lstat f [slash] = Some info \<longrightarrow> \<not> is_symlink (fi_mode info))"

lemma walk_protected:
  assumes "walk f resolved pending links = Inr r" "real_root f"
    and "resolved = abs_path cs" "list_all proper cs" "\<forall>p \<in> set pending. slash \<notin> set p"
    and "protected_chain f cs \<or> (cs = [] \<and> pending \<noteq> [] \<and> hd pending = [])"
  shows "\<exists>ds. r = abs_path ds \<and> list_all proper ds \<and> protected_chain f ds"
  using assms
proof (induction f resolved pending links arbitrary: cs rule: walk.induct)
  case (1 f resolved links)
  then show ?case by auto
next
  case (2 f resolved p pending links)
  let ?path = "Join resolved p" and ?ds = "clean_comp True cs p"
  have j: "?path = abs_path ?ds" and d: "list_all proper ?ds"
    using "2.prems" by (auto simp: Join_abs_path clean_comp_proper)
  have root: "abs_path [] = [slash]" by (simp add: abs_path_def)
  show ?case
  proof (cases rule: walk_step [OF "2.prems"(1)])
    case (1 info uid)
    then have prot: "protected_dir f (abs_path ?ds)"
      by (auto simp: protected_dir_def trusted_owner_def j)
    have "protected_chain f ?ds"
    proof (cases "protected_chain f cs")
      case True
      with prot show ?thesis by (simp add: protected_chain_step)
    next
      case False
      with "2.prems"(6) prot show ?thesis by (auto simp: protected_chain_Nil)
    qed
    with "2.prems"(2,5) show ?thesis
      by (intro "2.IH"(2) [OF 1(1-6) _ j d]) auto
  next
    case (2 info uid target)
    note two = this
    have slashes: "\<forall>q \<in> set (split_on slash target @ pending). slash \<notin> set q"
      using "2.prems"(5) split_on_no_sep by fastforce
    show ?thesis
    proof (cases "IsAbs target")
      case True
      then have "hd (split_on slash target) = []"
        by (auto simp: IsAbs_iff)
      with True slashes root "2.prems"(2) show ?thesis
        by (intro "2.IH"(1) [OF two, of "[]"]) auto
    next
      case False
      have "protected_chain f cs"
      proof (rule ccontr)
        assume "\<not> protected_chain f cs"
        with "2.prems"(6) j root have "?path = [slash]" by auto
        with two(1,4) "2.prems"(2) show False by (auto simp: real_root_def)
      qed
      with False slashes "2.prems"(2-4) show ?thesis
        by (intro "2.IH"(1) [OF two, of cs]) auto
    qed
  qed
qed

lemma protected_dir_step:
  "protected_dir f (Join resolved p) \<Longrightarrow>
     walk f resolved (p # pending) links = walk f (Join resolved p) pending links"
  by (auto simp: protected_dir_def trusted_owner_def split: option.splits)

lemma Join_proper:
  "list_all proper (cs @ [p]) \<Longrightarrow> Join (abs_path cs) p = abs_path (cs @ [p])"
  using Join_abs_path [of cs p] by (simp add: clean_comp_def) (simp add: proper_def)

lemma walk_plain:
  assumes "list_all proper (cs @ ps)" "protected_chain f (cs @ ps)"
  shows "walk f (abs_path cs) ps links = Inr (abs_path (cs @ ps))"
  using assms
proof (induction ps arbitrary: cs)
  case (Cons p ps)
  have j: "Join (abs_path cs) p = abs_path (cs @ [p])"
    using Cons.prems(1) by (intro Join_proper) simp
  have "protected_dir f (abs_path (cs @ [p]))"
    using Cons.prems(2) [unfolded protected_chain_def, rule_format, of "Suc (length cs)"] by simp
  then have "walk f (abs_path cs) (p # ps) links = walk f (abs_path (cs @ [p])) ps links"
    using protected_dir_step [of f "abs_path cs" p] j by simp
  with Cons.IH [of "cs @ [p]"] Cons.prems show ?case by simp
qed simp

text \<open>Without symlinks the walk visits exactly the directories above the file.\<close>

lemma walk_no_links:
  assumes "walk f (abs_path cs) ps links = Inr r" "list_all proper (cs @ ps)"
    and "\<forall>i \<le> length ps. \<forall>info. fs_lstat f (abs_path (cs @ take i ps)) = Some info \<longrightarrow>
        \<not> is_symlink (fi_mode info)"
    and "protected_chain f cs"
  shows "protected_chain f (cs @ ps)"
  using assms
proof (induction ps arbitrary: cs)
  case (Cons p ps)
  have j: "Join (abs_path cs) p = abs_path (cs @ [p])"
    using Cons.prems(2) by (intro Join_proper) simp
  have no_link: "\<not> is_symlink (fi_mode info)" if "fs_lstat f (abs_path (cs @ [p])) = Some info" for info
    using Cons.prems(3) [rule_format, of 1 info] that by simp
  show ?case
  proof (cases rule: walk_step [OF Cons.prems(1)])
    case (1 info uid)
    then have "protected_dir f (abs_path (cs @ [p]))"
      by (auto simp: protected_dir_def trusted_owner_def j)
    then have c: "protected_chain f (cs @ [p])"
      using Cons.prems(4) by (simp add: protected_chain_snoc)
    have "\<forall>i \<le> length ps. \<forall>info. fs_lstat f (abs_path ((cs @ [p]) @ take i ps)) = Some info \<longrightarrow>
        \<not> is_symlink (fi_mode info)"
      using Cons.prems(3) by (auto dest: spec [of _ "Suc _"])
    with Cons.IH [of "cs @ [p]"] 1(6) c Cons.prems(2) j show ?thesis by simp
  next
    case (2 info uid target)
    with no_link j show ?thesis by simp
  qed
qed simp

lemma checkDirectory_abs_path:
  "list_all proper cs \<Longrightarrow>
     checkDirectory f (abs_path cs) = Inr () \<longleftrightarrow>
     (\<exists>r. walk f (abs_path []) ([] # (if cs = [] then [[]] else cs)) 0 = Inr r)"
  unfolding checkDirectory_def
  by (simp only: split_abs_path) (auto simp: abs_path_def split: sum.split)

lemma CheckParents_abs_path:
  "list_all proper (cs @ [x]) \<Longrightarrow> CheckParents f (abs_path (cs @ [x])) = checkDirectory f (abs_path cs)"
  by (simp only: CheckParents_def Clean_abs_path Dir_abs_path IsAbs_abs_path) simp

lemma Join_root: "Join (abs_path []) [] = abs_path []"
  using Join_abs_path [of "[]" "[]"] by simp

lemma walk_root:
  "protected_dir f (abs_path []) \<Longrightarrow>
     walk f (abs_path []) ([] # ps) links = walk f (abs_path []) ps links"
  using protected_dir_step [of f "abs_path []" "[]"] by (simp add: Join_root)

lemma walk_root_protected:
  assumes "walk f (abs_path []) ([] # ps) links = Inr r"
    and "\<forall>info. fs_lstat f (abs_path []) = Some info \<longrightarrow> \<not> is_symlink (fi_mode info)"
  shows "protected_dir f (abs_path [])"
proof (cases rule: walk_step [OF assms(1)])
  case (1 info uid)
  then show ?thesis by (auto simp: protected_dir_def trusted_owner_def Join_root)
next
  case (2 info uid target)
  with assms(2) show ?thesis by (simp add: Join_root)
qed

section \<open>Properties\<close>

text \<open>C37: When \<open>CheckParents\<close> accepts an absolute path, the walk over its directory, through all
  symlinks, ended in a directory that is protected together with everything above it: owned by
  root or the broker's user, no symlink, and writable by others only as root's sticky directory.\<close>

theorem check_parents_protected:
  assumes "CheckParents f path = Inr ()" "IsAbs path" "real_root f"
  shows "\<exists>ds. walk f [slash] (split_on slash (Dir path)) 0 = Inr (abs_path ds)
     \<and> list_all proper ds \<and> protected_chain f ds"
proof -
  have clean: "Clean path = path" using assms(1) by (auto simp: CheckParents_def split: if_split_asm)
  with assms(2) obtain cs where cs: "list_all proper cs" "path = abs_path cs"
    using clean_absolute_iff by blast
  have "checkDirectory f (Dir path) = Inr ()"
    using assms(1,2) clean by (simp add: CheckParents_def)
  then obtain r where r: "walk f (abs_path []) (split_on slash (Dir path)) 0 = Inr r"
    by (auto simp: checkDirectory_def abs_path_def split: sum.split_asm)
  have "\<exists>t. split_on slash (Dir path) = [] # t"
  proof (cases cs rule: rev_cases)
    case Nil
    then have "Dir path = Clean [slash]" by (simp add: Dir_def cs(2) abs_path_def)
    also have "\<dots> = abs_path []" using Clean_abs_path [of "[]"] by (simp add: abs_path_def)
    finally show ?thesis by (simp add: split_abs_path)
  next
    case (snoc ys y)
    with cs show ?thesis by (simp add: Dir_abs_path split_abs_path)
  qed
  with walk_protected [OF r assms(3), of "[]"] show ?thesis
    using r split_on_no_sep [of _ slash "Dir path"] by (auto simp: abs_path_def)
qed

text \<open>For an absolute clean path none of whose directories is a symlink, \<open>CheckParents\<close> accepts
  exactly when every directory above the file is protected.\<close>

theorem check_parents_plain_iff:
  assumes "list_all proper (cs @ [x])"
    and "\<forall>i \<le> length cs. \<forall>info. fs_lstat f (abs_path (take i cs)) = Some info \<longrightarrow>
        \<not> is_symlink (fi_mode info)"
  shows "CheckParents f (abs_path (cs @ [x])) = Inr () \<longleftrightarrow> protected_chain f cs"
proof -
  have p: "list_all proper cs" using assms(1) by simp
  have root: "\<forall>info. fs_lstat f (abs_path []) = Some info \<longrightarrow> \<not> is_symlink (fi_mode info)"
    using assms(2) [rule_format, of 0] by simp
  let ?ps = "if cs = [] then [[]] else cs"
  have "(\<exists>r. walk f (abs_path []) ([] # ?ps) 0 = Inr r) \<longleftrightarrow> protected_chain f cs"
  proof
    assume "\<exists>r. walk f (abs_path []) ([] # ?ps) 0 = Inr r"
    then obtain r where r: "walk f (abs_path []) ([] # ?ps) 0 = Inr r" ..
    note d = walk_root_protected [OF r root]
    then have c: "protected_chain f []" by (simp add: protected_chain_Nil)
    show "protected_chain f cs"
    proof (cases "cs = []")
      case False
      with r have "walk f (abs_path []) cs 0 = Inr r" by (simp add: walk_root [OF d] del: walk.simps)
      from walk_no_links [OF this _ _ c] p assms(2) show ?thesis by simp
    qed (use c in simp)
  next
    assume c: "protected_chain f cs"
    then have d: "protected_dir f (abs_path [])"
      using c [unfolded protected_chain_def, rule_format, of 0] by simp
    show "\<exists>r. walk f (abs_path []) ([] # ?ps) 0 = Inr r"
      using walk_plain [of "[]" cs f 0] c p
      by (cases "cs = []") (simp_all add: walk_root [OF d] del: walk.simps(2))
  qed
  then show ?thesis
    unfolding CheckParents_abs_path [OF assms(1)] checkDirectory_abs_path [OF p] .
qed

text \<open>C38: \<open>ReadOwnerFile\<close> returns only the complete contents, of at most \<open>maxBytes\<close> bytes, of a
  regular file that is owned by root or the broker's user, not writable by others, and reached
  through protected parents.\<close>

theorem read_owner_file_safe:
  assumes "ReadOwnerFile f env path maxBytes = Inr data"
  shows "CheckParents f path = Inr () \<and> length data \<le> maxBytes
     \<and> (\<exists>file info. env path = Some file \<and> op_read file = Some data \<and> op_stat file = Some info
          \<and> is_regular (fi_mode info) \<and> \<not> shared_writable (fi_mode info)
          \<and> trusted_owner (fs_euid f) (fi_uid info))"
proof -
  from assms obtain fl where o: "OpenOwnerFile f env path False = Inr fl"
    "(case map_option (take (maxBytes + 1)) (op_read fl) of None \<Rightarrow> Inl ReadError
      | Some data \<Rightarrow> if maxBytes < length data then Inl TooLarge else Inr data) = Inr data"
    by (auto simp: ReadOwnerFile_def split: sum.split_asm)
  from o(1) obtain info where i: "CheckParents f path = Inr ()" "env path = Some fl"
    "op_stat fl = Some info" "checkInfo (fs_euid f) info False = Inr ()"
    by (auto simp: OpenOwnerFile_def split: sum.split_asm option.split_asm)
  from i(4) have "is_regular (fi_mode info)" "\<not> shared_writable (fi_mode info)"
    "trusted_owner (fs_euid f) (fi_uid info)"
    by (auto simp: checkInfo_def trusted_owner_def split: if_split_asm option.split_asm)
  moreover have "op_read fl = Some data" "length data \<le> maxBytes"
    using o(2) by (auto split: option.split_asm if_split_asm)
  ultimately show ?thesis using i by blast
qed

text \<open>A snapshot in which every path is a root-owned directory with mode 0755.\<close>

definition example_fs :: fs where
  "example_fs = \<lparr>fs_euid = 501, fs_cwd = None,
     fs_lstat = \<lambda>_. Some \<lparr>fi_mode = 0x800001ED, fi_uid = Some 0\<rparr>, fs_readlink = \<lambda>_. None\<rparr>"

lemma example_modes:
  "\<not> is_symlink 0x800001ED" "is_dir 0x800001ED" "\<not> shared_writable 0x800001ED"
  "is_regular 0x180" "\<not> shared_writable 0x180"
  by code_simp+

lemma example_fs_protected: "protected_dir example_fs path" "real_root example_fs"
  by (simp_all add: protected_dir_def real_root_def example_fs_def trusted_owner_def example_modes)

lemma example_proper: "list_all proper ([''etc''] @ [''p''])"
  by (simp add: proper_def)

lemma example_path: "''/etc/p'' = abs_path ([''etc''] @ [''p''])"
  by (simp add: abs_path_def)

lemma example_parents: "CheckParents example_fs ''/etc/p'' = Inr ()"
proof -
  have p: "list_all proper [''etc'']" by (simp add: proper_def)
  have "walk example_fs (abs_path []) [''etc''] 0 = Inr (abs_path ([] @ [''etc'']))"
    by (rule walk_plain) (use p in \<open>simp_all add: protected_chain_def example_fs_protected\<close>)
  then show ?thesis
    unfolding example_path CheckParents_abs_path [OF example_proper] checkDirectory_abs_path [OF p]
    by (simp add: walk_root [OF example_fs_protected(1)] del: walk.simps)
qed

definition example_file :: "bytes \<Rightarrow> open_env" where
  "example_file data = (\<lambda>_. Some \<lparr>op_stat = Some \<lparr>fi_mode = 0x180, fi_uid = Some 501\<rparr>, op_read = Some data\<rparr>)"

lemma example_read:
  "length data \<le> n \<Longrightarrow> ReadOwnerFile example_fs (example_file data) ''/etc/p'' n = Inr data"
  by (simp add: ReadOwnerFile_def OpenOwnerFile_def example_parents checkInfo_def example_file_def example_modes)
    (simp add: example_fs_def)

lemma check_parents_plain_iff_witness:
  "CheckParents example_fs (abs_path ([''etc''] @ [''p''])) = Inr ()"
  by (subst check_parents_plain_iff [OF example_proper])
    (simp_all add: protected_chain_def example_fs_protected, simp add: example_fs_def example_modes)

lemma check_parents_protected_witness:
  "\<exists>ds. walk example_fs [slash] (split_on slash (Dir ''/etc/p'')) 0 = Inr (abs_path ds)
     \<and> protected_chain example_fs ds"
  using check_parents_protected [OF example_parents _ example_fs_protected(2)]
  by (auto simp: IsAbs_iff)

lemma read_owner_file_safe_witness:
  "ReadOwnerFile example_fs (example_file ''{}'') ''/etc/p'' 2 = Inr ''{}'' \<and> length ''{}'' \<le> 2"
proof -
  have "ReadOwnerFile example_fs (example_file ''{}'') ''/etc/p'' 2 = Inr ''{}''"
    by (rule example_read) simp
  from read_owner_file_safe [OF this] this show ?thesis by blast
qed

end
