(* ===== verification/Config.thy ===== *)
theory Config
  imports SecureFile Rpc Policy
begin

text \<open>
  \<open>internal/config\<close>: the owner's configuration and the Contacts source, their defaults, their
  validation and loading them from a trusted file; also \<open>policy.Load\<close>, which reads the policy file
  the same way.  The code checks the string fields of the configuration in the order of a Go map,
  which is not fixed; the model checks them in the order they are written, which decides only
  which of several errors is reported.
\<close>

section \<open>The Contacts source\<close>

record contacts_source =
  cs_helper_path :: string
  cs_container_id :: string
  cs_group_ids :: "string list option"
  cs_default_phone_region :: string
  cs_refresh_seconds :: int
  cs_max_age_seconds :: int
  cs_timeout_ms :: int
  cs_max_contacts :: int

definition default_int :: "int \<Rightarrow> int \<Rightarrow> int" where
  "default_int d x = (if x = 0 then d else x)"

definition ContactsDefaults :: "contacts_source \<Rightarrow> contacts_source" where
  "ContactsDefaults c = c\<lparr>
     cs_refresh_seconds := default_int 900 (cs_refresh_seconds c),
     cs_max_age_seconds := default_int 3600 (cs_max_age_seconds c),
     cs_timeout_ms := default_int 10000 (cs_timeout_ms c),
     cs_max_contacts := default_int 1000 (cs_max_contacts c)\<rparr>"

definition validID :: "string \<Rightarrow> bool" where
  "validID s \<longleftrightarrow> s \<noteq> [] \<and> trim_space s = s \<and> length s \<le> 512
     \<and> \<not> contains_any [CHR 0x00, CHR 0x0D, CHR 0x0A] s"

fun valid_group_ids :: "string set \<Rightarrow> string list \<Rightarrow> bool" where
  "valid_group_ids seen [] = True"
| "valid_group_ids seen (i # ids) =
     (if \<not> validID i \<or> i \<in> seen then False else valid_group_ids (insert i seen) ids)"

datatype contacts_config_error = HelperPathInvalid | SelectionInvalid | GroupIDInvalid | RegionInvalid | ContactBoundInvalid

definition clean_non_root :: "string \<Rightarrow> bool" where
  "clean_non_root path \<longleftrightarrow> IsAbs path \<and> Clean path \<noteq> [slash] \<and> Clean path = path"

definition group_ids :: "contacts_source \<Rightarrow> string list" where
  "group_ids c = (case cs_group_ids c of None \<Rightarrow> [] | Some ids \<Rightarrow> ids)"

definition ContactsValidate :: "contacts_source \<Rightarrow> contacts_config_error + unit" where
  "ContactsValidate c =
     (if \<not> IsAbs (cs_helper_path c) \<or> Clean (cs_helper_path c) \<noteq> cs_helper_path c
         \<or> cs_helper_path c = [slash]
      then Inl HelperPathInvalid
      else if \<not> validID (cs_container_id c) \<or> cs_group_ids c = Some [] \<or> length (group_ids c) > 100
      then Inl SelectionInvalid
      else if \<not> valid_group_ids {} (group_ids c) then Inl GroupIDInvalid
      else if cs_default_phone_region c \<noteq> [] \<and> cs_default_phone_region c \<noteq> ''US''
         \<and> cs_default_phone_region c \<noteq> ''CA''
      then Inl RegionInvalid
      else if cs_refresh_seconds c < 60 \<or> cs_refresh_seconds c > 3600
         \<or> cs_max_age_seconds c < cs_refresh_seconds c \<or> cs_max_age_seconds c > 86400
         \<or> cs_timeout_ms c < 1000 \<or> cs_timeout_ms c > 60000
         \<or> cs_max_contacts c < 1 \<or> cs_max_contacts c > 10000
      then Inl ContactBoundInvalid
      else Inr ())"

section \<open>The configuration\<close>

record config =
  cf_instance :: string
  cf_account_id :: string
  cf_client_uid :: nat
  cf_socket_path :: string
  cf_socket_mode :: string
  cf_backend_path :: string
  cf_backend_version :: string
  cf_database_path :: string
  cf_backend_account_id :: string
  cf_database_generation :: string
  cf_policy_path :: string
  cf_max_results :: int
  cf_max_chat_scan :: int
  cf_max_message_scan :: int
  cf_max_collection_scan :: int
  cf_backend_timeout_ms :: int
  cf_contacts :: "contacts_source option"

definition CollectionBackendVersion :: string where
  "CollectionBackendVersion = ''0.13.1-safe-imsg.4''"

definition RequestMaxBytes :: "32 word" where
  "RequestMaxBytes = 0x100000"

definition applyDefaults :: "config \<Rightarrow> config" where
  "applyDefaults c = c\<lparr>
     cf_contacts := map_option ContactsDefaults (cf_contacts c),
     cf_socket_mode := (if cf_socket_mode c = [] then ''0660'' else cf_socket_mode c),
     cf_max_results := default_int 100 (cf_max_results c),
     cf_max_chat_scan := default_int 500 (cf_max_chat_scan c),
     cf_max_message_scan := default_int 1000 (cf_max_message_scan c),
     cf_max_collection_scan := default_int 500 (cf_max_collection_scan c),
     cf_backend_timeout_ms := default_int 10000 (cf_backend_timeout_ms c)\<rparr>"

text \<open>\<open>strconv.ParseUint(s, 8, 32)\<close>.\<close>

definition octal_digit :: "char \<Rightarrow> bool" where
  "octal_digit c \<longleftrightarrow> 48 \<le> byte c \<and> byte c \<le> 55"

definition octal_value :: "string \<Rightarrow> nat" where
  "octal_value s = foldl (\<lambda>acc c. 8 * acc + (byte c - 48)) 0 s"

definition parse_octal :: "string \<Rightarrow> nat option" where
  "parse_octal s =
     (if s = [] \<or> \<not> list_all octal_digit s \<or> 2 ^ 32 \<le> octal_value s then None else Some (octal_value s))"

definition SocketFileMode :: "config \<Rightarrow> 32 word option" where
  "SocketFileMode c = (case parse_octal (trim_space (cf_socket_mode c)) of
      None \<Rightarrow> None
    | Some parsed \<Rightarrow> if 0x1FF < parsed then None else Some (of_nat parsed))"

datatype config_error =
    ContactsConfig contacts_config_error
  | FieldRequired
  | FieldTooLong
  | BackendVersionNotAudited
  | PathNotCleanAbsolute
  | ClientUIDZero
  | ClientUIDIsOwner
  | SocketModeInvalid
  | SocketModeUnsafe
  | MaxResultsRange
  | MaxChatScanRange
  | MaxMessageScanRange
  | MaxCollectionScanRange
  | BackendTimeoutRange
  | ConfigUnreadable
  | ConfigUnparsable
  | ConfigNotOneObject

fun check_fields :: "string list \<Rightarrow> config_error option" where
  "check_fields [] = None"
| "check_fields (value # vals) =
     (let value = trim_space value in
      if value = [] then Some FieldRequired
      else if length value > 128 then Some FieldTooLong
      else check_fields vals)"

definition Validate :: "nat \<Rightarrow> config \<Rightarrow> config_error + unit" where
  "Validate euid c =
     (case (case cf_contacts c of None \<Rightarrow> Inr () | Some s \<Rightarrow> ContactsValidate s) of
        Inl e \<Rightarrow> Inl (ContactsConfig e)
      | Inr _ \<Rightarrow>
          (case check_fields [cf_instance c, cf_account_id c, cf_backend_version c,
                  cf_backend_account_id c, cf_database_generation c] of
             Some e \<Rightarrow> Inl e
           | None \<Rightarrow>
               if cf_backend_version c \<noteq> ''0.13.1'' \<and> cf_backend_version c \<noteq> CollectionBackendVersion
               then Inl BackendVersionNotAudited
               else if \<not> list_all clean_non_root [cf_socket_path c, cf_backend_path c,
                    cf_database_path c, cf_policy_path c]
               then Inl PathNotCleanAbsolute
               else if cf_client_uid c = 0 then Inl ClientUIDZero
               else if cf_client_uid c = euid then Inl ClientUIDIsOwner
               else (case SocketFileMode c of
                   None \<Rightarrow> Inl SocketModeInvalid
                 | Some mode \<Rightarrow>
                     if perm mode AND 7 \<noteq> 0 \<or> perm mode AND 0x180 \<noteq> 0x180 then Inl SocketModeUnsafe
                     else if cf_max_results c < 1 \<or> cf_max_results c > 500 then Inl MaxResultsRange
                     else if cf_max_chat_scan c < cf_max_results c \<or> cf_max_chat_scan c > 5000
                     then Inl MaxChatScanRange
                     else if cf_max_message_scan c < cf_max_results c \<or> cf_max_message_scan c > 10000
                     then Inl MaxMessageScanRange
                     else if cf_max_collection_scan c < cf_max_results c \<or> cf_max_collection_scan c > 1000
                     then Inl MaxCollectionScanRange
                     else if cf_backend_timeout_ms c < 1000 \<or> cf_backend_timeout_ms c > 60000
                     then Inl BackendTimeoutRange
                     else Inr ())))"

section \<open>Loading\<close>

text \<open>One JSON value with no unknown fields and nothing after it; the two kinds of failure are the
  two \<open>Decode\<close> calls.\<close>

datatype 'r decoded = Decoded 'r | NotDecodable | TrailingData

definition decode_file :: "('r \<Rightarrow> string \<Rightarrow> json \<Rightarrow> 'r option) \<Rightarrow> 'r \<Rightarrow> bytes \<Rightarrow> 'r decoded" where
  "decode_file step zero data =
     (case read_value data of
        None \<Rightarrow> NotDecodable
      | Some (v, rest) \<Rightarrow>
          (case decode_struct step zero v of
             None \<Rightarrow> NotDecodable
           | Some r \<Rightarrow> if skip_ws rest = [] then Decoded r else TrailingData))"

definition contacts_source_step :: "contacts_source \<Rightarrow> string \<Rightarrow> json \<Rightarrow> contacts_source option" where
  "contacts_source_step r k v =
     (if key_is ''helper_path'' k
      then map_option (\<lambda>x. r\<lparr>cs_helper_path := x\<rparr>) (dec_string (cs_helper_path r) v)
      else if key_is ''container_id'' k
      then map_option (\<lambda>x. r\<lparr>cs_container_id := x\<rparr>) (dec_string (cs_container_id r) v)
      else if key_is ''group_ids'' k
      then map_option (\<lambda>x. r\<lparr>cs_group_ids := x\<rparr>) (dec_slice dec_string [] (cs_group_ids r) v)
      else if key_is ''default_phone_region'' k
      then map_option (\<lambda>x. r\<lparr>cs_default_phone_region := x\<rparr>) (dec_string (cs_default_phone_region r) v)
      else if key_is ''refresh_seconds'' k
      then map_option (\<lambda>x. r\<lparr>cs_refresh_seconds := x\<rparr>) (dec_int (cs_refresh_seconds r) v)
      else if key_is ''max_age_seconds'' k
      then map_option (\<lambda>x. r\<lparr>cs_max_age_seconds := x\<rparr>) (dec_int (cs_max_age_seconds r) v)
      else if key_is ''timeout_ms'' k
      then map_option (\<lambda>x. r\<lparr>cs_timeout_ms := x\<rparr>) (dec_int (cs_timeout_ms r) v)
      else if key_is ''max_contacts'' k
      then map_option (\<lambda>x. r\<lparr>cs_max_contacts := x\<rparr>) (dec_int (cs_max_contacts r) v)
      else None)"

definition zero_contacts_source :: contacts_source where
  "zero_contacts_source = \<lparr>cs_helper_path = [], cs_container_id = [], cs_group_ids = None,
     cs_default_phone_region = [], cs_refresh_seconds = 0, cs_max_age_seconds = 0,
     cs_timeout_ms = 0, cs_max_contacts = 0\<rparr>"

definition config_step :: "config \<Rightarrow> string \<Rightarrow> json \<Rightarrow> config option" where
  "config_step r k v =
     (if key_is ''instance'' k then map_option (\<lambda>x. r\<lparr>cf_instance := x\<rparr>) (dec_string (cf_instance r) v)
      else if key_is ''account_id'' k
      then map_option (\<lambda>x. r\<lparr>cf_account_id := x\<rparr>) (dec_string (cf_account_id r) v)
      else if key_is ''client_uid'' k
      then map_option (\<lambda>x. r\<lparr>cf_client_uid := x\<rparr>) (dec_uint32 (cf_client_uid r) v)
      else if key_is ''socket_path'' k
      then map_option (\<lambda>x. r\<lparr>cf_socket_path := x\<rparr>) (dec_string (cf_socket_path r) v)
      else if key_is ''socket_mode'' k
      then map_option (\<lambda>x. r\<lparr>cf_socket_mode := x\<rparr>) (dec_string (cf_socket_mode r) v)
      else if key_is ''backend_path'' k
      then map_option (\<lambda>x. r\<lparr>cf_backend_path := x\<rparr>) (dec_string (cf_backend_path r) v)
      else if key_is ''backend_version'' k
      then map_option (\<lambda>x. r\<lparr>cf_backend_version := x\<rparr>) (dec_string (cf_backend_version r) v)
      else if key_is ''database_path'' k
      then map_option (\<lambda>x. r\<lparr>cf_database_path := x\<rparr>) (dec_string (cf_database_path r) v)
      else if key_is ''backend_account_id'' k
      then map_option (\<lambda>x. r\<lparr>cf_backend_account_id := x\<rparr>) (dec_string (cf_backend_account_id r) v)
      else if key_is ''database_generation'' k
      then map_option (\<lambda>x. r\<lparr>cf_database_generation := x\<rparr>) (dec_string (cf_database_generation r) v)
      else if key_is ''policy_path'' k
      then map_option (\<lambda>x. r\<lparr>cf_policy_path := x\<rparr>) (dec_string (cf_policy_path r) v)
      else if key_is ''max_results'' k
      then map_option (\<lambda>x. r\<lparr>cf_max_results := x\<rparr>) (dec_int (cf_max_results r) v)
      else if key_is ''max_chat_scan'' k
      then map_option (\<lambda>x. r\<lparr>cf_max_chat_scan := x\<rparr>) (dec_int (cf_max_chat_scan r) v)
      else if key_is ''max_message_scan'' k
      then map_option (\<lambda>x. r\<lparr>cf_max_message_scan := x\<rparr>) (dec_int (cf_max_message_scan r) v)
      else if key_is ''max_collection_scan'' k
      then map_option (\<lambda>x. r\<lparr>cf_max_collection_scan := x\<rparr>) (dec_int (cf_max_collection_scan r) v)
      else if key_is ''backend_timeout_ms'' k
      then map_option (\<lambda>x. r\<lparr>cf_backend_timeout_ms := x\<rparr>) (dec_int (cf_backend_timeout_ms r) v)
      else if key_is ''contacts'' k
      then map_option (\<lambda>x. r\<lparr>cf_contacts := x\<rparr>)
             (dec_pointer (decode_struct contacts_source_step) zero_contacts_source (cf_contacts r) v)
      else None)"

definition zero_config :: config where
  "zero_config = \<lparr>cf_instance = [], cf_account_id = [], cf_client_uid = 0, cf_socket_path = [],
     cf_socket_mode = [], cf_backend_path = [], cf_backend_version = [], cf_database_path = [],
     cf_backend_account_id = [], cf_database_generation = [], cf_policy_path = [],
     cf_max_results = 0, cf_max_chat_scan = 0, cf_max_message_scan = 0,
     cf_max_collection_scan = 0, cf_backend_timeout_ms = 0, cf_contacts = None\<rparr>"

definition LoadConfig :: "fs \<Rightarrow> open_env \<Rightarrow> string \<Rightarrow> config_error + config" where
  "LoadConfig f env path =
     (case ReadOwnerFile f env path (2 ^ 20) of
        Inl _ \<Rightarrow> Inl ConfigUnreadable
      | Inr data \<Rightarrow>
          (case decode_file config_step zero_config data of
             NotDecodable \<Rightarrow> Inl ConfigUnparsable
           | TrailingData \<Rightarrow> Inl ConfigNotOneObject
           | Decoded cfg \<Rightarrow>
               (case Validate (unat (fs_euid f)) (applyDefaults cfg) of
                  Inl e \<Rightarrow> Inl e
                | Inr _ \<Rightarrow> Inr (applyDefaults cfg))))"

subsection \<open>The policy file\<close>

definition dec_list :: "string list \<Rightarrow> json \<Rightarrow> string list option" where
  "dec_list old v = map_option (\<lambda>r. case r of None \<Rightarrow> [] | Some xs \<Rightarrow> xs) (dec_slice dec_string [] (Some old) v)"

definition file_messages_step :: "file_messages \<Rightarrow> string \<Rightarrow> json \<Rightarrow> file_messages option" where
  "file_messages_step r k v =
     (if key_is ''owner_aliases'' k
      then map_option (\<lambda>x. r\<lparr>owner_aliases := x\<rparr>) (dec_list (owner_aliases r) v)
      else if key_is ''allowed_direct'' k
      then map_option (\<lambda>x. r\<lparr>allowed_direct := x\<rparr>) (dec_list (allowed_direct r) v)
      else if key_is ''excluded_conversations'' k
      then map_option (\<lambda>x. r\<lparr>excluded_conversations := x\<rparr>) (dec_list (excluded_conversations r) v)
      else None)"

definition file_policy_step :: "file_messages \<Rightarrow> string \<Rightarrow> json \<Rightarrow> file_messages option" where
  "file_policy_step r k v =
     (if key_is ''messages'' k then decode_struct file_messages_step r v else None)"

definition LoadPolicy :: "fs \<Rightarrow> open_env \<Rightarrow> string \<Rightarrow> policy_error + policy" where
  "LoadPolicy f env path =
     (case ReadOwnerFile f env path (2 ^ 20) of
        Inl _ \<Rightarrow> Inl PolicyUnreadable
      | Inr data \<Rightarrow>
          (case decode_file file_policy_step
                  \<lparr>owner_aliases = [], allowed_direct = [], excluded_conversations = []\<rparr> data of
             Decoded raw \<Rightarrow> build_policy raw
           | _ \<Rightarrow> Inl PolicyUnparsable))"

section \<open>What a valid configuration is\<close>

lemma clean_non_root_iff:
  "clean_non_root path \<longleftrightarrow> (\<exists>cs. cs \<noteq> [] \<and> list_all proper cs \<and> path = abs_path cs)"
proof
  assume c: "clean_non_root path"
  then obtain cs where cs: "list_all proper cs" "path = abs_path cs"
    using clean_absolute_iff unfolding clean_non_root_def by blast
  moreover have "cs \<noteq> []"
    using c cs by (auto simp: clean_non_root_def abs_path_def)
  ultimately show "\<exists>cs. cs \<noteq> [] \<and> list_all proper cs \<and> path = abs_path cs" by blast
next
  assume "\<exists>cs. cs \<noteq> [] \<and> list_all proper cs \<and> path = abs_path cs"
  then obtain cs where cs: "cs \<noteq> []" "list_all proper cs" "path = abs_path cs" by blast
  then have "abs_path cs \<noteq> [slash]"
    using split_abs_path [OF cs(2)] by (auto simp: proper_def)
  with cs show "clean_non_root path"
    using Clean_abs_path [OF cs(2)] by (simp add: clean_non_root_def)
qed

lemma check_fields_iff:
  "check_fields vs = None \<longleftrightarrow> (\<forall>v \<in> set vs. trim_space v \<noteq> [] \<and> length (trim_space v) \<le> 128)"
  by (induction vs) (auto simp: Let_def)

lemma valid_group_ids_iff:
  "valid_group_ids seen ids \<longleftrightarrow> distinct ids \<and> set ids \<inter> seen = {} \<and> (\<forall>i \<in> set ids. validID i)"
  by (induction ids arbitrary: seen) auto

definition contacts_bounds :: "contacts_source \<Rightarrow> bool" where
  "contacts_bounds c \<longleftrightarrow>
     clean_non_root (cs_helper_path c) \<and> validID (cs_container_id c)
     \<and> cs_group_ids c \<noteq> Some [] \<and> length (group_ids c) \<le> 100 \<and> distinct (group_ids c)
     \<and> (\<forall>i \<in> set (group_ids c). validID i)
     \<and> cs_default_phone_region c \<in> {[], ''US'', ''CA''}
     \<and> 60 \<le> cs_refresh_seconds c \<and> cs_refresh_seconds c \<le> 3600
     \<and> cs_refresh_seconds c \<le> cs_max_age_seconds c \<and> cs_max_age_seconds c \<le> 86400
     \<and> 1000 \<le> cs_timeout_ms c \<and> cs_timeout_ms c \<le> 60000
     \<and> 1 \<le> cs_max_contacts c \<and> cs_max_contacts c \<le> 10000"

lemma ContactsValidate_iff: "ContactsValidate c = Inr () \<longleftrightarrow> contacts_bounds c"
proof -
  have "clean_non_root (cs_helper_path c) \<longleftrightarrow> IsAbs (cs_helper_path c)
      \<and> Clean (cs_helper_path c) = cs_helper_path c \<and> cs_helper_path c \<noteq> [slash]"
    by (auto simp: clean_non_root_def)
  then show ?thesis
    by (auto simp: ContactsValidate_def contacts_bounds_def valid_group_ids_iff)
qed

definition config_bounds :: "nat \<Rightarrow> config \<Rightarrow> bool" where
  "config_bounds euid c \<longleftrightarrow>
     (\<forall>s. cf_contacts c = Some s \<longrightarrow> contacts_bounds s)
     \<and> (\<forall>v \<in> {cf_instance c, cf_account_id c, cf_backend_version c, cf_backend_account_id c,
          cf_database_generation c}. trim_space v \<noteq> [] \<and> length (trim_space v) \<le> 128)
     \<and> cf_backend_version c \<in> {''0.13.1'', CollectionBackendVersion}
     \<and> (\<forall>path \<in> {cf_socket_path c, cf_backend_path c, cf_database_path c, cf_policy_path c}.
          \<exists>cs. cs \<noteq> [] \<and> list_all proper cs \<and> path = abs_path cs)
     \<and> cf_client_uid c \<noteq> 0 \<and> cf_client_uid c \<noteq> euid
     \<and> (\<exists>mode. SocketFileMode c = Some mode \<and> unat mode mod 8 = 0 \<and> 384 \<le> unat mode \<and> unat mode < 512)
     \<and> 1 \<le> cf_max_results c \<and> cf_max_results c \<le> 500
     \<and> cf_max_results c \<le> cf_max_chat_scan c \<and> cf_max_chat_scan c \<le> 5000
     \<and> cf_max_results c \<le> cf_max_message_scan c \<and> cf_max_message_scan c \<le> 10000
     \<and> cf_max_results c \<le> cf_max_collection_scan c \<and> cf_max_collection_scan c \<le> 1000
     \<and> 1000 \<le> cf_backend_timeout_ms c \<and> cf_backend_timeout_ms c \<le> 60000"

text \<open>The socket mode test on words is: a multiple of 8 (nothing for others) of at least \<open>0600\<close>.\<close>

lemma mode_iff:
  assumes "n < 512"
  shows "perm (of_nat n) AND 7 = 0 \<and> perm (of_nat n) AND 0x180 = 0x180 \<longleftrightarrow> n mod 8 = 0 \<and> 384 \<le> n"
proof -
  have low: "n AND 7 = n mod 8" for n :: nat
    using take_bit_eq_mask [of 3 n] by (simp add: take_bit_eq_mod mask_eq_exp_minus_1)
  have "n AND push_bit 7 (mask 2) = push_bit 7 (take_bit 2 (drop_bit 7 n))" for n :: nat
    by (rule bit_eqI) (auto simp: bit_simps)
  then have high: "n AND 384 = n div 128 mod 4 * 128" for n :: nat
    by (simp add: mask_eq_exp_minus_1 push_bit_eq_mult take_bit_eq_mod drop_bit_eq_div)
  let ?w = "of_nat n :: 32 word"
  have w: "unat ?w = n" using assms by (simp add: unat_of_nat)
  have "n AND 511 = n"
    using assms take_bit_eq_mask [of 9 n] by (simp add: take_bit_eq_mod mask_eq_exp_minus_1)
  then have "unat (perm ?w) = n"
    by (simp add: perm_def unsigned_and_eq w)
  then have "unat (perm ?w AND 7) = n mod 8" "unat (perm ?w AND 0x180) = n div 128 mod 4 * 128"
    by (simp_all add: unsigned_and_eq low high)
  then have "perm ?w AND 7 = 0 \<longleftrightarrow> n mod 8 = 0" "perm ?w AND 0x180 = 0x180 \<longleftrightarrow> n div 128 mod 4 * 128 = 384"
    by (simp_all add: word_unat_eq_iff)
  moreover have "n div 128 mod 4 * 128 = 384 \<longleftrightarrow> 384 \<le> n"
    using assms by auto
  ultimately show ?thesis by simp
qed

lemma SocketFileMode_small: "SocketFileMode c = Some mode \<Longrightarrow> \<exists>n < 512. mode = of_nat n"
  by (auto simp: SocketFileMode_def split: option.split_asm if_split_asm intro!: exI)

lemma SocketFileMode_safe:
  assumes "SocketFileMode c = Some mode"
  shows "perm mode AND 7 = 0 \<and> perm mode AND 0x180 = 0x180 \<longleftrightarrow> unat mode mod 8 = 0 \<and> 384 \<le> unat mode"
    and "unat mode < 512"
proof -
  from SocketFileMode_small [OF assms] obtain n where n: "n < 512" "mode = of_nat n" by blast
  then have "unat mode = n" by (simp add: unat_of_nat)
  with n mode_iff [OF n(1)] show "perm mode AND 7 = 0 \<and> perm mode AND 0x180 = 0x180 \<longleftrightarrow>
      unat mode mod 8 = 0 \<and> 384 \<le> unat mode" "unat mode < 512"
    by simp_all
qed

lemma Validate_iff: "Validate euid c = Inr () \<longleftrightarrow> config_bounds euid c"
proof -
  have fields: "check_fields [cf_instance c, cf_account_id c, cf_backend_version c,
        cf_backend_account_id c, cf_database_generation c] = None \<longleftrightarrow>
      (\<forall>v \<in> {cf_instance c, cf_account_id c, cf_backend_version c, cf_backend_account_id c,
          cf_database_generation c}. trim_space v \<noteq> [] \<and> length (trim_space v) \<le> 128)"
    unfolding check_fields_iff by simp
  have paths: "list_all clean_non_root [cf_socket_path c, cf_backend_path c, cf_database_path c, cf_policy_path c]
      \<longleftrightarrow> (\<forall>path \<in> {cf_socket_path c, cf_backend_path c, cf_database_path c, cf_policy_path c}.
          \<exists>cs. cs \<noteq> [] \<and> list_all proper cs \<and> path = abs_path cs)"
    unfolding list_all_iff clean_non_root_iff by simp
  have contacts: "(case cf_contacts c of None \<Rightarrow> Inr () | Some s \<Rightarrow> ContactsValidate s) = Inr () \<longleftrightarrow>
      (\<forall>s. cf_contacts c = Some s \<longrightarrow> contacts_bounds s)"
    by (cases "cf_contacts c") (simp_all add: ContactsValidate_iff)
  have mode: "(\<exists>y. SocketFileMode c = Some y \<and> (perm y AND 7 = 0 \<and> perm y AND 0x180 = 0x180) \<and> P)
      \<longleftrightarrow> (\<exists>mode. SocketFileMode c = Some mode \<and> unat mode mod 8 = 0 \<and> 384 \<le> unat mode \<and> unat mode < 512) \<and> P"
    for P
  proof (cases "SocketFileMode c")
    case (Some m)
    from SocketFileMode_safe [OF Some] show ?thesis unfolding Some by auto
  qed simp
  have version: "\<not> (cf_backend_version c \<noteq> ''0.13.1'' \<and> cf_backend_version c \<noteq> CollectionBackendVersion)
      \<longleftrightarrow> cf_backend_version c \<in> {''0.13.1'', CollectionBackendVersion}"
    by blast
  show ?thesis
    unfolding Validate_def guard_simps fields paths contacts version not_not de_Morgan_disj not_less
      mode config_bounds_def
    by (simp only: simp_thms conj_assoc)
qed

lemma default_int_idem [simp]: "default_int d (default_int d x) = default_int d x"
  by (simp add: default_int_def)

lemma applyDefaults_idem: "applyDefaults (applyDefaults c) = applyDefaults c"
  by (cases "cf_contacts c") (simp_all add: applyDefaults_def ContactsDefaults_def)

section \<open>Properties\<close>

text \<open>C40: \<open>Validate\<close> accepts exactly the configurations within all of these bounds.  The five names (instance,
  account, backend version, backend account, database generation) are non-blank and at most 128 bytes after trimming,
  and the backend version is one of the two audited ones; the four paths are absolute lists of proper
  components below the root; the client is neither root nor the broker's user; the socket mode grants the owner
  read and write and others nothing; results, scans and the timeout are in their ranges, and no scan is smaller
  than the results.  A contacts section, where there is one, names a clean helper path other than the root, a valid
  container, and either no list of groups or up to 100 distinct valid ones, a phone region that is empty, US or CA, and
  its refresh interval (60 to 3600 seconds), maximal age (no less than the interval, at most a day), timeout (1 to 60
  seconds) and number of contacts (1 to 10000) are in their ranges.\<close>

theorem config_validate_iff:
  "Validate euid c = Inr () \<longleftrightarrow> config_bounds euid c"
  by (rule Validate_iff)

text \<open>A configuration that is loaded comes from a trusted file of at most 1 MiB that is one JSON
  object of known fields; it satisfies all bounds, and applying the defaults again changes
  nothing.\<close>

theorem load_config_valid:
  assumes "LoadConfig f env path = Inr cfg"
  shows "config_bounds (unat (fs_euid f)) cfg \<and> applyDefaults cfg = cfg
     \<and> (\<exists>data raw. ReadOwnerFile f env path (2 ^ 20) = Inr data
          \<and> decode_file config_step zero_config data = Decoded raw \<and> cfg = applyDefaults raw)"
proof -
  from assms obtain data raw where r: "ReadOwnerFile f env path (2 ^ 20) = Inr data"
    "decode_file config_step zero_config data = Decoded raw"
    "Validate (unat (fs_euid f)) (applyDefaults raw) = Inr ()" "cfg = applyDefaults raw"
    by (auto simp: LoadConfig_def split: sum.split_asm decoded.split_asm)
  then show ?thesis
    using Validate_iff applyDefaults_idem by blast
qed

lemma decode_file_print:
  "json_wf max_nesting j \<Longrightarrow> decode_struct step zero j = Some r \<Longrightarrow>
     decode_file step zero (json_print j) = Decoded r"
proof -
  assume "json_wf max_nesting j" and r: "decode_struct step zero j = Some r"
  from json_decode_print [OF this(1)] obtain rest where
    "read_value (json_print j) = Some (j, rest)" "skip_ws rest = []"
    by (auto simp: json_decode_def split: option.split_asm if_split_asm)
  with r show ?thesis by (simp add: decode_file_def)
qed

text \<open>A small configuration that leaves the limits to their defaults.\<close>

definition example_config_json :: json where
  "example_config_json = JObj [(''instance'', JStr ''home''), (''account_id'', JStr ''a''),
     (''client_uid'', jint 502), (''socket_path'', JStr ''/run/s''),
     (''backend_path'', JStr ''/bin/imsg''), (''backend_version'', JStr ''0.13.1''),
     (''database_path'', JStr ''/db''), (''backend_account_id'', JStr ''b''),
     (''database_generation'', JStr ''g''), (''policy_path'', JStr ''/etc/p'')]"

definition example_config :: config where
  "example_config = \<lparr>cf_instance = ''home'', cf_account_id = ''a'', cf_client_uid = 502,
     cf_socket_path = ''/run/s'', cf_socket_mode = ''0660'', cf_backend_path = ''/bin/imsg'',
     cf_backend_version = ''0.13.1'', cf_database_path = ''/db'', cf_backend_account_id = ''b'',
     cf_database_generation = ''g'', cf_policy_path = ''/etc/p'', cf_max_results = 100,
     cf_max_chat_scan = 500, cf_max_message_scan = 1000, cf_max_collection_scan = 500,
     cf_backend_timeout_ms = 10000, cf_contacts = None\<rparr>"

lemma print_502: "print_int 502 = ''502''"
  by code_simp

lemma config_step_fields:
  "config_step r ''instance'' v = map_option (\<lambda>x. r\<lparr>cf_instance := x\<rparr>) (dec_string (cf_instance r) v)"
  "config_step r ''account_id'' v = map_option (\<lambda>x. r\<lparr>cf_account_id := x\<rparr>) (dec_string (cf_account_id r) v)"
  "config_step r ''client_uid'' v = map_option (\<lambda>x. r\<lparr>cf_client_uid := x\<rparr>) (dec_uint32 (cf_client_uid r) v)"
  "config_step r ''socket_path'' v = map_option (\<lambda>x. r\<lparr>cf_socket_path := x\<rparr>) (dec_string (cf_socket_path r) v)"
  "config_step r ''backend_path'' v = map_option (\<lambda>x. r\<lparr>cf_backend_path := x\<rparr>) (dec_string (cf_backend_path r) v)"
  "config_step r ''backend_version'' v = map_option (\<lambda>x. r\<lparr>cf_backend_version := x\<rparr>) (dec_string (cf_backend_version r) v)"
  "config_step r ''database_path'' v = map_option (\<lambda>x. r\<lparr>cf_database_path := x\<rparr>) (dec_string (cf_database_path r) v)"
  "config_step r ''backend_account_id'' v =
     map_option (\<lambda>x. r\<lparr>cf_backend_account_id := x\<rparr>) (dec_string (cf_backend_account_id r) v)"
  "config_step r ''database_generation'' v =
     map_option (\<lambda>x. r\<lparr>cf_database_generation := x\<rparr>) (dec_string (cf_database_generation r) v)"
  "config_step r ''policy_path'' v = map_option (\<lambda>x. r\<lparr>cf_policy_path := x\<rparr>) (dec_string (cf_policy_path r) v)"
  unfolding config_step_def by (simp_all add: key_is_plain plain_key_def)

lemma example_config_decoded:
  "\<exists>raw. decode_file config_step zero_config (json_print example_config_json) = Decoded raw
     \<and> applyDefaults raw = example_config"
proof -
  have w: "json_wf max_nesting example_config_json"
    by (simp add: example_config_json_def max_nesting_def ascii_valid)
  have n: "dec_uint32 old (jint 502) = Some 502" for old
    by (simp add: dec_uint32_def jint_def print_502 parse_uint_def digits_value_def digit_value_def ascii_digit_def)
  have d: "decode_struct config_step zero_config example_config_json =
      Some (zero_config\<lparr>cf_instance := ''home'', cf_account_id := ''a'', cf_client_uid := 502,
        cf_socket_path := ''/run/s'', cf_backend_path := ''/bin/imsg'', cf_backend_version := ''0.13.1'',
        cf_database_path := ''/db'', cf_backend_account_id := ''b'', cf_database_generation := ''g'',
        cf_policy_path := ''/etc/p''\<rparr>)" (is "_ = Some ?raw")
    unfolding example_config_json_def decode_struct_def
    by (simp only: json.case decode_members.simps config_step_fields n dec_simps option.map option.case)
  have "applyDefaults ?raw = example_config"
    unfolding applyDefaults_def zero_config_def example_config_def
    by (simp only: config.select_convs config.update_convs default_int_def option.map if_True if_False)
      simp
  with decode_file_print [OF w d] show ?thesis
    by (intro exI conjI)
qed

lemma example_config_length: "length (json_print example_config_json) \<le> 2 ^ 20"
proof -
  have "length (json_print example_config_json) = 226"
    unfolding example_config_json_def jint_def print_502 by code_simp
  then show ?thesis by simp
qed

lemma example_config_bounds: "config_bounds 501 example_config"
proof -
  have paths: "''/run/s'' = abs_path [''run'', ''s'']" "''/bin/imsg'' = abs_path [''bin'', ''imsg'']"
    "''/db'' = abs_path [''db'']" "''/etc/p'' = abs_path [''etc'', ''p'']"
    by (simp_all add: abs_path_def)
  have proper: "list_all proper [''run'', ''s'']" "list_all proper [''bin'', ''imsg'']"
    "list_all proper [''db'']" "list_all proper [''etc'', ''p'']"
    by (simp_all add: proper_def)
  have trims: "trim_space s = s" if "s \<in> {''home'', ''a'', ''0.13.1'', ''b'', ''g'', ''0660''}" for s
    by (rule trim_space_graphic) (use that in \<open>auto simp: graphic_def\<close>)
  have "SocketFileMode example_config = Some 0x1B0"
    by (simp add: SocketFileMode_def example_config_def trims parse_octal_def octal_digit_def octal_value_def)
  then show ?thesis
    unfolding config_bounds_def
    by (simp add: example_config_def trims) (use paths proper in blast)
qed

lemma load_config_valid_witness:
  "LoadConfig example_fs (example_file (json_print example_config_json)) ''/etc/p'' = Inr example_config
   \<and> config_bounds 501 example_config"
proof -
  have e: "unat (fs_euid example_fs) = 501" by (simp add: example_fs_def)
  obtain raw where "decode_file config_step zero_config (json_print example_config_json) = Decoded raw"
    "applyDefaults raw = example_config"
    using example_config_decoded by blast
  moreover have "Validate 501 example_config = Inr ()"
    using Validate_iff example_config_bounds by blast
  ultimately have l: "LoadConfig example_fs (example_file (json_print example_config_json)) ''/etc/p'' =
      Inr example_config"
    unfolding LoadConfig_def example_read [OF example_config_length] e by simp
  from load_config_valid [OF l] l show ?thesis by (simp add: e)
qed

end
