(* ===== verification/Cursor.thy ===== *)
theory Cursor
  imports Rpc GoTime Base64
begin

text \<open>
  The collection cursor of \<open>internal/broker\<close>: its record and JSON form (\<open>server.go\<close>), the legacy
  unsealed encoding, and the sealed encoding of \<open>cursor.go\<close>.  The AEAD (AES-GCM with a random
  nonce) is a parameter, an \<open>aead\<close> record whose \<open>seal\<close> takes the nonce as its first argument; what
  the code relies on is the law \<open>opens\<close> that opening undoes sealing under the same additional data.
\<close>

section \<open>Cursors\<close>

record cursor =
  cu_v :: int
  cu_account_id :: string
  cu_generation :: string
  cu_row_id :: int64
  cu_through_row_id :: int64
  cu_complete :: bool
  cu_not_before :: string

definition zero_cursor :: cursor where
  "zero_cursor = \<lparr>cu_v = 0, cu_account_id = [], cu_generation = [], cu_row_id = 0,
     cu_through_row_id = 0, cu_complete = False, cu_not_before = []\<rparr>"

definition cursor_json :: "cursor \<Rightarrow> json" where
  "cursor_json c = JObj ([(''v'', jint (cu_v c)), (''account_id'', JStr (cu_account_id c)),
       (''generation'', JStr (cu_generation c)), (''row_id'', jint (cu_row_id c))]
     @ (if cu_through_row_id c = 0 then [] else [(''through_row_id'', jint (cu_through_row_id c))])
     @ (if cu_complete c then [(''complete'', JBool True)] else [])
     @ omit_string ''not_before'' (cu_not_before c))"

definition cursor_step :: "cursor \<Rightarrow> string \<Rightarrow> json \<Rightarrow> cursor option" where
  "cursor_step r k v =
     (if key_is ''v'' k then map_option (\<lambda>x. r\<lparr>cu_v := x\<rparr>) (dec_int (cu_v r) v)
      else if key_is ''account_id'' k
      then map_option (\<lambda>x. r\<lparr>cu_account_id := x\<rparr>) (dec_string (cu_account_id r) v)
      else if key_is ''generation'' k
      then map_option (\<lambda>x. r\<lparr>cu_generation := x\<rparr>) (dec_string (cu_generation r) v)
      else if key_is ''row_id'' k then map_option (\<lambda>x. r\<lparr>cu_row_id := x\<rparr>) (dec_int (cu_row_id r) v)
      else if key_is ''through_row_id'' k
      then map_option (\<lambda>x. r\<lparr>cu_through_row_id := x\<rparr>) (dec_int (cu_through_row_id r) v)
      else if key_is ''complete'' k
      then map_option (\<lambda>x. r\<lparr>cu_complete := x\<rparr>) (dec_bool (cu_complete r) v)
      else if key_is ''not_before'' k
      then map_option (\<lambda>x. r\<lparr>cu_not_before := x\<rparr>) (dec_string (cu_not_before r) v)
      else None)"

text \<open>The two \<open>Decode\<close> calls on a cursor's text: one value, nothing after it.\<close>

definition read_cursor :: "bytes \<Rightarrow> cursor option" where
  "read_cursor data =
     (case read_value data of
        None \<Rightarrow> None
      | Some (v, rest) \<Rightarrow>
          (case decode_struct cursor_step zero_cursor v of
             None \<Rightarrow> None
           | Some c \<Rightarrow> if skip_ws rest = [] then Some c else None))"

section \<open>The legacy encoding\<close>

datatype cursor_error = InvalidCursor

definition encodeCursorV1 :: "cursor \<Rightarrow> string" where
  "encodeCursorV1 c = b64_encode (json_print (cursor_json c))"

definition decodeCursorV1 :: "string \<Rightarrow> cursor_error + cursor" where
  "decodeCursorV1 val =
     (if val = [] \<or> length val > 2048 then Inl InvalidCursor
      else (case b64_decode val of
          None \<Rightarrow> Inl InvalidCursor
        | Some payload \<Rightarrow>
            (case read_cursor payload of
               None \<Rightarrow> Inl InvalidCursor
             | Some c \<Rightarrow>
                 if cu_v c \<noteq> 1 \<or> cu_row_id c \<le> 0 \<or> cu_through_row_id c \<noteq> 0 \<or> cu_complete c
                 then Inl InvalidCursor else Inr c)))"

section \<open>The sealed encoding\<close>

record aead =
  seal :: "bytes \<Rightarrow> bytes \<Rightarrow> bytes \<Rightarrow> bytes"
  open_sealed :: "bytes \<Rightarrow> bytes \<Rightarrow> bytes option"

definition opens :: "aead \<Rightarrow> bool" where
  "opens a \<longleftrightarrow> (\<forall>nonce data aad. open_sealed a (seal a nonce data aad) aad = Some data)"

definition encodeCursor :: "aead \<Rightarrow> string \<Rightarrow> bytes \<Rightarrow> cursor \<Rightarrow> string" where
  "encodeCursor a inst nonce c =
     ''c2_'' @ b64_encode (seal a nonce (json_print (cursor_json (c\<lparr>cu_v := 2\<rparr>))) inst)"

definition decodeCursor :: "aead \<Rightarrow> string \<Rightarrow> string \<Rightarrow> cursor_error + cursor" where
  "decodeCursor a inst val =
     (if \<not> has_prefix ''c2_'' val then decodeCursorV1 val
      else if length val > 2048 then Inl InvalidCursor
      else (case b64_decode (drop 3 val) of
          None \<Rightarrow> Inl InvalidCursor
        | Some sealed \<Rightarrow>
            (case open_sealed a sealed inst of
               None \<Rightarrow> Inl InvalidCursor
             | Some data \<Rightarrow>
                 (case read_cursor data of
                    None \<Rightarrow> Inl InvalidCursor
                  | Some c \<Rightarrow>
                      if cu_v c \<noteq> 2 \<or> cu_row_id c < 0 \<or> cu_through_row_id c < cu_row_id c
                         \<or> cu_account_id c = [] \<or> cu_generation c = []
                      then Inl InvalidCursor
                      else if cu_complete c \<noteq> (cu_row_id c = cu_through_row_id c)
                      then Inl InvalidCursor
                      else if cu_not_before c \<noteq> []
                         \<and> (parse_rfc3339 (cu_not_before c) = None \<or> cu_complete c \<or> cu_through_row_id c = 0)
                      then Inl InvalidCursor
                      else Inr c))))"

section \<open>Which cursors decode\<close>

text \<open>The conditions on a sealed cursor, and on one that JSON represents faithfully.\<close>

definition cursor_ok :: "cursor \<Rightarrow> bool" where
  "cursor_ok c \<longleftrightarrow> 0 \<le> cu_row_id c \<and> cu_row_id c \<le> cu_through_row_id c
     \<and> cu_account_id c \<noteq> [] \<and> cu_generation c \<noteq> []
     \<and> (cu_complete c \<longleftrightarrow> cu_row_id c = cu_through_row_id c)
     \<and> (cu_not_before c \<noteq> [] \<longrightarrow> parse_rfc3339 (cu_not_before c) \<noteq> None \<and> \<not> cu_complete c)"

definition cursor_wf :: "cursor \<Rightarrow> bool" where
  "cursor_wf c \<longleftrightarrow> valid_utf8 (cu_account_id c) \<and> valid_utf8 (cu_generation c)
     \<and> valid_utf8 (cu_not_before c)
     \<and> - (2 ^ 63) \<le> cu_row_id c \<and> cu_row_id c < 2 ^ 63
     \<and> - (2 ^ 63) \<le> cu_through_row_id c \<and> cu_through_row_id c < 2 ^ 63"

lemma cursor_json_wf: "cursor_wf c \<Longrightarrow> json_wf max_nesting (cursor_json c)"
  by (simp add: cursor_wf_def cursor_json_def max_nesting_def omit_string_def ascii_valid)

lemma cursor_step_fields:
  "cursor_step r ''v'' v = map_option (\<lambda>x. r\<lparr>cu_v := x\<rparr>) (dec_int (cu_v r) v)"
  "cursor_step r ''account_id'' v = map_option (\<lambda>x. r\<lparr>cu_account_id := x\<rparr>) (dec_string (cu_account_id r) v)"
  "cursor_step r ''generation'' v = map_option (\<lambda>x. r\<lparr>cu_generation := x\<rparr>) (dec_string (cu_generation r) v)"
  "cursor_step r ''row_id'' v = map_option (\<lambda>x. r\<lparr>cu_row_id := x\<rparr>) (dec_int (cu_row_id r) v)"
  "cursor_step r ''through_row_id'' v =
     map_option (\<lambda>x. r\<lparr>cu_through_row_id := x\<rparr>) (dec_int (cu_through_row_id r) v)"
  "cursor_step r ''complete'' v = map_option (\<lambda>x. r\<lparr>cu_complete := x\<rparr>) (dec_bool (cu_complete r) v)"
  "cursor_step r ''not_before'' v =
     map_option (\<lambda>x. r\<lparr>cu_not_before := x\<rparr>) (dec_string (cu_not_before r) v)"
  unfolding cursor_step_def by (simp_all add: key_is_plain plain_key_def)

lemma read_cursor_print:
  assumes "cursor_wf c" "cu_v c \<in> {1, 2}"
  shows "read_cursor (json_print (cursor_json c)) = Some c"
proof -
  have w: "- (2 ^ 63) \<le> cu_v c" "cu_v c < 2 ^ 63" using assms(2) by auto
  have "decode_struct cursor_step zero_cursor (cursor_json c) = Some c"
    using assms(1) w
    by (cases "cu_through_row_id c = 0"; cases "cu_complete c"; cases "cu_not_before c = []")
      (simp_all add: cursor_json_def decode_struct_def cursor_step_fields dec_jint cursor_wf_def
        omit_string_def zero_cursor_def)
  moreover obtain rest where "read_value (json_print (cursor_json c)) = Some (cursor_json c, rest)"
    "skip_ws rest = []"
    using json_decode_print [OF cursor_json_wf [OF assms(1)]]
    by (auto simp: json_decode_def split: option.split_asm if_split_asm)
  ultimately show ?thesis by (simp add: read_cursor_def)
qed

lemma decodeCursor_sound:
  assumes "decodeCursor a inst val = Inr c" "has_prefix ''c2_'' val"
  shows "cu_v c = 2" "cursor_ok c"
    "\<exists>sealed data. b64_decode (drop 3 val) = Some sealed \<and> open_sealed a sealed inst = Some data
       \<and> read_cursor data = Some c"
proof -
  from assms obtain sealed data where
    o: "b64_decode (drop 3 val) = Some sealed" "open_sealed a sealed inst = Some data"
      "read_cursor data = Some c" and
    g: "cu_v c = 2" "0 \<le> cu_row_id c" "cu_row_id c \<le> cu_through_row_id c"
      "cu_account_id c \<noteq> []" "cu_generation c \<noteq> []"
      "cu_complete c \<longleftrightarrow> cu_row_id c = cu_through_row_id c"
      "\<not> (cu_not_before c \<noteq> [] \<and> (parse_rfc3339 (cu_not_before c) = None \<or> cu_complete c
          \<or> cu_through_row_id c = 0))"
    by (auto simp: decodeCursor_def split: if_split_asm option.split_asm)
  show "cu_v c = 2" by (rule g(1))
  show "cursor_ok c" using g by (auto simp: cursor_ok_def)
  show "\<exists>sealed data. b64_decode (drop 3 val) = Some sealed \<and> open_sealed a sealed inst = Some data
       \<and> read_cursor data = Some c"
    using o by blast
qed

lemma cursor_ok_guards:
  assumes "cursor_ok c"
  shows "\<not> (cu_row_id c < 0 \<or> cu_through_row_id c < cu_row_id c \<or> cu_account_id c = [] \<or> cu_generation c = [])"
    "\<not> (cu_complete c \<noteq> (cu_row_id c = cu_through_row_id c))"
    "\<not> (cu_not_before c \<noteq> [] \<and> (parse_rfc3339 (cu_not_before c) = None \<or> cu_complete c \<or> cu_through_row_id c = 0))"
  using assms by (auto simp: cursor_ok_def)

lemma decodeCursor_encode:
  assumes "opens a" "cursor_wf c" "cursor_ok c" "length (encodeCursor a inst nonce c) \<le> 2048"
  shows "decodeCursor a inst (encodeCursor a inst nonce c) = Inr (c\<lparr>cu_v := 2\<rparr>)"
proof -
  let ?c = "c\<lparr>cu_v := 2\<rparr>"
  have "cursor_wf ?c" using assms(2) by (simp add: cursor_wf_def)
  then have r: "read_cursor (json_print (cursor_json ?c)) = Some ?c"
    by (rule read_cursor_print) simp
  have o: "open_sealed a (seal a nonce (json_print (cursor_json ?c)) inst) inst =
      Some (json_print (cursor_json ?c))"
    using assms(1) by (simp add: opens_def)
  have l: "\<not> 2048 < length (''c2_'' @ b64_encode (seal a nonce (json_print (cursor_json ?c)) inst))"
    using assms(4) by (simp add: encodeCursor_def)
  have p: "has_prefix ''c2_'' (''c2_'' @ s)" "drop 3 (''c2_'' @ s) = s" for s
    by (simp_all add: has_prefix_def)
  note g = cursor_ok_guards [OF assms(3)]
  show ?thesis
    unfolding decodeCursor_def encodeCursor_def
    using p l g by (simp only: b64_decode_encode option.case o r if_False if_True) simp
qed


section \<open>How long an encoded cursor is\<close>

lemma length_escape_ascii: "length (escape_ascii c) \<le> 6"
  by (simp add: escape_ascii_def u_escape_def)

lemma length_u_escape: "length (u_escape x) = 6"
  by (simp add: u_escape_def)

lemma escape_string_high:
  assumes "\<not> byte c < 128" "decode_rune (byte c) (map byte s) = (r, w)"
  shows "escape_string (c # s) = (if (r, w) = rune_error then u_escape 65533 @ escape_string s
        else if r = 8232 \<or> r = 8233 then u_escape r @ escape_string (drop (w - 1) s)
        else c # take (w - 1) s @ escape_string (drop (w - 1) s))"
  unfolding escape_string.simps(2) assms(2) by (simp add: assms(1))

lemma decode_rune_width: "snd (decode_rune b bs) \<le> 4"
  by (simp add: decode_rune_def decode2_def decode3_def decode4_def rune_error_def split: list.split)

lemma length_escape_string: "length (escape_string s) \<le> 6 * length s"
proof (induction s rule: escape_string.induct)
  case 1
  show ?case by simp
next
  case (2 c s)
  show ?case
  proof (cases "byte c < 128")
    case True
    then show ?thesis
      using 2(1) length_escape_ascii [of c] by (simp add: escape_string.simps(2))
  next
    case False
    obtain r w where r: "decode_rune (byte c) (map byte s) = (r, w)"
      by (cases "decode_rune (byte c) (map byte s)")
    note e = escape_string_high [OF False r]
    have l: "length (drop (w - 1) s) + length (take (w - 1) s) = length s" by simp
    have i: "(r, w) = rune_error \<Longrightarrow> length (escape_string s) \<le> 6 * length s"
      "(r, w) \<noteq> rune_error \<Longrightarrow> length (escape_string (drop (w - 1) s)) \<le> 6 * length (drop (w - 1) s)"
      using 2(2) [OF False r [symmetric] refl] 2(3) [OF False r [symmetric] refl]
        2(4) [OF False r [symmetric] refl] by blast+
    show ?thesis
    proof (cases "(r, w) = rune_error")
      case True
      then show ?thesis unfolding e using i(1) by (simp add: length_u_escape)
    next
      case False
      then show ?thesis unfolding e using i(2) l by (auto simp: length_u_escape)
    qed
  qed
qed

lemma length_escape_string_ge: "length s \<le> length (escape_string s)"
proof (induction s rule: escape_string.induct)
  case 1
  show ?case by simp
next
  case (2 c s)
  show ?case
  proof (cases "byte c < 128")
    case True
    have "1 \<le> length (escape_ascii c)" by (simp add: escape_ascii_def u_escape_def)
    then show ?thesis
      using 2(1) True by (simp add: escape_string.simps(2))
  next
    case False
    obtain r w where r: "decode_rune (byte c) (map byte s) = (r, w)"
      by (cases "decode_rune (byte c) (map byte s)")
    note e = escape_string_high [OF False r]
    have i: "(r, w) = rune_error \<Longrightarrow> length s \<le> length (escape_string s)"
      "(r, w) \<noteq> rune_error \<Longrightarrow> length (drop (w - 1) s) \<le> length (escape_string (drop (w - 1) s))"
      using 2(2) [OF False r [symmetric] refl] 2(3) [OF False r [symmetric] refl]
        2(4) [OF False r [symmetric] refl] by blast+
    have "w - 1 \<le> 3"
      using decode_rune_width [of "byte c" "map byte s"] by (simp add: r)
    then show ?thesis
      using i by (auto simp: e length_u_escape)
  qed
qed

lemma length_print_string: "length (print_string s) \<le> 6 * length s + 2"
  using length_escape_string [of s] by (simp add: print_string_def)

lemma length_print_int:
  assumes "- (2 ^ 63) \<le> i" "i < 2 ^ 63"
  shows "length (print_int i) \<le> 20"
proof -
  have "nat (if i < 0 then - i else i) < 10 ^ Suc 18" using assms by auto
  from length_print_nat [OF this] show ?thesis
    by (auto simp: print_int_def split: if_split_asm)
qed

lemma length_cursor_json:
  assumes "cursor_wf c" "cu_v c = 2"
  shows "length (json_print (cursor_json c)) \<le>
     6 * (length (cu_account_id c) + length (cu_generation c) + length (cu_not_before c)) + 155"
proof -
  have w: "- (2 ^ 63) \<le> cu_row_id c" "cu_row_id c < 2 ^ 63"
    "- (2 ^ 63) \<le> cu_through_row_id c" "cu_through_row_id c < 2 ^ 63"
    using assms(1) by (simp_all add: cursor_wf_def)
  have k: "length (print_string ''v'') = 3" "length (print_string ''account_id'') = 12"
    "length (print_string ''generation'') = 12" "length (print_string ''row_id'') = 8"
    "length (print_string ''through_row_id'') = 16" "length (print_string ''complete'') = 10"
    "length (print_string ''not_before'') = 12"
    by code_simp+
  have v: "length (print_int 2) = 1" by code_simp
  show ?thesis
    using length_print_int [OF w(1,2)] length_print_int [OF w(3,4)]
      length_print_string [of "cu_account_id c"] length_print_string [of "cu_generation c"]
      length_print_string [of "cu_not_before c"] assms(2)
    by (simp add: cursor_json_def omit_string_def jint_def k v)
qed

text \<open>AES-GCM with a random nonce adds the 12-byte nonce and the 16-byte tag.\<close>

definition gcm_overhead :: "aead \<Rightarrow> bool" where
  "gcm_overhead a \<longleftrightarrow> (\<forall>nonce data aad. length (seal a nonce data aad) = length data + 28)"

lemma length_encodeCursor:
  assumes "gcm_overhead a" "cursor_wf c"
    and "length (cu_account_id c) \<le> 128" "length (cu_generation c) \<le> 32" "length (cu_not_before c) \<le> 35"
  shows "length (encodeCursor a inst nonce c) \<le> 2048"
proof -
  have "length (json_print (cursor_json (c\<lparr>cu_v := 2\<rparr>))) \<le> 6 * 195 + 155"
    using length_cursor_json [of "c\<lparr>cu_v := 2\<rparr>"] assms(2-) by (simp add: cursor_wf_def)
  then have "8 * (length (json_print (cursor_json (c\<lparr>cu_v := 2\<rparr>))) + 28) + 5 \<le> 11000" by simp
  then have "(8 * (length (json_print (cursor_json (c\<lparr>cu_v := 2\<rparr>))) + 28) + 5) div 6 \<le> 11000 div 6"
    by (rule div_le_mono)
  then show ?thesis
    using assms(1) by (simp add: encodeCursor_def length_b64_encode gcm_overhead_def)
qed

section \<open>Properties\<close>

text \<open>A stand-in for AES-GCM that satisfies both laws: twelve bytes for the nonce, the data, and
  sixteen bytes for a tag (here constant).\<close>

definition plain_aead :: aead where
  "plain_aead = \<lparr>seal = \<lambda>nonce data aad. replicate 12 CHR ''n'' @ data @ replicate 16 CHR ''t'',
     open_sealed = \<lambda>sealed aad. if length sealed < 28 then None else Some (take (length sealed - 28) (drop 12 sealed))\<rparr>"

lemma plain_aead_laws: "opens plain_aead" "gcm_overhead plain_aead"
  by (simp_all add: opens_def gcm_overhead_def plain_aead_def)

definition example_cursor :: cursor where
  "example_cursor = \<lparr>cu_v = 1, cu_account_id = ''me'', cu_generation = ''g1'', cu_row_id = 7,
     cu_through_row_id = 20, cu_complete = False, cu_not_before = []\<rparr>"

lemma example_cursor_ok: "cursor_wf example_cursor" "cursor_ok example_cursor"
  by (simp_all add: example_cursor_def cursor_wf_def cursor_ok_def ascii_valid)

text \<open>A checkpoint that satisfies the cursor conditions, for an account identifier of at most 128
  bytes, a generation of at most 32 and a time of at most 35, is encoded in at most 2048 bytes and
  decoding the encoding under the same instance gives back that checkpoint (as version 2),
  whatever nonce was used.\<close>

theorem cursor_roundtrip:
  assumes "opens a" "gcm_overhead a" "cursor_wf c" "cursor_ok c"
    and "length (cu_account_id c) \<le> 128" "length (cu_generation c) \<le> 32" "length (cu_not_before c) \<le> 35"
  shows "length (encodeCursor a inst nonce c) \<le> 2048
     \<and> decodeCursor a inst (encodeCursor a inst nonce c) = Inr (c\<lparr>cu_v := 2\<rparr>)"
  using length_encodeCursor [OF assms(2,3,5-7)] decodeCursor_encode [OF assms(1,3,4)] by blast

lemma cursor_roundtrip_witness:
  "decodeCursor plain_aead ''work'' (encodeCursor plain_aead ''work'' [] example_cursor)
     = Inr (example_cursor\<lparr>cu_v := 2\<rparr>)"
  using cursor_roundtrip [OF plain_aead_laws example_cursor_ok, of "''work''" "[]"]
  by (simp add: example_cursor_def)

text \<open>Decoding accepts exactly two kinds of cursor: a sealed one, of at most 2048 bytes, that opens
  under this instance to one JSON object of known fields with version 2, a position
  \<open>0 <= row_id <= through_row_id\<close>, complete exactly at the boundary, a nonempty account and
  generation, and a time only while unfinished; or a legacy one, of at most 2048 bytes, with version
  1, a positive row and neither a boundary nor completion.\<close>

theorem decode_cursor_iff:
  "decodeCursor a inst val = Inr c \<longleftrightarrow>
     length val \<le> 2048 \<and>
     (if has_prefix ''c2_'' val
      then \<exists>sealed data. b64_decode (drop 3 val) = Some sealed \<and> open_sealed a sealed inst = Some data
             \<and> read_cursor data = Some c \<and> cu_v c = 2 \<and> cursor_ok c
      else val \<noteq> [] \<and> (\<exists>data. b64_decode val = Some data \<and> read_cursor data = Some c)
             \<and> cu_v c = 1 \<and> 0 < cu_row_id c \<and> cu_through_row_id c = 0 \<and> \<not> cu_complete c)"
proof (cases "has_prefix ''c2_'' val")
  case True
  show ?thesis
  proof
    assume d: "decodeCursor a inst val = Inr c"
    then have "length val \<le> 2048"
      using True by (auto simp: decodeCursor_def split: if_split_asm)
    then show "length val \<le> 2048 \<and>
     (if has_prefix ''c2_'' val
      then \<exists>sealed data. b64_decode (drop 3 val) = Some sealed \<and> open_sealed a sealed inst = Some data
             \<and> read_cursor data = Some c \<and> cu_v c = 2 \<and> cursor_ok c
      else val \<noteq> [] \<and> (\<exists>data. b64_decode val = Some data \<and> read_cursor data = Some c)
             \<and> cu_v c = 1 \<and> 0 < cu_row_id c \<and> cu_through_row_id c = 0 \<and> \<not> cu_complete c)"
      using True decodeCursor_sound [OF d True] by auto
  next
    assume "length val \<le> 2048 \<and>
     (if has_prefix ''c2_'' val
      then \<exists>sealed data. b64_decode (drop 3 val) = Some sealed \<and> open_sealed a sealed inst = Some data
             \<and> read_cursor data = Some c \<and> cu_v c = 2 \<and> cursor_ok c
      else val \<noteq> [] \<and> (\<exists>data. b64_decode val = Some data \<and> read_cursor data = Some c)
             \<and> cu_v c = 1 \<and> 0 < cu_row_id c \<and> cu_through_row_id c = 0 \<and> \<not> cu_complete c)"
    then obtain sealed data where o: "length val \<le> 2048" "b64_decode (drop 3 val) = Some sealed"
      "open_sealed a sealed inst = Some data" "read_cursor data = Some c" "cu_v c = 2" "cursor_ok c"
      using True by auto
    then show "decodeCursor a inst val = Inr c"
      unfolding decodeCursor_def using True cursor_ok_guards [OF o(6)] by simp
  qed
next
  case False
  show ?thesis
    unfolding decodeCursor_def decodeCursorV1_def
    using False by (cases "b64_decode val"; cases "val = []"; cases "read_cursor (the (b64_decode val))") auto
qed

lemma decode_cursor_iff_witness:
  "length (encodeCursor plain_aead ''work'' [] example_cursor) \<le> 2048 \<and> cursor_ok (example_cursor\<lparr>cu_v := 2\<rparr>)"
proof -
  have d: "decodeCursor plain_aead ''work'' (encodeCursor plain_aead ''work'' [] example_cursor)
     = Inr (example_cursor\<lparr>cu_v := 2\<rparr>)"
    by (rule decodeCursor_encode [OF plain_aead_laws(1) example_cursor_ok])
      (rule length_encodeCursor [OF plain_aead_laws(2) example_cursor_ok(1)],
        simp_all add: example_cursor_def)
  have p: "has_prefix ''c2_'' (encodeCursor plain_aead ''work'' [] example_cursor)"
    by (simp only: encodeCursor_def has_prefix_append)
  show ?thesis
    using iffD1 [OF decode_cursor_iff d] p by auto
qed

text \<open>C39: The size bound is needed: when the account identifier has 1600 or more bytes, which configuration
  validation lets through if all but 128 of them are surrounding space, every cursor handed out for
  it is refused when it comes back.\<close>

theorem long_account_cursor_refused:
  assumes "gcm_overhead a" "1600 \<le> length (cu_account_id c)"
  shows "decodeCursor a inst (encodeCursor a inst nonce c) = Inl InvalidCursor"
proof -
  have "1600 \<le> length (json_print (cursor_json (c\<lparr>cu_v := 2\<rparr>)))"
    using assms(2) length_escape_string_ge [of "cu_account_id c"]
    by (simp add: cursor_json_def print_string_def)
  then have "12000 div 6 \<le> (8 * (length (json_print (cursor_json (c\<lparr>cu_v := 2\<rparr>))) + 28) + 5) div 6"
    by (intro div_le_mono) simp
  moreover have "(13000::nat) div 6 = 2166" by simp
  ultimately have "2048 < length (encodeCursor a inst nonce c)"
    using assms(1) \<open>1600 \<le> length (json_print (cursor_json (c\<lparr>cu_v := 2\<rparr>)))\<close>
    by (simp add: encodeCursor_def length_b64_encode gcm_overhead_def)
  moreover have "has_prefix ''c2_'' (encodeCursor a inst nonce c)"
    by (simp only: encodeCursor_def has_prefix_append)
  ultimately show ?thesis by (simp add: decodeCursor_def)
qed

lemma long_account_cursor_refused_witness:
  "decodeCursor plain_aead ''work'' (encodeCursor plain_aead ''work'' []
       (example_cursor\<lparr>cu_account_id := replicate 1600 CHR '' '' @ ''me''\<rparr>)) = Inl InvalidCursor"
  by (rule long_account_cursor_refused [OF plain_aead_laws(2)]) simp

end
