(* ===== verification/GoUrl.thy ===== *)
theory GoUrl
  imports Json
begin

text \<open>
  Go's \<open>net/url\<close> (1.25.1), as far as the message filter uses it: \<open>url.Parse\<close> with the scheme, the
  authority, the percent encodings and their errors, \<open>URL.Hostname\<close> and \<open>url.QueryUnescape\<close>.  User
  information is checked and dropped, as the program never reads it.
\<close>

section \<open>Cutting strings\<close>

definition cut :: "char \<Rightarrow> string \<Rightarrow> string \<times> string" where
  "cut c s = (takeWhile (\<lambda>x. x \<noteq> c) s, drop 1 (dropWhile (\<lambda>x. x \<noteq> c) s))"

text \<open>The text before and after the last occurrence of a character.\<close>

definition cut_last :: "char \<Rightarrow> string \<Rightarrow> (string \<times> string) option" where
  "cut_last c s =
     (if c \<in> set s
      then Some (rev (drop 1 (dropWhile (\<lambda>x. x \<noteq> c) (rev s))), rev (takeWhile (\<lambda>x. x \<noteq> c) (rev s)))
      else None)"

text \<open>The text before, and from, the first occurrence of a substring.\<close>

fun find_sub :: "string \<Rightarrow> string \<Rightarrow> (string \<times> string) option" where
  "find_sub p [] = (if p = [] then Some ([], []) else None)"
| "find_sub p (c # s) =
     (if has_prefix p (c # s) then Some ([], c # s)
      else map_option (\<lambda>(u, v). (c # u, v)) (find_sub p s))"

section \<open>Percent encoding\<close>

datatype encoding = EncodePath | EncodeUserPassword | EncodeHost | EncodeZone | EncodeQueryComponent | EncodeFragment

definition url_alnum :: "char \<Rightarrow> bool" where
  "url_alnum c \<longleftrightarrow> (97 \<le> byte c \<and> byte c \<le> 122) \<or> (65 \<le> byte c \<and> byte c \<le> 90) \<or> ascii_digit c"

text \<open>Bytes that may stand unescaped in a host or a zone.\<close>

definition host_byte :: "char \<Rightarrow> bool" where
  "host_byte c \<longleftrightarrow> url_alnum c \<or> c \<in> set ''!$&()*+,;=:[]<>-_.~'' \<or> byte c = 39 \<or> byte c = 34"

definition refused_escape :: "encoding \<Rightarrow> nat \<Rightarrow> nat \<Rightarrow> bool" where
  "refused_escape mode hi lo \<longleftrightarrow>
     (mode = EncodeHost \<and> hi < 8 \<and> \<not> (hi = 2 \<and> lo = 5))
     \<or> (mode = EncodeZone \<and> \<not> (hi = 2 \<and> lo = 5) \<and> 16 * hi + lo \<noteq> 32
        \<and> \<not> host_byte (char_of (16 * hi + lo)))"

fun unescape :: "encoding \<Rightarrow> string \<Rightarrow> string option" where
  "unescape mode [] = Some []"
| "unescape mode (c # s) =
     (if c = CHR ''%'' then
        (case s of
           a # b # t \<Rightarrow>
             (case (hex_value a, hex_value b) of
                (Some hi, Some lo) \<Rightarrow>
                  if refused_escape mode hi lo then None
                  else map_option ((#) (char_of (16 * hi + lo))) (unescape mode t)
              | _ \<Rightarrow> None)
         | _ \<Rightarrow> None)
      else if c = CHR ''+''
      then map_option ((#) (if mode = EncodeQueryComponent then CHR '' '' else CHR ''+'')) (unescape mode s)
      else if mode \<in> {EncodeHost, EncodeZone} \<and> byte c < 128 \<and> \<not> host_byte c then None
      else map_option ((#) c) (unescape mode s))"

definition QueryUnescape :: "string \<Rightarrow> string option" where
  "QueryUnescape s = unescape EncodeQueryComponent s"

section \<open>Parsing\<close>

record url =
  url_host :: string
  url_path :: string
  url_raw_query :: string
  url_fragment :: string

definition zero_url :: url where
  "zero_url = \<lparr>url_host = [], url_path = [], url_raw_query = [], url_fragment = []\<rparr>"

text \<open>\<open>getScheme\<close>: the scheme and the rest; an error for an empty scheme.\<close>

fun scheme_end :: "bool \<Rightarrow> string \<Rightarrow> nat option" where
  "scheme_end first [] = None"
| "scheme_end first (c # s) =
     (if (97 \<le> byte c \<and> byte c \<le> 122) \<or> (65 \<le> byte c \<and> byte c \<le> 90)
      then map_option Suc (scheme_end False s)
      else if ascii_digit c \<or> c \<in> {CHR ''+'', CHR ''-'', CHR ''.''}
      then (if first then None else map_option Suc (scheme_end False s))
      else if c = CHR '':'' then Some 0 else None)"

definition getScheme :: "string \<Rightarrow> (string \<times> string) option" where
  "getScheme s =
     (case scheme_end True s of
        None \<Rightarrow> Some ([], s)
      | Some 0 \<Rightarrow> None
      | Some n \<Rightarrow> Some (take n s, drop (Suc n) s))"

text \<open>The optional port: nothing, or a colon and digits.\<close>

definition validOptionalPort :: "string \<Rightarrow> bool" where
  "validOptionalPort port \<longleftrightarrow> port = [] \<or> (has_prefix '':'' port \<and> list_all ascii_digit (drop 1 port))"

definition parseHost :: "string \<Rightarrow> string option" where
  "parseHost host =
     (if has_prefix ''['' host then
        (case cut_last CHR '']'' host of
           None \<Rightarrow> None
         | Some (front, back) \<Rightarrow>
             if \<not> validOptionalPort back then None
             else (case find_sub ''%25'' front of
                 None \<Rightarrow> unescape EncodeHost host
               | Some (host1, zone) \<Rightarrow>
                   (case (unescape EncodeHost host1, unescape EncodeZone zone,
                          unescape EncodeHost ('']'' @ back)) of
                      (Some h1, Some h2, Some h3) \<Rightarrow> Some (h1 @ h2 @ h3)
                    | _ \<Rightarrow> None)))
      else (case cut_last CHR '':'' host of
          None \<Rightarrow> unescape EncodeHost host
        | Some (front, back) \<Rightarrow>
            if \<not> validOptionalPort ('':'' @ back) then None else unescape EncodeHost host))"

definition userinfo_byte :: "char \<Rightarrow> bool" where
  "userinfo_byte c \<longleftrightarrow> url_alnum c \<or> c \<in> set ''-._:~!$&()*+,;=%@'' \<or> byte c = 39"

definition parseAuthority :: "string \<Rightarrow> string option" where
  "parseAuthority authority =
     (case cut_last CHR ''@'' authority of
        None \<Rightarrow> parseHost authority
      | Some (userinfo, host) \<Rightarrow>
          (case parseHost host of
             None \<Rightarrow> None
           | Some h \<Rightarrow>
               if \<not> list_all userinfo_byte userinfo then None
               else (case cut CHR '':'' userinfo of (username, password) \<Rightarrow>
                   if unescape EncodeUserPassword username = None
                      \<or> unescape EncodeUserPassword password = None
                   then None else Some h)))"

definition set_path :: "url \<Rightarrow> string \<Rightarrow> url option" where
  "set_path u rest = map_option (\<lambda>p. u\<lparr>url_path := p\<rparr>) (unescape EncodePath rest)"

definition parse_rest :: "string \<Rightarrow> string \<Rightarrow> url option" where
  "parse_rest scheme s =
     (case cut CHR ''?'' s of (rest, query) \<Rightarrow>
        let u = zero_url\<lparr>url_raw_query := query\<rparr> in
        if \<not> has_prefix ''/'' rest \<and> scheme \<noteq> [] then Some u
        else if \<not> has_prefix ''/'' rest \<and> contains_char CHR '':'' (fst (cut CHR ''/'' rest)) then None
        else if has_prefix ''//'' rest \<and> (scheme \<noteq> [] \<or> \<not> has_prefix ''///'' rest) then
          (let authority = takeWhile (\<lambda>c. c \<noteq> CHR ''/'') (drop 2 rest) in
           (case parseAuthority authority of
              None \<Rightarrow> None
            | Some host \<Rightarrow> set_path (u\<lparr>url_host := host\<rparr>) (drop (2 + length authority) rest)))
        else set_path u rest)"

definition Parse :: "string \<Rightarrow> url option" where
  "Parse raw =
     (case cut CHR ''#'' raw of (s, frag) \<Rightarrow>
        if list_ex (\<lambda>c. byte c < 32 \<or> byte c = 127) s then None
        else if s = ''*'' then
          (if frag = [] then Some (zero_url\<lparr>url_path := s\<rparr>)
           else map_option (\<lambda>f. zero_url\<lparr>url_path := s, url_fragment := f\<rparr>) (unescape EncodeFragment frag))
        else (case getScheme s of
            None \<Rightarrow> None
          | Some (scheme, rest) \<Rightarrow>
              (case parse_rest scheme rest of
                 None \<Rightarrow> None
               | Some u \<Rightarrow>
                   if frag = [] then Some u
                   else map_option (\<lambda>f. u\<lparr>url_fragment := f\<rparr>) (unescape EncodeFragment frag))))"

definition Hostname :: "url \<Rightarrow> string" where
  "Hostname u =
     (let host = (case cut_last CHR '':'' (url_host u) of
          Some (front, back) \<Rightarrow> if validOptionalPort ('':'' @ back) then front else url_host u
        | None \<Rightarrow> url_host u)
      in if has_prefix ''['' host \<and> host \<noteq> ''['' \<and> last host = CHR '']'' then butlast (drop 1 host) else host)"

end
