(* ===== verification/ContentFilter.thy ===== *)
theory ContentFilter
  imports GoUrl Identity
begin

text \<open>
  \<open>internal/filter/content.go\<close>: the patterns that recognise authentication codes and sign-in links,
  written as the code writes them, and \<open>Suppress\<close>.
\<close>

section \<open>Case-insensitive pieces of a pattern\<close>

text \<open>Go folds case by Unicode's simple folding: besides the ASCII pairs, the long s (U+017F) folds
  with \<open>s\<close> and the Kelvin sign (U+212A) with \<open>k\<close>.  A negated class excludes the folded runes.\<close>

definition fold_rune :: "rune \<Rightarrow> rune" where
  "fold_rune r = (if 65 \<le> r \<and> r \<le> 90 then r + 32 else if r = 0x17F then 115 else if r = 0x212A then 107 else r)"

definition lit :: "char \<Rightarrow> regex" where
  "lit c = Cls (\<lambda>r. fold_rune r = byte c)"

definition word :: "string \<Rightarrow> regex" where
  "word s = seqs (map lit s)"

definition digit :: regex where "digit = Cls (\<lambda>r. 48 \<le> r \<and> r \<le> 57)"
definition not_alnum :: regex where "not_alnum = Cls (\<lambda>r. \<not> alnum_rune (fold_rune r))"
definition space_or_dash :: regex where "space_or_dash = Cls (\<lambda>r. r = 32 \<or> r = 45)"
definition dot :: regex where "dot = Cls (\<lambda>r. r \<noteq> 10)"
definition any_rune :: regex where "any_rune = Cls (\<lambda>r. True)"

definition space_rune :: "rune \<Rightarrow> bool" where
  "space_rune r \<longleftrightarrow> r \<in> {9, 10, 12, 13, 32}"

definition space :: regex where "space = Cls space_rune"
definition space_dash :: regex where "space_dash = Cls (\<lambda>r. space_rune r \<or> r = 45)"

section \<open>The patterns\<close>

definition codeValuePattern :: regex where
  "codeValuePattern = seqs [Alt BeginText not_alnum,
     repeat_between (Seq digit (opt space_or_dash)) 4 8, Alt not_alnum EndText]"

definition codeWordsPattern :: regex where
  "codeWordsPattern = Alt
     (seqs [WordB, alts [word ''verification'', word ''security'', word ''authentication'', word ''login'',
          seqs [word ''sign'', opt space_or_dash, word ''in''],
          seqs [word ''one'', opt space_or_dash, word ''time''],
          word ''otp'', word ''2fa'', word ''mfa'', word ''passcode''],
        WordB, repeat_between dot 0 40, WordB,
        opt (alts [word ''code'', word ''password'', word ''pin'']), WordB])
     (seqs [WordB, alts [word ''code'', word ''passcode'', word ''pin''], WordB,
        repeat_between dot 0 24, alts [word ''is'', word '':'']])"

definition urlPattern :: regex where
  "urlPattern = seqs [word ''http'', opt (lit CHR ''s''), word ''://'',
     plus (Cls (\<lambda>r. \<not> (space_rune r \<or> r \<in> {60, 62, 34, 39})))]"

definition authTextPattern :: regex where
  "authTextPattern = seqs [WordB, alts [seqs [word ''sign'', opt space_or_dash, word ''in''],
       seqs [word ''log'', opt space_or_dash, word ''in''], word ''authenticate'', word ''verification'',
       word ''verify'', seqs [word ''magic'', opt space_or_dash, word ''link''],
       seqs [word ''reset'', opt space_or_dash, word ''password'']], WordB]"

definition explicit_codes :: "regex list" where
  "explicit_codes = [
       seqs [word ''verification'', plus space_dash, word ''code''],
       seqs [word ''security'', plus space_dash, word ''code''],
       seqs [word ''authentication'', plus space_dash, word ''code''],
       seqs [word ''one'', opt space_dash, word ''time'', plus space_dash,
         alts [word ''code'', word ''password'']],
       word ''otp'']"

definition explicitCodePattern :: regex where
  "explicitCodePattern = seqs [WordB, alts explicit_codes, WordB]"

definition reverseCodePattern :: regex where
  "reverseCodePattern = seqs [WordB, repeat_between digit 4 8, WordB, plus space, word ''is'', plus space,
     word ''your'', WordB, repeat_between any_rune 0 60, WordB,
     alts [word ''code'', word ''pin'', word ''password''], WordB]"

section \<open>All matches\<close>

text \<open>The runes of a text, each with the bytes it was decoded from.\<close>

function rune_chunks :: "string \<Rightarrow> (rune \<times> string) list" where
  "rune_chunks [] = []"
| "rune_chunks (c # s) =
     (fst (decode_rune (byte c) (map byte s)), c # take (snd (decode_rune (byte c) (map byte s)) - 1) s)
       # rune_chunks (drop (snd (decode_rune (byte c) (map byte s)) - 1) s)"
  by pat_completeness auto
termination by (relation "measure length") auto

text \<open>\<open>FindAllString\<close>: from left to right, the nonempty matches that do not overlap.  Every repetition in
  the URL pattern is greedy and its last class runs to the first excluded rune, so the match Go
  prefers is the longest.\<close>

definition longest :: "pos list \<Rightarrow> nat \<Rightarrow> nat" where
  "longest qs n = fold (\<lambda>q m. max m (n - length (snd q))) qs 0"

lemma fold_max_ge: "a \<le> fold (\<lambda>q m. max m (f q)) qs (a :: nat)"
proof (induction qs arbitrary: a)
  case (Cons q qs)
  have "a \<le> max a (f q)" by simp
  also have "\<dots> \<le> fold (\<lambda>q m. max m (f q)) qs (max a (f q))" by (rule Cons.IH)
  finally show ?case by simp
qed simp

function find_all :: "regex \<Rightarrow> rune option \<Rightarrow> (rune \<times> string) list \<Rightarrow> string list" where
  "find_all r b [] = []"
| "find_all r b (c # cs) =
     (let n = longest (ends r (b, map fst (c # cs))) (length (c # cs)) in
      if n = 0 then find_all r (Some (fst c)) cs
      else concat (map snd (take n (c # cs)))
             # find_all r (Some (fst (last (take n (c # cs))))) (drop n (c # cs)))"
  by pat_completeness auto
termination by (relation "measure (\<lambda>(r, b, cs). length cs)") auto

section \<open>The decision\<close>

definition trim_right_set :: "string \<Rightarrow> string \<Rightarrow> string" where
  "trim_right_set cutset s = rev (dropWhile (\<lambda>c. c \<in> set cutset) (rev s))"

text \<open>\<open>strings.ToLower\<close>, as runes.  Only the ASCII letters, the dotted capital I (U+0130) and the Kelvin
  sign have an ASCII lower case; other runes, which no keyword contains, are left alone.\<close>

definition lower_runes :: "string \<Rightarrow> rune list" where
  "lower_runes s = map (\<lambda>r. if 65 \<le> r \<and> r \<le> 90 then r + 32 else if r = 0x130 then 105
     else if r = 0x212A then 107 else r) (runes s)"

definition url_keywords :: "string list" where
  "url_keywords = [''magic'', ''signin'', ''sign-in'', ''login'', ''verify'', ''authenticate'', ''token='']"

definition suspicious_url :: "bool \<Rightarrow> string \<Rightarrow> bool" where
  "suspicious_url authText match =
     (case Parse (trim_right_set ''.,;:!?)]}'' match) of
        None \<Rightarrow> False
      | Some u \<Rightarrow>
          if Hostname u = [] then False
          else
            let query = (case QueryUnescape (url_raw_query u) of None \<Rightarrow> [] | Some q \<Rightarrow> q);
                lowerURL = lower_runes (url_path u @ ''?'' @ query @ ''#'' @ url_fragment u)
            in authText \<or> list_ex (\<lambda>w. contains (map byte w) lowerURL) url_keywords)"

definition Suppress :: "string \<Rightarrow> bool" where
  "Suppress txt =
     (if search explicitCodePattern (runes txt) \<or> search reverseCodePattern (runes txt) then True
      else if search codeValuePattern (runes txt) \<and> search codeWordsPattern (runes txt) then True
      else list_ex (suspicious_url (search authTextPattern (runes txt)))
             (find_all urlPattern None (rune_chunks txt)))"


section \<open>Words in a match\<close>

text \<open>The position reached after the runes \<open>u\<close>.\<close>

definition step_over :: "rune list \<Rightarrow> rune option \<Rightarrow> rune option" where
  "step_over u b = (if u = [] then b else Some (last u))"

lemma step_over_simps [simp]:
  "step_over [] b = b" "step_over (x # u) b = step_over u (Some x)"
  by (simp_all add: step_over_def)

lemma step_over_append [simp]: "step_over (u @ v) b = step_over v (step_over u b)"
  by (induction u arbitrary: b) auto

lemma matches_seqs_Cons:
  "matches (seqs (r # rs)) p q \<longleftrightarrow> (\<exists>t. matches r p t \<and> matches (seqs rs) t q)"
  by (cases rs; cases q) auto

lemma matches_word:
  "matches (word s) (b, xs) q \<longleftrightarrow>
     (\<exists>u rest. xs = u @ rest \<and> map fold_rune u = map byte s \<and> q = (step_over u b, rest))"
proof (induction s arbitrary: b xs)
  case Nil
  then show ?case by (auto simp: word_def)
next
  case (Cons c s)
  have "matches (word (c # s)) (b, xs) q \<longleftrightarrow>
      (\<exists>x ys. xs = x # ys \<and> fold_rune x = byte c \<and> matches (word s) (Some x, ys) q)"
    by (auto simp: word_def matches_seqs_Cons lit_def)
  also have "\<dots> \<longleftrightarrow> (\<exists>u rest. xs = u @ rest \<and> map fold_rune u = map byte (c # s) \<and> q = (step_over u b, rest))"
    by (auto simp: Cons.IH map_eq_Cons_conv)
  finally show ?case .
qed

text \<open>\<open>carries W r\<close>: every match of \<open>r\<close> contains, up to case, one of the words \<open>W\<close>.\<close>

definition carries :: "string list \<Rightarrow> regex \<Rightarrow> bool" where
  "carries W r \<longleftrightarrow> (\<forall>p q. matches r p q \<longrightarrow> list_ex (\<lambda>w. contains (map byte w) (map fold_rune (snd p))) W)"

lemma contains_append: "contains w xs \<Longrightarrow> contains w (u @ xs)"
  unfolding contains_iff by (metis append.assoc)

lemma carries_advances:
  assumes "carries W r" "matches r p q" "snd t = u @ snd p"
  shows "list_ex (\<lambda>w. contains (map byte w) (map fold_rune (snd t))) W"
  using assms(1) [unfolded carries_def, rule_format, OF assms(2)] assms(3)
  by (auto simp: list_ex_iff intro: contains_append)

lemma carries_word: "w \<in> set W \<Longrightarrow> carries W (word w)"
  by (auto simp: carries_def matches_word list_ex_iff contains_iff intro!: bexI [of _ w])
    (metis append_Nil)

lemma carries_Seq: "carries W r \<or> carries W s \<Longrightarrow> carries W (Seq r s)"
proof -
  assume c: "carries W r \<or> carries W s"
  show "carries W (Seq r s)"
    unfolding carries_def
  proof (intro allI impI)
    fix p q assume "matches (Seq r s) p q"
    then obtain t where t: "matches r p t" "matches s t q" by auto
    obtain u where u: "snd p = u @ snd t"
      using matches_advances [OF t(1)] by (auto simp: advances_def)
    from c show "list_ex (\<lambda>w. contains (map byte w) (map fold_rune (snd p))) W"
      using carries_advances [OF _ t(1), of W p "[]"] carries_advances [OF _ t(2) u, of W] by auto
  qed
qed

lemma carries_Alt: "carries W r \<Longrightarrow> carries W s \<Longrightarrow> carries W (Alt r s)"
  unfolding carries_def matches_simps by blast

lemma carries_seqs: "r \<in> set rs \<Longrightarrow> carries W r \<Longrightarrow> carries W (seqs rs)"
proof (induction rs rule: seqs.induct)
  case (3 r' a rs)
  then show ?case by (auto intro: carries_Seq)
qed auto

lemma carries_alts: "list_all (carries W) rs \<Longrightarrow> carries W (alts rs)"
proof (induction rs rule: alts.induct)
  case 1
  show ?case by (simp add: carries_def)
next
  case (3 r a rs)
  then show ?case by (auto intro: carries_Alt)
qed auto

lemma carries_search:
  assumes "carries W r" "search r txt"
  shows "list_ex (\<lambda>w. contains (map byte w) (map fold_rune txt)) W"
proof -
  from assms(2) obtain p q where p: "advances (None, txt) p" "matches r p q"
    by (auto simp: search_iff)
  then obtain u where "txt = u @ snd p" by (auto simp: advances_def)
  with carries_advances [OF assms(1) p(2), of "(None, txt)" u] show ?thesis by simp
qed

lemma fst_rune_chunks: "map fst (rune_chunks s) = runes s"
proof (induction s rule: rune_chunks.induct)
  case 1
  show ?case by (simp add: runes_def)
next
  case (2 c s)
  then show ?case by (simp add: runes_def drop_map)
qed

lemma find_all_matches:
  "find_all r b cs \<noteq> [] \<Longrightarrow> \<exists>p q u. matches r p q \<and> map fst cs = u @ snd p"
proof (induction r b cs rule: find_all.induct)
  case (1 r b)
  then show ?case by simp
next
  case (2 r b c cs)
  show ?case
  proof (cases "ends r (b, map fst (c # cs))")
    case Nil
    then have "longest (ends r (b, map fst (c # cs))) (length (c # cs)) = 0"
      by (simp add: longest_def)
    with 2(1) [OF refl] 2(3) obtain p q u where "matches r p q" "map fst cs = u @ snd p"
      by auto
    then show ?thesis
      by (intro exI [of _ p] exI [of _ q] exI [of _ "fst c # u"]) simp
  next
    case (Cons q qs)
    then have "matches r (b, map fst (c # cs)) q" by (simp flip: ends_iff)
    then show ?thesis by (intro exI [of _ "(b, map fst (c # cs))"] exI [of _ q] exI [of _ "[]"]) simp
  qed
qed

definition secret_words :: "string list" where
  "secret_words = [''verification'', ''security'', ''authentication'', ''login'', ''sign'', ''one'', ''otp'',
     ''2fa'', ''mfa'', ''passcode'', ''code'', ''pin'', ''password'', ''http'']"

lemma carries_secret_word: "w \<in> set secret_words \<Longrightarrow> carries secret_words (word w)"
  by (rule carries_word)

lemma carries_patterns:
  "carries secret_words explicitCodePattern" "carries secret_words reverseCodePattern"
  "carries secret_words codeWordsPattern" "carries secret_words urlPattern"
proof -
  have k: "list_all (\<lambda>w. w \<in> set secret_words) secret_words" by (simp add: list_all_iff)
  note k = k [unfolded secret_words_def, simplified list.pred_inject, folded secret_words_def]
  note w = carries_secret_word
  have s: "carries secret_words (seqs (word w # rs))" if "w \<in> set secret_words" for w rs
    using that by (intro carries_seqs [of "word w"] w) auto
  have "carries secret_words (alts explicit_codes)" (is "carries _ ?e")
    unfolding explicit_codes_def by (rule carries_alts) (simp add: s w k del: seqs.simps)
  then show "carries secret_words explicitCodePattern"
    unfolding explicitCodePattern_def by (intro carries_seqs [of ?e]) simp
  have "carries secret_words (alts [word ''code'', word ''pin'', word ''password''])" (is "carries _ ?c")
    by (rule carries_alts) (simp add: w k)
  then show "carries secret_words reverseCodePattern"
    unfolding reverseCodePattern_def by (intro carries_seqs [of ?c]) simp
  have a: "carries secret_words (alts [word ''verification'', word ''security'', word ''authentication'',
        word ''login'', seqs [word ''sign'', opt space_or_dash, word ''in''],
        seqs [word ''one'', opt space_or_dash, word ''time''],
        word ''otp'', word ''2fa'', word ''mfa'', word ''passcode''])" (is "carries _ ?a")
    by (rule carries_alts) (simp add: s w k del: seqs.simps)
  have b: "carries secret_words (alts [word ''code'', word ''passcode'', word ''pin''])" (is "carries _ ?b")
    by (rule carries_alts) (simp add: w k)
  show "carries secret_words codeWordsPattern"
    unfolding codeWordsPattern_def
    by (intro carries_Alt carries_seqs [OF _ a] carries_seqs [OF _ b]) simp_all
  show "carries secret_words urlPattern"
    unfolding urlPattern_def by (intro s) (simp add: k)
qed

lemma find_all_withheld:
  "find_all urlPattern None (rune_chunks txt) \<noteq> [] \<Longrightarrow>
     list_ex (\<lambda>w. contains (map byte w) (map fold_rune (runes txt))) secret_words"
proof -
  assume "find_all urlPattern None (rune_chunks txt) \<noteq> []"
  from find_all_matches [OF this] obtain p q u where
    m: "matches urlPattern p q" "runes txt = u @ snd p" by (auto simp: fst_rune_chunks)
  from carries_advances [OF carries_patterns(4) m(1), of "(None, runes txt)" u] m(2) show ?thesis
    by simp
qed

lemma Suppress_mentions:
  assumes "Suppress txt"
  shows "list_ex (\<lambda>w. contains (map byte w) (map fold_rune (runes txt))) secret_words"
proof -
  have "search explicitCodePattern (runes txt) \<or> search reverseCodePattern (runes txt)
      \<or> search codeWordsPattern (runes txt) \<or> find_all urlPattern None (rune_chunks txt) \<noteq> []"
    by (rule ccontr) (use assms in \<open>simp add: Suppress_def\<close>)
  then consider "search explicitCodePattern (runes txt)" | "search reverseCodePattern (runes txt)"
    | "search codeWordsPattern (runes txt)" | "find_all urlPattern None (rune_chunks txt) \<noteq> []"
    by blast
  then show ?thesis
  proof cases
  qed (use carries_search carries_patterns find_all_withheld in blast)+
qed

section \<open>Properties\<close>

text \<open>Filtering does not overreach: a message that is withheld contains, up to case, one of the fourteen
  words of the patterns (or \<open>http\<close>, for links); any other message passes.\<close>

theorem suppressed_mentions:
  assumes "Suppress txt"
  shows "list_ex (\<lambda>w. contains (map byte w) (map fold_rune (runes txt))) secret_words"
  using assms by (rule Suppress_mentions)

lemma matches_plus_class:
  assumes "u \<noteq> []" "\<forall>x \<in> set u. P x"
  shows "matches (plus (Cls P)) (b, u @ v) (step_over u b, v)"
proof -
  have star: "matches (Star (Cls P)) (b, u @ v) (step_over u b, v)" if "\<forall>x \<in> set u. P x" for u b
    using that
  proof (induction u arbitrary: b)
    case (Cons x u)
    have "matches (Star (Cls P)) (Some x, u @ v) (step_over u (Some x), v)"
      using Cons by auto
    moreover have "matches (Cls P) (b, x # u @ v) (Some x, u @ v)" using Cons.prems by simp
    ultimately show ?case by (simp add: matches.star1)
  qed (simp add: matches.star0)
  from assms obtain x w where u: "u = x # w" "P x" by (cases u) auto
  with star [of w "Some x"] assms(2) show ?thesis by (auto simp: plus_def)
qed

lemma fold_rune_ascii: "fold_rune (byte c) = byte (to_lower_char c)"
proof -
  have "byte c < 256" by (rule byte_less)
  then have "byte c \<noteq> 383" "byte c \<noteq> 8490" by linarith+
  then show ?thesis by (simp add: fold_rune_def byte_to_lower_char)
qed

lemma matches_word_ascii:
  assumes "to_lower a = w"
  shows "matches (word w) (b, map byte a @ v) (step_over (map byte a) b, v)"
  unfolding matches_word using assms
  by (intro exI [of _ "map byte a"] exI [of _ v]) (auto simp: fold_rune_ascii to_lower_def)

lemma word_rune_lower: "word_rune (byte (to_lower_char c)) \<longleftrightarrow> word_rune (byte c)"
  by (auto simp: byte_to_lower_char word_rune_def)

lemma matches_alts: "r \<in> set rs \<Longrightarrow> matches r p q \<Longrightarrow> matches (alts rs) p q"
proof (induction rs rule: alts.induct)
  case (3 r' a rs)
  then show ?case by auto
qed auto

lemma explicit_code_matches:
  assumes "to_lower a \<in> {''verification'', ''security'', ''authentication''}" "to_lower c = ''code''"
    and "sep \<noteq> []" "\<forall>x \<in> set sep. space_rune (byte x) \<or> x = CHR ''-''"
  shows "matches (alts explicit_codes) (b, map byte a @ map byte sep @ map byte c @ v)
     (step_over (map byte c) (step_over (map byte sep) (step_over (map byte a) b)), v)"
proof -
  have sep: "\<forall>x \<in> set (map byte sep). space_rune x \<or> x = 45"
  proof
    fix x assume "x \<in> set (map byte sep)"
    then obtain y where y: "y \<in> set sep" "x = byte y" by auto
    with assms(4) have "space_rune (byte y) \<or> y = CHR ''-''" by blast
    then show "space_rune x \<or> x = 45" unfolding y(2) by (rule disj_forward) simp_all
  qed
  have "matches (plus space_dash) (step_over (map byte a) b, map byte sep @ map byte c @ v)
      (step_over (map byte sep) (step_over (map byte a) b), map byte c @ v)"
    unfolding space_dash_def by (rule matches_plus_class) (use assms(3) sep in simp_all)
  from matches.seq [OF matches_word_ascii [OF refl] matches.seq [OF this matches_word_ascii [OF refl]]]
  have m: "matches (seqs [word (to_lower a), plus space_dash, word (to_lower c)])
      (b, map byte a @ map byte sep @ map byte c @ v)
      (step_over (map byte c) (step_over (map byte sep) (step_over (map byte a) b)), v)"
    by (simp only: seqs.simps)
  have "seqs [word w, plus space_dash, word ''code''] \<in> set explicit_codes"
    if "w \<in> {''verification'', ''security'', ''authentication''}" for w
    using that unfolding explicit_codes_def
    by (elim insertE emptyE; hypsubst) (simp_all only: list.set insert_iff simp_thms)
  from matches_alts [OF this [OF assms(1)] m [unfolded assms(2)]] show ?thesis .
qed

text \<open>C15: A message that holds \<open>verification\<close>, \<open>security\<close> or \<open>authentication\<close>, then any blanks or dashes,
  then \<open>code\<close>, in any ASCII case and not inside a longer word, is withheld, wherever it stands and
  whatever surrounds it.\<close>

theorem explicit_code_withheld:
  assumes "runes txt = u @ map byte (a @ sep @ c) @ v"
    and "to_lower a \<in> {''verification'', ''security'', ''authentication''}" "to_lower c = ''code''"
    and "sep \<noteq> []" "\<forall>x \<in> set sep. space_rune (byte x) \<or> x = CHR ''-''"
    and "u = [] \<or> \<not> word_rune (last u)" "v = [] \<or> \<not> word_rune (hd v)"
  shows "Suppress txt"
proof -
  let ?b = "step_over u None"
  let ?p = "(?b, map byte a @ map byte sep @ map byte c @ v)"
  let ?q = "(step_over (map byte c) (step_over (map byte sep) (step_over (map byte a) ?b)), v)"
  have e: "matches (alts explicit_codes) ?p ?q"
    by (rule explicit_code_matches [OF assms(2-5)])
  have "to_lower a \<noteq> [] \<and> word_rune (byte (hd (to_lower a)))"
    using assms(2) by (elim insertE emptyE) (simp_all add: word_rune_def)
  then have wa: "a \<noteq> []" "word_rune (byte (hd a))"
    unfolding to_lower_def by (auto simp: hd_map word_rune_lower)
  have "to_lower c \<noteq> [] \<and> word_rune (byte (last (to_lower c)))"
    unfolding assms(3) by (simp add: word_rune_def)
  then have wc: "c \<noteq> []" "word_rune (byte (last c))"
    unfolding to_lower_def by (auto simp: last_map word_rune_lower)
  have "matches explicitCodePattern ?p ?q"
  proof -
    have "at_boundary ?p"
      using wa assms(6) by (cases a; cases "u = []") (auto simp: at_boundary_def step_over_def)
    moreover have "at_boundary ?q"
      using wc assms(7) by (cases v) (auto simp: at_boundary_def step_over_def last_map)
    ultimately show ?thesis
      using e unfolding explicitCodePattern_def matches_seqs_Cons seqs.simps(2) by auto
  qed
  moreover have "advances (None, runes txt) ?p"
    by (auto simp: advances_def assms(1) step_over_def)
  ultimately have "search explicitCodePattern (runes txt)"
    unfolding search_iff by blast
  then show ?thesis by (simp add: Suppress_def)
qed

lemma explicit_code_withheld_witness: "Suppress ''Your Verification code is 123456''"
proof (rule explicit_code_withheld)
  show "runes ''Your Verification code is 123456'' =
      map byte ''Your '' @ map byte (''Verification'' @ '' '' @ ''code'') @ map byte '' is 123456''"
    by code_simp
  show "to_lower ''Verification'' \<in> {''verification'', ''security'', ''authentication''}"
    "to_lower ''code'' = ''code''"
    by code_simp+
qed (simp_all add: word_rune_def space_rune_def)

lemma otp_withheld: "Suppress ''otp''"
proof -
  have "runes ''otp'' = map byte ''otp''" by code_simp
  then have "search explicitCodePattern (runes ''otp'')" by code_simp
  then show ?thesis by (simp add: Suppress_def)
qed

lemma suppressed_mentions_witness:
  "list_ex (\<lambda>w. contains (map byte w) (map fold_rune (runes ''otp''))) secret_words"
  by (rule suppressed_mentions [OF otp_withheld])

end
