(* ===== verification/Broker.thy ===== *)
theory Broker
  imports Backend Config Cursor ContentFilter
begin

text \<open>
  The request handlers of \<open>internal/broker/server.go\<close>.  What a handler depends on (the backend
  \<open>Service\<close>, loading the policy file, the contacts manager, the cursor nonce, the request context) is
  a record \<open>deps\<close> of functions over a world \<open>'w\<close>: every call consumes the world as the previous call
  left it, so the order of the calls and what may change between them (a revoked grant, a new
  message) are part of the model.  A handler is a function from the world to a response and the
  world after it.  An error of the backend is the list of sentinels it wraps.
\<close>

section \<open>The server\<close>

record 'w deps =
  dp_generation :: string
  dp_list_chats :: "int \<Rightarrow> 'w \<Rightarrow> (berr + raw_chat list) \<times> 'w"
  dp_chat :: "int64 \<Rightarrow> 'w \<Rightarrow> (berr + raw_chat) \<times> 'w"
  dp_history :: "int64 \<Rightarrow> int \<Rightarrow> 'w \<Rightarrow> (berr + raw_message list) \<times> 'w"
  dp_collect :: "int64 \<Rightarrow> int64 \<Rightarrow> int \<Rightarrow> string \<Rightarrow> 'w \<Rightarrow> (berr + collection_page) \<times> 'w"
  dp_load_policy :: "string \<Rightarrow> 'w \<Rightarrow> policy option \<times> 'w"
  dp_contacts_get :: "'w \<Rightarrow> string list option \<times> 'w"
  dp_contacts_status :: "'w \<Rightarrow> contacts_policy_info \<times> 'w"
  dp_nonce :: "'w \<Rightarrow> bytes \<times> 'w"
  dp_ctx_err :: "'w \<Rightarrow> backend_error option \<times> 'w"
  dp_json_error :: "bytes \<Rightarrow> string"

record 'w server =
  sv_cfg :: config
  sv_deps :: "'w deps"
  sv_cipher :: aead

type_synonym reply = "rpc_result response"

definition maxTextBytes :: nat where "maxTextBytes = 64 * 1024"

section \<open>Errors\<close>

definition invalidParams :: "string \<Rightarrow> string \<Rightarrow> reply" where
  "invalidParams i err = Failure i ''invalid_params'' (''invalid parameters: '' @ err) False"

definition decode_error_text :: "'w server \<Rightarrow> bytes \<Rightarrow> decode_error \<Rightarrow> string" where
  "decode_error_text s raw e =
     (case e of
        ExpectedObject \<Rightarrow> ''expected a JSON object''
      | JsonError \<Rightarrow> dp_json_error (sv_deps s) raw
      | ExactlyOneObject \<Rightarrow> ''params must contain exactly one object'')"

definition backendFailure :: "string \<Rightarrow> berr \<Rightarrow> reply" where
  "backendFailure i err =
     (if ErrUnsupported \<in> set err
      then Failure i ''collection_unsupported'' ''backend upgrade is required for bounded collection'' False
      else if DeadlineExceeded \<in> set err
      then Failure i ''backend_timeout'' ''imsg backend request exceeded its time budget'' True
      else if ErrOverflow \<in> set err
      then Failure i ''collection_overflow'' ''backend output exceeded a safe response or scan bound'' False
      else Failure i ''backend_unavailable'' ''imsg backend request failed'' True)"

text \<open>\<open>if failure != nil { return *failure }\<close> after a call, and the same for an error of the backend;
  \<open>ret\<close> turns the failure into the handler's result.\<close>

definition or_return :: "('f \<Rightarrow> 'r) \<Rightarrow> ('f + 'a) \<times> 'w \<Rightarrow> ('a \<Rightarrow> 'w \<Rightarrow> 'r \<times> 'w) \<Rightarrow> 'r \<times> 'w" where
  "or_return ret r k = (case r of (Inl failure, w) \<Rightarrow> (ret failure, w) | (Inr x, w) \<Rightarrow> k x w)"

definition backend_call :: "string \<Rightarrow> (berr + 'a) \<times> 'w \<Rightarrow> (reply + 'a) \<times> 'w" where
  "backend_call i r = apfst (map_sum (backendFailure i) id) r"

section \<open>Limits, policy, generation\<close>

definition normalizeLimit :: "int \<Rightarrow> int \<Rightarrow> int \<Rightarrow> string + int" where
  "normalizeLimit requested defaultValue maximum =
     (if requested = 0 then Inr (min defaultValue maximum)
      else if requested < 1 \<or> requested > maximum
      then Inl (''limit must be between 1 and '' @ print_int maximum)
      else Inr requested)"

definition loadPolicy :: "'w server \<Rightarrow> string \<Rightarrow> 'w \<Rightarrow> (reply + policy) \<times> 'w" where
  "loadPolicy s i w =
     (let failure = Inl (Failure i ''policy_unavailable'' ''policy could not be loaded safely'' False) in
      case dp_load_policy (sv_deps s) (cf_policy_path (sv_cfg s)) w of
        (None, w) \<Rightarrow> (failure, w)
      | (Some p, w) \<Rightarrow>
          if cf_contacts (sv_cfg s) = None then (Inr p, w)
          else (case dp_contacts_get (sv_deps s) w of
              (None, w) \<Rightarrow> (failure, w)
            | (Some identities, w) \<Rightarrow>
                (case WithDirect p identities of
                   Inl e \<Rightarrow> (failure, w)
                 | Inr q \<Rightarrow> (Inr q, w))))"

definition verifyGeneration :: "'w server \<Rightarrow> string \<Rightarrow> string \<Rightarrow> reply option" where
  "verifyGeneration s i got =
     (if got = [] then Some (Failure i ''invalid_params'' ''database_generation is required'' False)
      else if got \<noteq> dp_generation (sv_deps s)
      then Some (Failure i ''stale_generation'' ''database generation does not match this broker'' False)
      else None)"

section \<open>Conversations\<close>

definition toConversation :: "raw_chat \<Rightarrow> conversation" where
  "toConversation ch = \<lparr>cv_guid = rc_guid ch, cv_identifier = rc_identifier ch,
     cv_is_group = rc_is_group ch, cv_participants = rc_participants ch\<rparr>"

definition validChat :: "raw_chat \<Rightarrow> bool" where
  "validChat ch \<longleftrightarrow> rc_id ch > 0 \<and> length (rc_guid ch) > 0 \<and> length (rc_guid ch) \<le> 512
     \<and> length (rc_identifier ch) \<le> 512 \<and> length (rc_service ch) > 0 \<and> length (rc_service ch) \<le> 64"

definition matchesAccount :: "'w server \<Rightarrow> raw_chat \<Rightarrow> bool" where
  "matchesAccount s ch \<longleftrightarrow> rc_account_id ch = Some (cf_backend_account_id (sv_cfg s))"

definition exposeChat :: "'w server \<Rightarrow> raw_chat \<Rightarrow> decision \<Rightarrow> chat" where
  "exposeChat s ch d = \<lparr>ch_account_id = cf_account_id (sv_cfg s),
     ch_database_generation = dp_generation (sv_deps s), ch_chat_id = rc_id ch,
     ch_chat_guid = rc_guid ch, ch_service = rc_service ch, ch_is_group = d_is_group d,
     ch_participants = d_participants d\<rparr>"

text \<open>The row loop of \<open>listChats\<close>; \<open>None\<close> when a row has invalid metadata.\<close>

fun list_rows :: "'w server \<Rightarrow> policy \<Rightarrow> int \<Rightarrow> raw_chat list \<Rightarrow> chat list \<Rightarrow> bool \<Rightarrow> (chat list \<times> bool) option" where
  "list_rows s p limit [] result complete = Some (result, complete)"
| "list_rows s p limit (row # rows) result complete =
     (if \<not> validChat row then None
      else if \<not> matchesAccount s row then list_rows s p limit rows result complete
      else
        let decision = Authorize (Some p) (toConversation row) in
        if d_allowed decision then
          (if int (length result) = limit then list_rows s p limit rows result False
           else list_rows s p limit rows (result @ [exposeChat s row decision]) complete)
        else list_rows s p limit rows result complete)"

definition list_reply :: "string \<Rightarrow> (chat list \<times> bool) option \<Rightarrow> reply" where
  "list_reply i r =
     (case r of
        None \<Rightarrow> Failure i ''backend_invalid'' ''backend returned invalid conversation metadata'' False
      | Some (result, complete) \<Rightarrow>
          Success i (ListChatsResult \<lparr>lr_chats = result, lr_scan_complete = complete\<rparr>))"

definition listChats :: "'w server \<Rightarrow> request \<Rightarrow> 'w \<Rightarrow> reply \<times> 'w" where
  "listChats s req w =
     (let i = rq_id req; cfg = sv_cfg s in
      case decode_list_chats (rq_params req) of
        Inl e \<Rightarrow> (invalidParams i (decode_error_text s (rq_params req) e), w)
      | Inr params \<Rightarrow>
        (case normalizeLimit (lc_limit params) 20 (cf_max_results cfg) of
           Inl e \<Rightarrow> (invalidParams i e, w)
         | Inr limit \<Rightarrow>
           or_return id (backend_call i (dp_list_chats (sv_deps s) (cf_max_chat_scan cfg) w)) (\<lambda>rows w.
           or_return id (loadPolicy s i w) (\<lambda>p w.
             (list_reply i (list_rows s p limit rows [] (int (length rows) < cf_max_chat_scan cfg)), w)))))"

definition not_visible :: "string \<Rightarrow> reply" where
  "not_visible i = Failure i ''not_visible'' ''conversation is not visible'' False"

definition authorizedChat :: "'w server \<Rightarrow> string \<Rightarrow> int64 \<Rightarrow> policy \<Rightarrow> 'w \<Rightarrow> (reply + raw_chat \<times> decision) \<times> 'w" where
  "authorizedChat s i chatID p w =
     (if chatID \<le> 0 then (Inl (Failure i ''invalid_params'' ''chat_id must be positive'' False), w)
      else or_return Inl (backend_call i (dp_chat (sv_deps s) chatID w)) (\<lambda>ch w.
        (if \<not> validChat ch \<or> rc_id ch \<noteq> chatID
         then Inl (Failure i ''backend_invalid'' ''backend returned invalid conversation metadata'' False)
         else if \<not> matchesAccount s ch then Inl (not_visible i)
         else
           let decision = Authorize (Some p) (toConversation ch) in
           if \<not> d_allowed decision then Inl (not_visible i) else Inr (ch, decision), w)))"

section \<open>Messages\<close>

definition sameConversation :: "raw_message \<Rightarrow> raw_chat \<Rightarrow> policy \<Rightarrow> decision option" where
  "sameConversation m ch p =
     (if rm_chat_id m \<noteq> rc_id ch \<or> rm_chat_guid m \<noteq> rc_guid ch
         \<or> rm_chat_identifier m \<noteq> rc_identifier ch \<or> rm_is_group m = None \<or> rc_is_group ch = None
         \<or> rm_is_group m \<noteq> rc_is_group ch
      then None
      else
        let messageDecision = Authorize (Some p) (toConversation (Conversation m));
            chatDecision = Authorize (Some p) (toConversation ch)
        in
        if \<not> d_valid messageDecision \<or> \<not> d_valid chatDecision
           \<or> d_is_group messageDecision \<noteq> d_is_group chatDecision
           \<or> d_allowed messageDecision \<noteq> d_allowed chatDecision
        then None
        else if join_with [CHR 0x00] (sort (d_participants messageDecision))
                \<noteq> join_with [CHR 0x00] (sort (d_participants chatDecision))
        then None
        else Some messageDecision)"

datatype expose_error =
  InvalidMessageFields | ContradictoryMetadata | InvalidTimestamp | InvalidSender | NotParticipant

text \<open>\<open>exposeMessage\<close>: an error, or the message if it may be shown.  \<open>time.Parse\<close> accepts the same
  strings for \<open>RFC3339Nano\<close> as for \<open>RFC3339\<close>.\<close>

definition message_sender :: "raw_message \<Rightarrow> bool \<Rightarrow> decision \<Rightarrow> expose_error + string" where
  "message_sender m from_me d =
     (if from_me then Inr []
      else (case NormalizeIdentity (rm_sender m) of
          Inl e \<Rightarrow> Inl InvalidSender
        | Inr normalized \<Rightarrow>
            if normalized \<in> set (d_participants d) then Inr normalized else Inl NotParticipant))"

definition exposeMessage :: "'w server \<Rightarrow> raw_message \<Rightarrow> raw_chat \<Rightarrow> policy \<Rightarrow> expose_error + message option" where
  "exposeMessage s m ch p =
     (case rm_is_from_me m of
        None \<Rightarrow> Inl InvalidMessageFields
      | Some from_me \<Rightarrow>
          if rm_id m \<le> 0 \<or> rm_chat_id m \<le> 0 \<or> rm_guid m = [] \<or> length (rm_guid m) > 512
             \<or> \<not> valid_utf8 (rm_text m) \<or> length (rm_text m) > maxTextBytes
          then Inl InvalidMessageFields
          else if \<not> matchesAccount s ch then Inr None
          else (case sameConversation m ch p of
              None \<Rightarrow> Inl ContradictoryMetadata
            | Some decision \<Rightarrow>
                if \<not> d_allowed decision then Inr None
                else if parse_rfc3339 (rm_created_at m) = None then Inl InvalidTimestamp
                else if Suppress (rm_text m) then Inr None
                else (case message_sender m from_me decision of
                    Inl e \<Rightarrow> Inl e
                  | Inr sender \<Rightarrow>
                      Inr (Some \<lparr>ms_account_id = cf_account_id (sv_cfg s),
                        ms_database_generation = dp_generation (sv_deps s), ms_row_id = rm_id m,
                        ms_chat_id = rm_chat_id m, ms_chat_guid = rm_chat_guid m, ms_guid = rm_guid m,
                        ms_sender = sender, ms_from_me = from_me, ms_text = rm_text m,
                        ms_created_at = rm_created_at m\<rparr>))))"


section \<open>History\<close>

definition unsafe_metadata :: "string \<Rightarrow> reply" where
  "unsafe_metadata i = Failure i ''backend_invalid'' ''backend returned unsafe message metadata'' False"

fun history_rows ::
  "'w server \<Rightarrow> policy \<Rightarrow> raw_chat \<Rightarrow> int \<Rightarrow> raw_message list \<Rightarrow> message list \<Rightarrow> bool \<Rightarrow> (message list \<times> bool) option"
where
  "history_rows s p ch limit [] messages complete = Some (messages, complete)"
| "history_rows s p ch limit (row # rows) messages complete =
     (case exposeMessage s row ch p of
        Inl e \<Rightarrow> None
      | Inr None \<Rightarrow> history_rows s p ch limit rows messages complete
      | Inr (Some m) \<Rightarrow>
          if int (length messages) = limit then history_rows s p ch limit rows messages False
          else history_rows s p ch limit rows (messages @ [m]) complete)"

definition history_reply :: "'w server \<Rightarrow> string \<Rightarrow> policy \<Rightarrow> raw_chat \<Rightarrow> int \<Rightarrow> raw_message list \<Rightarrow> reply" where
  "history_reply s i p ch limit rows =
     (if \<not> d_allowed (Authorize (Some p) (toConversation ch)) then not_visible i
      else (case history_rows s p ch limit rows [] (int (length rows) < limit) of
          None \<Rightarrow> unsafe_metadata i
        | Some (messages, complete) \<Rightarrow>
            Success i (HistoryResult \<lparr>hr_messages = messages, hr_scan_complete = complete\<rparr>)))"

definition history :: "'w server \<Rightarrow> request \<Rightarrow> 'w \<Rightarrow> reply \<times> 'w" where
  "history s req w =
     (let i = rq_id req; cfg = sv_cfg s in
      case decode_generation (rq_params req) of
        Inl e \<Rightarrow> (invalidParams i (decode_error_text s (rq_params req) e), w)
      | Inr params \<Rightarrow>
        (case verifyGeneration s i (gp_database_generation params) of
           Some failure \<Rightarrow> (failure, w)
         | None \<Rightarrow>
           (case normalizeLimit (gp_limit params) 50 (cf_max_results cfg) of
              Inl e \<Rightarrow> (invalidParams i e, w)
            | Inr limit \<Rightarrow>
              or_return id (loadPolicy s i w) (\<lambda>p w.
              or_return id (authorizedChat s i (gp_chat_id params) p w) (\<lambda>(ch, _) w.
              or_return id (backend_call i (dp_history (sv_deps s) (gp_chat_id params) limit w)) (\<lambda>rows w.
              or_return id (loadPolicy s i w) (\<lambda>p w.
                (history_reply s i p ch limit rows, w))))))))"

section \<open>One message\<close>

fun find_message ::
  "'w server \<Rightarrow> string \<Rightarrow> policy \<Rightarrow> raw_chat \<Rightarrow> string \<Rightarrow> raw_message list \<Rightarrow> reply option" where
  "find_message s i p ch guid [] = None"
| "find_message s i p ch guid (row # rows) =
     (if rm_guid row \<noteq> guid then find_message s i p ch guid rows
      else Some (case exposeMessage s row ch p of
          Inl e \<Rightarrow> unsafe_metadata i
        | Inr None \<Rightarrow> Failure i ''not_visible'' ''message is not visible'' False
        | Inr (Some m) \<Rightarrow> Success i (GetMessageResult \<lparr>gr_message = m\<rparr>)))"

definition message_reply :: "'w server \<Rightarrow> string \<Rightarrow> policy \<Rightarrow> raw_chat \<Rightarrow> string \<Rightarrow> raw_message list \<Rightarrow> reply" where
  "message_reply s i p ch guid rows =
     (if \<not> d_allowed (Authorize (Some p) (toConversation ch)) then not_visible i
      else (case find_message s i p ch guid rows of
          Some resp \<Rightarrow> resp
        | None \<Rightarrow>
            if int (length rows) = cf_max_message_scan (sv_cfg s)
            then Failure i ''lookup_incomplete''
              ''message was not found within the bounded recent-history scan'' False
            else Failure i ''not_found'' ''message was not found'' False))"

definition getMessage :: "'w server \<Rightarrow> request \<Rightarrow> 'w \<Rightarrow> reply \<times> 'w" where
  "getMessage s req w =
     (let i = rq_id req; cfg = sv_cfg s in
      case decode_get_message (rq_params req) of
        Inl e \<Rightarrow> (invalidParams i (decode_error_text s (rq_params req) e), w)
      | Inr params \<Rightarrow>
        (case verifyGeneration s i (gm_database_generation params) of
           Some failure \<Rightarrow> (failure, w)
         | None \<Rightarrow>
           (if trim_space (gm_guid params) = [] \<or> length (gm_guid params) > 512
            then (invalidParams i ''guid is required and must be at most 512 bytes'', w)
            else
              or_return id (loadPolicy s i w) (\<lambda>p w.
              or_return id (authorizedChat s i (gm_chat_id params) p w) (\<lambda>(ch, _) w.
              or_return id (backend_call i (dp_history (sv_deps s) (gm_chat_id params) (cf_max_message_scan cfg) w)) (\<lambda>rows w.
              or_return id (loadPolicy s i w) (\<lambda>p w.
                (message_reply s i p ch (gm_guid params) rows, w))))))))"

section \<open>Collection\<close>

text \<open>The cursor a request starts from: decoded, or built from the initial parameters.\<close>

definition start_cursor :: "'w server \<Rightarrow> collect_params \<Rightarrow> string + cursor" where
  "start_cursor s params =
     (if cp_cursor params \<noteq> [] then
        (if cp_after_row_id params \<noteq> 0 \<or> cp_database_generation params \<noteq> [] \<or> cp_not_before params \<noteq> []
         then Inl ''cursor cannot be combined with initial collection parameters''
         else (case decodeCursor (sv_cipher s) (cf_instance (sv_cfg s)) (cp_cursor params) of
             Inl _ \<Rightarrow> Inl ''invalid cursor''
           | Inr c \<Rightarrow> Inr c))
      else if cp_after_row_id params < 0 \<or> cp_database_generation params = []
      then Inl ''cursor or nonnegative after_row_id plus database_generation is required''
      else Inr (zero_cursor\<lparr>cu_v := 1, cu_account_id := cf_account_id (sv_cfg s),
         cu_generation := cp_database_generation params, cu_row_id := cp_after_row_id params\<rparr>))"

text \<open>Adding \<open>not_before\<close>, in canonical form.\<close>

definition apply_not_before :: "collect_params \<Rightarrow> cursor \<Rightarrow> string + cursor" where
  "apply_not_before params c =
     (if cp_not_before params = [] then Inr c
      else if cp_cursor params \<noteq> [] \<or> cp_after_row_id params \<noteq> 0
      then Inl ''not_before requires an initial zero row boundary''
      else (case parse_rfc3339 (cp_not_before params) of
          None \<Rightarrow> Inl ''not_before must be RFC3339''
        | Some t \<Rightarrow> Inr (c\<lparr>cu_not_before := format_rfc3339_nano t\<rparr>)))"

text \<open>The row loop; \<open>None\<close> is the panic of dereferencing a missing conversation.\<close>

fun collect_rows :: "'w server \<Rightarrow> policy \<Rightarrow> collection_row list \<Rightarrow> message list \<Rightarrow> message list option" where
  "collect_rows s p [] messages = Some messages"
| "collect_rows s p (row # rows) messages =
     (case cw_message row of
        None \<Rightarrow> collect_rows s p rows messages
      | Some m \<Rightarrow>
          (case cw_chat row of
             None \<Rightarrow> None
           | Some ch \<Rightarrow>
               if \<not> validChat ch then collect_rows s p rows messages
               else (case exposeMessage s m ch p of
                   Inl _ \<Rightarrow> collect_rows s p rows messages
                 | Inr None \<Rightarrow> collect_rows s p rows messages
                 | Inr (Some x) \<Rightarrow> collect_rows s p rows (messages @ [x]))))"

definition next_cursor :: "cursor \<Rightarrow> collection_page \<Rightarrow> cursor" where
  "next_cursor c page =
     (let c = c\<lparr>cu_row_id := pg_scanned page, cu_through_row_id := pg_through page,
                cu_complete := pg_complete page\<rparr>
      in if pg_complete page then c\<lparr>cu_not_before := []\<rparr> else c)"

definition collect_success ::
  "'w server \<Rightarrow> string \<Rightarrow> cursor \<Rightarrow> collection_page \<Rightarrow> message list \<Rightarrow> 'w \<Rightarrow> reply option \<times> 'w" where
  "collect_success s i c page messages w =
     (case dp_nonce (sv_deps s) w of
        (nonce, w) \<Rightarrow>
          (Some (Success i (CollectResult \<lparr>cr_messages = messages,
             cr_cursor = encodeCursor (sv_cipher s) (cf_instance (sv_cfg s)) nonce (next_cursor c page),
             cr_more = (\<not> pg_complete page), cr_range_complete = pg_complete page\<rparr>)), w))"

text \<open>From the backend call on.\<close>

definition collect_from :: "'w server \<Rightarrow> string \<Rightarrow> int \<Rightarrow> cursor \<Rightarrow> 'w \<Rightarrow> reply option \<times> 'w" where
  "collect_from s i limit c w =
     (let through = (if cu_complete c then 0 else cu_through_row_id c);
          notBefore = (if cu_complete c then [] else cu_not_before c);
          scanLimit = min limit (cf_max_collection_scan (sv_cfg s)) in
      or_return Some (backend_call i (dp_collect (sv_deps s) (cu_row_id c) through scanLimit notBefore w)) (\<lambda>page w.
        if \<not> ValidateCollectionPage page (cu_row_id c) through scanLimit
        then (Some (Failure i ''backend_invalid'' ''backend returned an invalid collection checkpoint'' False), w)
        else
          or_return Some (loadPolicy s i w) (\<lambda>p w.
            case collect_rows s p (pg_rows page) [] of
              None \<Rightarrow> (None, w)
            | Some messages \<Rightarrow> collect_success s i c page messages w)))"

text \<open>The cursor a request asks to continue, or the error text.\<close>

definition request_cursor :: "'w server \<Rightarrow> collect_params \<Rightarrow> string + cursor" where
  "request_cursor s params =
     (case start_cursor s params of Inl e \<Rightarrow> Inl e | Inr c \<Rightarrow> apply_not_before params c)"

definition collect :: "'w server \<Rightarrow> request \<Rightarrow> 'w \<Rightarrow> reply option \<times> 'w" where
  "collect s req w =
     (let i = rq_id req; cfg = sv_cfg s in
      case decode_collect (rq_params req) of
        Inl e \<Rightarrow> (Some (invalidParams i (decode_error_text s (rq_params req) e)), w)
      | Inr params \<Rightarrow>
        (case normalizeLimit (cp_limit params) 50 (cf_max_results cfg) of
           Inl e \<Rightarrow> (Some (invalidParams i e), w)
         | Inr limit \<Rightarrow>
           (case request_cursor s params of
              Inl e \<Rightarrow> (Some (invalidParams i e), w)
            | Inr c \<Rightarrow>
                if cu_account_id c \<noteq> cf_account_id cfg \<or> cu_generation c \<noteq> dp_generation (sv_deps s)
                then (Some (Failure i ''stale_cursor''
                        ''cursor belongs to a different account or database generation'' False), w)
                else or_return Some (loadPolicy s i w) (\<lambda>_ w. collect_from s i limit c w))))"

section \<open>Dispatch\<close>

definition CollectionProtocol :: string where "CollectionProtocol = ''bounded_rows_v2''"

definition ping :: "'w server \<Rightarrow> request \<Rightarrow> reply" where
  "ping s req =
     (case decodeEmpty (rq_params req) of
        Inl e \<Rightarrow> invalidParams (rq_id req) (decode_error_text s (rq_params req) e)
      | Inr _ \<Rightarrow> Success (rq_id req) PongResult)"

definition info :: "'w server \<Rightarrow> request \<Rightarrow> 'w \<Rightarrow> reply \<times> 'w" where
  "info s req w =
     (case decodeEmpty (rq_params req) of
        Inl e \<Rightarrow> (invalidParams (rq_id req) (decode_error_text s (rq_params req) e), w)
      | Inr _ \<Rightarrow>
          (let (contactsInfo, w) =
             (if cf_contacts (sv_cfg s) = None then (None, w)
              else (case dp_contacts_status (sv_deps s) w of (st, w) \<Rightarrow> (Some st, w))) in
           (Success (rq_id req) (InfoResult \<lparr>si_service = ''safe-imsgd'', si_protocol_version = Version1,
              si_instance = cf_instance (sv_cfg s), si_account_id = cf_account_id (sv_cfg s),
              si_database_generation = dp_generation (sv_deps s),
              si_max_results = cf_max_results (sv_cfg s),
              si_methods = [MethodSystemPing, MethodSystemInfo, MethodListChats, MethodHistory,
                MethodGetMessage, MethodCollect],
              si_contacts_policy = contactsInfo,
              si_collection_protocol =
                (if cf_backend_version (sv_cfg s) = CollectionBackendVersion then CollectionProtocol else [])\<rparr>), w)))"

text \<open>The method switch; the deferred function then replaces the response if the context has ended.
  A panic is not recovered.\<close>

definition handle :: "'w server \<Rightarrow> request \<Rightarrow> 'w \<Rightarrow> reply option \<times> 'w" where
  "handle s req w =
     (if rq_method req = MethodSystemPing then (Some (ping s req), w)
      else if rq_method req = MethodSystemInfo then apfst Some (info s req w)
      else if rq_method req = MethodListChats then apfst Some (listChats s req w)
      else if rq_method req = MethodHistory then apfst Some (history s req w)
      else if rq_method req = MethodGetMessage then apfst Some (getMessage s req w)
      else if rq_method req = MethodCollect then collect s req w
      else (Some (Failure (rq_id req) ''method_not_allowed'' ''method is not exposed by this broker'' False), w))"

definition dispatch :: "'w server \<Rightarrow> request \<Rightarrow> 'w \<Rightarrow> reply option \<times> 'w" where
  "dispatch s req w =
     (case handle s req w of
        (None, w) \<Rightarrow> (None, w)
      | (Some resp, w) \<Rightarrow>
          (case dp_ctx_err (sv_deps s) w of
             (None, w) \<Rightarrow> (Some resp, w)
           | (Some e, w) \<Rightarrow> (Some (backendFailure (rq_id req) [e]), w)))"

end
