(* ===== verification/BrokerSafety.thy ===== *)
theory BrokerSafety
  imports Broker
begin

text \<open>
  What the request handlers promise: which conversations and messages a response can contain, which
  policy decided it, and how the results relate to the rows the backend returned.
\<close>

section \<open>Participants\<close>

lemma valid_participants:
  assumes "d_valid (Authorize po c)"
  shows "d_participants (Authorize po c) \<noteq> []" "distinct (d_participants (Authorize po c))"
    "v \<in> set (d_participants (Authorize po c)) \<Longrightarrow> identity.normal v"
proof -
  from Authorize_valid_cases [OF assms] obtain p where p: "po = Some p"
    "(\<exists>members. group_conversation c members) \<or> (\<exists>x. direct_conversation c x)" by blast
  have "d_participants (Authorize po c) \<noteq> [] \<and> distinct (d_participants (Authorize po c))
      \<and> (v \<in> set (d_participants (Authorize po c)) \<longrightarrow> identity.normal v)" for v
    using p(2)
  proof (elim disjE exE)
    fix members assume g: "group_conversation c members"
    from g obtain raws vs where "map_sum_list NormalizeIdentity raws = Inr vs" "vs \<noteq> []"
      "members = dedup {} vs" by (auto simp: group_conversation_def)
    then show ?thesis
      using identity.normal_map_sum_list
      by (auto simp: p(1) Authorize_group_decision [OF g] dedup_eq_Nil_iff)
  next
    fix x assume d: "direct_conversation c x"
    then have "identity.normal x"
      by (auto simp: direct_conversation_def intro: identity.normal_norm)
    then show ?thesis by (simp add: p(1) Authorize_direct_decision [OF d])
  qed
  then show "d_participants (Authorize po c) \<noteq> []" "distinct (d_participants (Authorize po c))"
    "v \<in> set (d_participants (Authorize po c)) \<Longrightarrow> identity.normal v"
    by blast+
qed

lemma normal_no_nul: "identity.normal v \<Longrightarrow> CHR 0x00 \<notin> set v"
  using NormalizeIdentity_normal [of v v]
  by (fastforce simp: identity.normal_def phone_normal_def email_normal_def ascii_digit_def graphic_def)

text \<open>The comparison of the joined, sorted participants is equality of the two sets.\<close>

lemma joined_participants_iff:
  assumes "d_valid (Authorize po c)" "d_valid (Authorize po' c')"
  shows "join_with [CHR 0x00] (sort (d_participants (Authorize po c)))
       = join_with [CHR 0x00] (sort (d_participants (Authorize po' c')))
     \<longleftrightarrow> set (d_participants (Authorize po c)) = set (d_participants (Authorize po' c'))"
proof -
  note v = valid_participants [OF assms(1)] valid_participants [OF assms(2)]
  have "join_with [CHR 0x00] (sort (d_participants (Authorize po c)))
       = join_with [CHR 0x00] (sort (d_participants (Authorize po' c')))
     \<longleftrightarrow> sort (d_participants (Authorize po c)) = sort (d_participants (Authorize po' c'))"
  proof (rule join_with_eq_iff)
    show "sort (d_participants (Authorize po c)) \<noteq> []" "sort (d_participants (Authorize po' c')) \<noteq> []"
      using v(1,4) by (metis set_empty set_sort)+
  qed (use v normal_no_nul in auto)
  also have "\<dots> \<longleftrightarrow> set (d_participants (Authorize po c)) = set (d_participants (Authorize po' c'))"
    by (rule sort_eq_iff_set [OF v(2,5)])
  finally show ?thesis .
qed

section \<open>What may be shown\<close>

definition visible_chat :: "'w server \<Rightarrow> policy \<Rightarrow> raw_chat \<Rightarrow> bool" where
  "visible_chat s p ch \<longleftrightarrow> matchesAccount s ch \<and> d_allowed (Authorize (Some p) (toConversation ch))"

text \<open>The message row belongs to the conversation: same row, GUID, identifier and kind, and the same set of
  participants.\<close>

definition belongs_to :: "policy \<Rightarrow> raw_message \<Rightarrow> raw_chat \<Rightarrow> bool" where
  "belongs_to p m ch \<longleftrightarrow> rm_chat_id m = rc_id ch \<and> rm_chat_guid m = rc_guid ch
     \<and> rm_chat_identifier m = rc_identifier ch \<and> rm_is_group m = rc_is_group ch
     \<and> d_valid (Authorize (Some p) (toConversation (Conversation m)))
     \<and> set (d_participants (Authorize (Some p) (toConversation (Conversation m))))
         = set (d_participants (Authorize (Some p) (toConversation ch)))"

definition well_formed_message :: "raw_message \<Rightarrow> bool" where
  "well_formed_message m \<longleftrightarrow> rm_id m > 0 \<and> rm_chat_id m > 0 \<and> rm_guid m \<noteq> []
     \<and> length (rm_guid m) \<le> 512 \<and> valid_utf8 (rm_text m) \<and> length (rm_text m) \<le> 65536
     \<and> parse_rfc3339 (rm_created_at m) \<noteq> None"

text \<open>The sender that is shown: nobody for an outgoing message, otherwise a participant.\<close>

definition shown_sender :: "policy \<Rightarrow> raw_chat \<Rightarrow> raw_message \<Rightarrow> bool \<Rightarrow> string \<Rightarrow> bool" where
  "shown_sender p ch m from_me sender \<longleftrightarrow> rm_is_from_me m = Some from_me
     \<and> (if from_me then sender = []
        else NormalizeIdentity (rm_sender m) = Inr sender
          \<and> sender \<in> set (d_participants (Authorize (Some p) (toConversation ch))))"

definition shown :: "'w server \<Rightarrow> policy \<Rightarrow> raw_chat \<Rightarrow> raw_message \<Rightarrow> message \<Rightarrow> bool" where
  "shown s p ch m x \<longleftrightarrow> visible_chat s p ch \<and> belongs_to p m ch \<and> well_formed_message m
     \<and> \<not> Suppress (rm_text m)
     \<and> (\<exists>from_me sender. shown_sender p ch m from_me sender
          \<and> x = \<lparr>ms_account_id = cf_account_id (sv_cfg s),
                 ms_database_generation = dp_generation (sv_deps s), ms_row_id = rm_id m,
                 ms_chat_id = rc_id ch, ms_chat_guid = rc_guid ch, ms_guid = rm_guid m,
                 ms_sender = sender, ms_from_me = from_me, ms_text = rm_text m,
                 ms_created_at = rm_created_at m\<rparr>)"

lemma Authorize_same_kind:
  assumes "d_valid (Authorize (Some p) c)" "d_valid (Authorize (Some p) c')"
    "cv_guid c = cv_guid c'" "cv_identifier c = cv_identifier c'" "cv_is_group c = cv_is_group c'"
  shows "d_is_group (Authorize (Some p) c) = d_is_group (Authorize (Some p) c')"
    "d_allowed (Authorize (Some p) c) = d_allowed (Authorize (Some p) c')"
proof -
  have u: "address = address'" if "native_guid g s1 m1 address" "native_guid g s2 m2 address'"
    "m1 \<in> {''+'', ''-''}" "m2 \<in> {''+'', ''-''}" for g s1 s2 m1 m2 address address'
  proof -
    have "CHR '';'' \<notin> set m1" "CHR '';'' \<notin> set m2" using that(3,4) by auto
    with that(1,2) split_native_guid [of m1 g s1 address] split_native_guid [of m2 g s2 address']
    show ?thesis by simp
  qed
  have kind: "cv_is_group c = Some (d_is_group (Authorize (Some p) c))" if "d_valid (Authorize (Some p) c)" for c
    using Authorize_valid_cases [OF that]
    by (auto simp: Authorize_group_decision Authorize_direct_decision)
      (auto simp: group_conversation_def direct_conversation_def)
  show k: "d_is_group (Authorize (Some p) c) = d_is_group (Authorize (Some p) c')"
    using kind [OF assms(1)] kind [OF assms(2)] assms(5) by simp
  have x: "x = y" if "direct_conversation c x" "direct_conversation c' y" for x y
  proof -
    from that(1) obtain s1 a1 where 1: "native_guid (cv_guid c) s1 ''-'' a1" "NormalizeIdentity a1 = Inr x"
      by (auto simp: direct_conversation_def)
    from that(2) obtain s2 a2 where 2: "native_guid (cv_guid c') s2 ''-'' a2" "NormalizeIdentity a2 = Inr y"
      by (auto simp: direct_conversation_def)
    from u [OF 1(1) 2(1) [folded assms(3)]] 1(2) 2(2) show ?thesis by simp
  qed
  show "d_allowed (Authorize (Some p) c) = d_allowed (Authorize (Some p) c')"
    using Authorize_valid_cases [OF assms(1)] Authorize_valid_cases [OF assms(2)] k assms(3)
    by (auto simp: Authorize_group_decision Authorize_direct_decision dest: x)
qed

lemma valid_is_group: "d_valid (Authorize (Some p) c) \<Longrightarrow> cv_is_group c \<noteq> None"
  by (cases "cv_is_group c") (simp_all add: Authorize_def)

lemma sameConversation_allowed:
  "sameConversation m ch p = Some d \<and> d_allowed d \<longleftrightarrow>
     d_allowed (Authorize (Some p) (toConversation ch)) \<and> belongs_to p m ch
     \<and> d = Authorize (Some p) (toConversation (Conversation m))"
proof -
  let ?m = "toConversation (Conversation m)" and ?c = "toConversation ch"
  let ?meta = "rm_chat_id m = rc_id ch \<and> rm_chat_guid m = rc_guid ch
     \<and> rm_chat_identifier m = rc_identifier ch \<and> rm_is_group m = rc_is_group ch"
  have same: "d_is_group (Authorize (Some p) ?m) = d_is_group (Authorize (Some p) ?c)"
    "d_allowed (Authorize (Some p) ?m) = d_allowed (Authorize (Some p) ?c)"
    if "?meta" "d_valid (Authorize (Some p) ?m)" "d_valid (Authorize (Some p) ?c)"
    using Authorize_same_kind [OF that(2,3)] that(1) by (simp_all add: toConversation_def Conversation_def)
  have g: "rc_is_group ch \<noteq> None" if "d_valid (Authorize (Some p) ?c)"
    using valid_is_group [OF that] by (simp add: toConversation_def)
  show ?thesis
  proof
    assume l: "sameConversation m ch p = Some d \<and> d_allowed d"
    then have "?meta" "d_valid (Authorize (Some p) ?m)" "d_valid (Authorize (Some p) ?c)"
      "d_allowed (Authorize (Some p) ?m) = d_allowed (Authorize (Some p) ?c)"
      "join_with [CHR 0x00] (sort (d_participants (Authorize (Some p) ?m)))
        = join_with [CHR 0x00] (sort (d_participants (Authorize (Some p) ?c)))"
      "d = Authorize (Some p) ?m"
      by (simp_all add: sameConversation_def Let_def split: if_split_asm)
    then show "d_allowed (Authorize (Some p) ?c) \<and> belongs_to p m ch \<and> d = Authorize (Some p) ?m"
      using l by (simp add: belongs_to_def joined_participants_iff)
  next
    assume r: "d_allowed (Authorize (Some p) ?c) \<and> belongs_to p m ch \<and> d = Authorize (Some p) ?m"
    then have v: "d_valid (Authorize (Some p) ?c)" by (simp add: Authorize_allowed_valid)
    with r same g show "sameConversation m ch p = Some d \<and> d_allowed d"
      by (simp add: sameConversation_def belongs_to_def joined_participants_iff)
  qed
qed

lemma message_sender_iff:
  assumes "rm_is_from_me m = Some from_me" "belongs_to p m ch"
  shows "message_sender m from_me (Authorize (Some p) (toConversation (Conversation m))) = Inr sender
     \<longleftrightarrow> shown_sender p ch m from_me sender"
  using assms by (auto simp: message_sender_def shown_sender_def belongs_to_def split: sum.split)

text \<open>\<open>exposeMessage\<close> returns a message exactly for the rows that may be shown.\<close>

lemma exposeMessage_iff: "exposeMessage s m ch p = Inr (Some x) \<longleftrightarrow> shown s p ch m x"
proof
  assume e: "exposeMessage s m ch p = Inr (Some x)"
  then obtain from_me where f: "rm_is_from_me m = Some from_me"
    by (auto simp: exposeMessage_def split: option.split_asm)
  from e have b: "rm_id m > 0" "rm_chat_id m > 0" "rm_guid m \<noteq> []" "length (rm_guid m) \<le> 512"
    "valid_utf8 (rm_text m)" "length (rm_text m) \<le> maxTextBytes" "matchesAccount s ch"
    by (auto simp: exposeMessage_def f split: if_split_asm)
  with e obtain d where d: "sameConversation m ch p = Some d"
    by (auto simp: exposeMessage_def f split: option.split_asm)
  with e b have c: "d_allowed d" "parse_rfc3339 (rm_created_at m) \<noteq> None" "\<not> Suppress (rm_text m)"
    by (auto simp: exposeMessage_def f split: if_split_asm)
  with e b d obtain sender where t: "message_sender m from_me d = Inr sender"
    by (auto simp: exposeMessage_def f split: sum.split_asm)
  from d c(1) have a: "d_allowed (Authorize (Some p) (toConversation ch))" "belongs_to p m ch"
    "d = Authorize (Some p) (toConversation (Conversation m))"
    using sameConversation_allowed [of m ch p d] by auto
  have x: "x = \<lparr>ms_account_id = cf_account_id (sv_cfg s),
                 ms_database_generation = dp_generation (sv_deps s), ms_row_id = rm_id m,
                 ms_chat_id = rc_id ch, ms_chat_guid = rc_guid ch, ms_guid = rm_guid m,
                 ms_sender = sender, ms_from_me = from_me, ms_text = rm_text m,
                 ms_created_at = rm_created_at m\<rparr>"
    using e b d c t a(2) by (simp add: exposeMessage_def f belongs_to_def)
  have "well_formed_message m" using b c(2) by (simp add: well_formed_message_def maxTextBytes_def)
  moreover have "shown_sender p ch m from_me sender"
    using t message_sender_iff [OF f a(2)] by (simp add: a(3))
  ultimately show "shown s p ch m x"
    unfolding shown_def visible_chat_def using a b(7) c(3) x by blast
next
  assume "shown s p ch m x"
  then obtain from_me sender where h: "matchesAccount s ch"
    "d_allowed (Authorize (Some p) (toConversation ch))" "belongs_to p m ch" "well_formed_message m"
    "\<not> Suppress (rm_text m)" "shown_sender p ch m from_me sender"
    and x: "x = \<lparr>ms_account_id = cf_account_id (sv_cfg s),
                 ms_database_generation = dp_generation (sv_deps s), ms_row_id = rm_id m,
                 ms_chat_id = rc_id ch, ms_chat_guid = rc_guid ch, ms_guid = rm_guid m,
                 ms_sender = sender, ms_from_me = from_me, ms_text = rm_text m,
                 ms_created_at = rm_created_at m\<rparr>"
    by (auto simp: shown_def visible_chat_def)
  let ?d = "Authorize (Some p) (toConversation (Conversation m))"
  have f: "rm_is_from_me m = Some from_me" using h(6) by (simp add: shown_sender_def)
  have d: "sameConversation m ch p = Some ?d" "d_allowed ?d"
    using sameConversation_allowed [of m ch p ?d] h(2,3) by auto
  have t: "message_sender m from_me ?d = Inr sender"
    using message_sender_iff [OF f h(3)] h(6) by blast
  show "exposeMessage s m ch p = Inr (Some x)"
    using h d t by (simp add: exposeMessage_def f x well_formed_message_def maxTextBytes_def belongs_to_def)
qed

section \<open>The row loops\<close>

lemma list_rows_spec:
  assumes "length result \<le> nat limit" "0 \<le> limit"
  shows "list_rows s p limit rows result complete =
    (if list_all validChat rows
     then Some (result @ map (\<lambda>ch. exposeChat s ch (Authorize (Some p) (toConversation ch)))
                   (take (nat limit - length result) (filter (visible_chat s p) rows)),
                complete \<and> length result + length (filter (visible_chat s p) rows) \<le> nat limit)
     else None)"
  using assms
proof (induction rows arbitrary: result complete)
  case (Cons row rows)
  show ?case
  proof (cases "validChat row \<and> visible_chat s p row")
    case True
    then have v: "validChat row" "matchesAccount s row" "d_allowed (Authorize (Some p) (toConversation row))"
      by (auto simp: visible_chat_def)
    show ?thesis
    proof (cases "int (length result) = limit")
      case True
      then have "nat limit = length result" by simp
      with True v Cons.IH [OF Cons.prems, of False] \<open>validChat row \<and> visible_chat s p row\<close> show ?thesis
        by simp
    next
      case False
      with Cons.prems have l: "length (result @ [x]) \<le> nat limit" for x by auto
      from False Cons.prems have n: "nat limit - length result = Suc (nat limit - Suc (length result))" by auto
      with False v Cons.IH [OF l Cons.prems(2)] \<open>validChat row \<and> visible_chat s p row\<close> show ?thesis
        by (simp add: Let_def)
    qed
  next
    case False
    then consider "\<not> validChat row" | "validChat row" "\<not> visible_chat s p row" by blast
    then show ?thesis
    proof cases
      case 2
      then have "list_rows s p limit (row # rows) result complete = list_rows s p limit rows result complete"
        by (auto simp: visible_chat_def Let_def)
      with 2 Cons show ?thesis by simp
    qed simp
  qed
qed auto

text \<open>The messages of a history page: the rows that may be shown, in order, if no row is unsafe.\<close>

definition shown_rows :: "'w server \<Rightarrow> policy \<Rightarrow> raw_chat \<Rightarrow> raw_message list \<Rightarrow> message list" where
  "shown_rows s p ch rows = List.map_filter (\<lambda>m. case exposeMessage s m ch p of Inr x \<Rightarrow> x | Inl _ \<Rightarrow> None) rows"

lemma map_filter_Cons:
  "List.map_filter f (x # xs) = (case f x of None \<Rightarrow> List.map_filter f xs | Some y \<Rightarrow> y # List.map_filter f xs)"
  by (simp add: List.map_filter_def split: option.split)

lemma history_rows_spec:
  assumes "length messages \<le> nat limit" "0 \<le> limit"
  shows "history_rows s p ch limit rows messages complete =
    (if list_all (\<lambda>m. is_ok (exposeMessage s m ch p)) rows
     then Some (messages @ take (nat limit - length messages) (shown_rows s p ch rows),
                complete \<and> length messages + length (shown_rows s p ch rows) \<le> nat limit)
     else None)"
  using assms
proof (induction rows arbitrary: messages complete)
  case Nil
  then show ?case by (simp add: shown_rows_def List.map_filter_def)
next
  case (Cons row rows)
  show ?case
  proof (cases "exposeMessage s row ch p")
    case (Inr r)
    show ?thesis
    proof (cases r)
      case None
      with Inr Cons show ?thesis by (simp add: shown_rows_def map_filter_Cons)
    next
      case (Some m)
      show ?thesis
      proof (cases "int (length messages) = limit")
        case True
        then have "nat limit = length messages" by simp
        with True Inr Some Cons.IH [OF Cons.prems, of False] show ?thesis
          by (simp add: shown_rows_def map_filter_Cons)
      next
        case False
        with Cons.prems have l: "length (messages @ [x]) \<le> nat limit" for x by auto
        from False Cons.prems have n: "nat limit - length messages = Suc (nat limit - Suc (length messages))"
          by auto
        with False Inr Some Cons.IH [OF l Cons.prems(2)] show ?thesis
          by (simp add: shown_rows_def map_filter_Cons)
      qed
    qed
  qed simp
qed

lemma shown_rows_shown: "x \<in> set (shown_rows s p ch rows) \<Longrightarrow> \<exists>m \<in> set rows. shown s p ch m x"
  by (auto simp: shown_rows_def map_filter_def exposeMessage_iff [symmetric] split: sum.split_asm)


section \<open>Early returns\<close>

lemma failure_simps [simp]:
  "\<not> rs_ok (Failure i code text retry)" "rs_ok (Success i r)"
  "rs_result (Success i r) = Some r" "rs_result (Failure i code text retry) = None"
  "rs_id (Failure i code text retry) = i" "rs_id (Success i r) = i"
  by (simp_all add: Failure_def Success_def)

lemma backendFailure_fails [simp]: "\<not> rs_ok (backendFailure i e)" "rs_result (backendFailure i e) = None"
  "rs_id (backendFailure i e) = i"
  by (simp_all add: backendFailure_def)

lemma invalidParams_fails [simp]: "\<not> rs_ok (invalidParams i e)" "rs_result (invalidParams i e) = None"
  "rs_id (invalidParams i e) = i"
  by (simp_all add: invalidParams_def)

definition fails :: "(reply + 'a) \<times> 'w \<Rightarrow> bool" where
  "fails r \<longleftrightarrow> (\<forall>f. fst r = Inl f \<longrightarrow> \<not> rs_ok f)"

lemma backend_call_fails: "fails (backend_call i r)"
  by (cases r; cases "fst r") (auto simp: fails_def backend_call_def)

lemma loadPolicy_fails: "fails (loadPolicy s i w)"
  by (auto simp: fails_def loadPolicy_def Let_def split: prod.split option.split sum.split)

lemma authorizedChat_fails: "fails (authorizedChat s i c p w)"
  using backend_call_fails [of i "dp_chat (sv_deps s) c w"]
  by (auto simp: fails_def authorizedChat_def or_return_def not_visible_def Let_def split: prod.split sum.split)

lemma backend_call_Inr: "backend_call i r = (Inr x, w) \<longleftrightarrow> r = (Inr x, w)"
  by (cases r; cases "fst r") (auto simp: backend_call_def)

lemma or_return_ok:
  assumes "or_return id r k = (resp, w')" "rs_ok resp" "fails r"
  obtains x w1 where "r = (Inr x, w1)" "k x w1 = (resp, w')"
  using assms by (cases r; cases "fst r") (auto simp: or_return_def fails_def)

lemma or_return_Some_ok:
  assumes "or_return Some r k = (Some resp, w')" "rs_ok resp" "fails r"
  obtains x w1 where "r = (Inr x, w1)" "k x w1 = (Some resp, w')"
  using assms by (cases r; cases "fst r") (auto simp: or_return_def fails_def)

lemma normalizeLimit_Inr:
  "normalizeLimit r d m = Inr l \<Longrightarrow> 1 \<le> d \<Longrightarrow> 1 \<le> m \<Longrightarrow> 1 \<le> l \<and> l \<le> m"
  by (auto simp: normalizeLimit_def split: if_split_asm)

text \<open>The limit is the one that was asked for, or the default within the maximum when none was.\<close>

lemma normalizeLimit_value:
  "normalizeLimit r d m = Inr l \<Longrightarrow> l = (if r = 0 then min d m else r) \<and> (r \<noteq> 0 \<longrightarrow> 1 \<le> r \<and> r \<le> m)"
  by (auto simp: normalizeLimit_def split: if_split_asm)

lemma verifyGeneration_None: "verifyGeneration s i g = None \<longleftrightarrow> g \<noteq> [] \<and> g = dp_generation (sv_deps s)"
  by (simp add: verifyGeneration_def)

lemma verifyGeneration_Some: "verifyGeneration s i g = Some f \<Longrightarrow> \<not> rs_ok f"
  by (auto simp: verifyGeneration_def split: if_split_asm)

lemma authorizedChat_Inr:
  assumes "authorizedChat s i c p w = (Inr (ch, d), w')"
  shows "0 < c" "dp_chat (sv_deps s) c w = (Inr ch, w')" "validChat ch" "rc_id ch = c" "visible_chat s p ch"
proof -
  from assms have pos: "0 < c" by (simp add: authorizedChat_def split: if_split_asm)
  obtain r w1 where r: "dp_chat (sv_deps s) c w = (r, w1)" by (cases "dp_chat (sv_deps s) c w")
  with assms pos obtain ch1 where "r = Inr ch1"
    by (cases r) (auto simp: authorizedChat_def or_return_def backend_call_def)
  with assms pos r show "0 < c" "dp_chat (sv_deps s) c w = (Inr ch, w')" "validChat ch" "rc_id ch = c"
    "visible_chat s p ch"
    by (auto simp: authorizedChat_def or_return_def backend_call_def visible_chat_def Let_def split: if_split_asm)
qed

section \<open>Listing and history\<close>

definition exposed_chats :: "'w server \<Rightarrow> policy \<Rightarrow> raw_chat list \<Rightarrow> chat list" where
  "exposed_chats s p rows =
     map (\<lambda>ch. exposeChat s ch (Authorize (Some p) (toConversation ch))) (filter (visible_chat s p) rows)"

lemma listChats_ok:
  assumes "1 \<le> cf_max_results (sv_cfg s)" "listChats s req w = (resp, w')" "rs_ok resp"
  obtains params limit rows w1 p where
    "decode_list_chats (rq_params req) = Inr params"
    "normalizeLimit (lc_limit params) 20 (cf_max_results (sv_cfg s)) = Inr limit"
    "1 \<le> limit" "limit \<le> cf_max_results (sv_cfg s)"
    "dp_list_chats (sv_deps s) (cf_max_chat_scan (sv_cfg s)) w = (Inr rows, w1)"
    "loadPolicy s (rq_id req) w1 = (Inr p, w')" "list_all validChat rows"
    "resp = Success (rq_id req) (ListChatsResult \<lparr>lr_chats = take (nat limit) (exposed_chats s p rows),
       lr_scan_complete = (int (length rows) < cf_max_chat_scan (sv_cfg s)
         \<and> length (exposed_chats s p rows) \<le> nat limit)\<rparr>)"
proof -
  from assms(2,3) obtain params where p: "decode_list_chats (rq_params req) = Inr params"
    by (cases "decode_list_chats (rq_params req)") (auto simp: listChats_def)
  with assms(2,3) obtain limit where
    l: "normalizeLimit (lc_limit params) 20 (cf_max_results (sv_cfg s)) = Inr limit"
    by (cases "normalizeLimit (lc_limit params) 20 (cf_max_results (sv_cfg s))") (auto simp: listChats_def)
  note b = normalizeLimit_Inr [OF l _ assms(1)]
  from assms(2) p l have "or_return id (backend_call (rq_id req)
        (dp_list_chats (sv_deps s) (cf_max_chat_scan (sv_cfg s)) w)) (\<lambda>rows w.
      or_return id (loadPolicy s (rq_id req) w) (\<lambda>p w. (list_reply (rq_id req)
        (list_rows s p limit rows [] (int (length rows) < cf_max_chat_scan (sv_cfg s))), w))) = (resp, w')"
    by (simp add: listChats_def Let_def)
  then obtain rows w1 where rows: "dp_list_chats (sv_deps s) (cf_max_chat_scan (sv_cfg s)) w = (Inr rows, w1)"
    and k: "or_return id (loadPolicy s (rq_id req) w1) (\<lambda>p w. (list_reply (rq_id req)
        (list_rows s p limit rows [] (int (length rows) < cf_max_chat_scan (sv_cfg s))), w)) = (resp, w')"
    unfolding backend_call_Inr [symmetric, where i = "rq_id req"]
    by (rule or_return_ok [OF _ assms(3) backend_call_fails])
  from k obtain pol w2 where q: "loadPolicy s (rq_id req) w1 = (Inr pol, w2)"
    "(list_reply (rq_id req) (list_rows s pol limit rows [] (int (length rows) < cf_max_chat_scan (sv_cfg s))), w2)
       = (resp, w')"
    by (rule or_return_ok [OF _ assms(3) loadPolicy_fails]) blast
  have spec: "list_rows s pol limit rows [] (int (length rows) < cf_max_chat_scan (sv_cfg s)) =
      (if list_all validChat rows
       then Some (take (nat limit) (exposed_chats s pol rows),
         int (length rows) < cf_max_chat_scan (sv_cfg s) \<and> length (exposed_chats s pol rows) \<le> nat limit)
       else None)"
    using list_rows_spec [of "[]" limit s pol rows] b by (simp add: exposed_chats_def take_map)
  then have "list_all validChat rows"
    using q(2) assms(3) by (auto simp: list_reply_def split: if_split_asm)
  with spec q(2) have "resp = Success (rq_id req)
      (ListChatsResult \<lparr>lr_chats = take (nat limit) (exposed_chats s pol rows),
       lr_scan_complete = (int (length rows) < cf_max_chat_scan (sv_cfg s)
         \<and> length (exposed_chats s pol rows) \<le> nat limit)\<rparr>)"
    by (simp add: list_reply_def)
  with p l b rows q \<open>list_all validChat rows\<close> show ?thesis
    using that [of params limit rows w1 pol] by simp
qed

lemma history_reply_ok:
  assumes "rs_ok (history_reply s i p ch limit rows)" "1 \<le> limit"
  shows "d_allowed (Authorize (Some p) (toConversation ch))"
    "list_all (\<lambda>m. is_ok (exposeMessage s m ch p)) rows"
    "history_reply s i p ch limit rows = Success i (HistoryResult
       \<lparr>hr_messages = take (nat limit) (shown_rows s p ch rows),
        hr_scan_complete = (int (length rows) < limit \<and> length (shown_rows s p ch rows) \<le> nat limit)\<rparr>)"
proof -
  from assms(1) show a: "d_allowed (Authorize (Some p) (toConversation ch))"
    by (auto simp: history_reply_def not_visible_def split: if_split_asm)
  have spec: "history_rows s p ch limit rows [] c =
    (if list_all (\<lambda>m. is_ok (exposeMessage s m ch p)) rows
     then Some (take (nat limit) (shown_rows s p ch rows), c \<and> length (shown_rows s p ch rows) \<le> nat limit)
     else None)" for c
    using history_rows_spec [of "[]" limit s p ch rows c] assms(2) by simp
  with assms(1) a show l: "list_all (\<lambda>m. is_ok (exposeMessage s m ch p)) rows"
    by (auto simp: history_reply_def unsafe_metadata_def split: if_split_asm)
  with a spec show "history_reply s i p ch limit rows = Success i (HistoryResult
       \<lparr>hr_messages = take (nat limit) (shown_rows s p ch rows),
        hr_scan_complete = (int (length rows) < limit \<and> length (shown_rows s p ch rows) \<le> nat limit)\<rparr>)"
    by (simp add: history_reply_def)
qed

text \<open>The steps \<open>history\<close> and \<open>getMessage\<close> share: policy, conversation, messages, and the policy again.\<close>

lemma read_conversation_ok:
  assumes "or_return id (loadPolicy s i w) (\<lambda>p w.
      or_return id (authorizedChat s i c p w) (\<lambda>(ch, _) w.
      or_return id (backend_call i (dp_history (sv_deps s) c n w)) (\<lambda>rows w.
      or_return id (loadPolicy s i w) (\<lambda>p w. (k p ch rows, w))))) = (resp, w')"
    "rs_ok resp"
  obtains p0 w1 ch w2 rows w3 p where
    "loadPolicy s i w = (Inr p0, w1)" "dp_chat (sv_deps s) c w1 = (Inr ch, w2)"
    "validChat ch" "rc_id ch = c" "visible_chat s p0 ch"
    "dp_history (sv_deps s) c n w2 = (Inr rows, w3)" "loadPolicy s i w3 = (Inr p, w')" "resp = k p ch rows"
proof -
  from assms(1) obtain p0 w1 where 1: "loadPolicy s i w = (Inr p0, w1)"
    "or_return id (authorizedChat s i c p0 w1) (\<lambda>(ch, _) w.
      or_return id (backend_call i (dp_history (sv_deps s) c n w)) (\<lambda>rows w.
      or_return id (loadPolicy s i w) (\<lambda>p w. (k p ch rows, w)))) = (resp, w')"
    by (rule or_return_ok [OF _ assms(2) loadPolicy_fails])
  from 1(2) obtain chd w2 where 2: "authorizedChat s i c p0 w1 = (Inr chd, w2)"
    "(case chd of (ch, _) \<Rightarrow> \<lambda>w. or_return id (backend_call i (dp_history (sv_deps s) c n w)) (\<lambda>rows w.
      or_return id (loadPolicy s i w) (\<lambda>p w. (k p ch rows, w)))) w2 = (resp, w')"
    by (rule or_return_ok [OF _ assms(2) authorizedChat_fails])
  obtain ch d where chd: "chd = (ch, d)" by (cases chd)
  from 2(2) obtain rows w3 where 3: "dp_history (sv_deps s) c n w2 = (Inr rows, w3)"
    "or_return id (loadPolicy s i w3) (\<lambda>p w. (k p ch rows, w)) = (resp, w')"
    unfolding chd prod.case backend_call_Inr [symmetric, where i = i]
    by (rule or_return_ok [OF _ assms(2) backend_call_fails])
  from 3(2) obtain p w4 where 4: "loadPolicy s i w3 = (Inr p, w4)" "(k p ch rows, w4) = (resp, w')"
    by (rule or_return_ok [OF _ assms(2) loadPolicy_fails])
  show ?thesis
    by (rule that [OF 1(1) authorizedChat_Inr(2-5) [OF 2(1) [unfolded chd]] 3(1)]) (use 4 in auto)
qed

lemma history_ok:
  assumes "1 \<le> cf_max_results (sv_cfg s)" "history s req w = (resp, w')" "rs_ok resp"
  obtains params limit p0 w1 ch w2 rows w3 p where
    "decode_generation (rq_params req) = Inr params"
    "gp_database_generation params = dp_generation (sv_deps s)"
    "normalizeLimit (gp_limit params) 50 (cf_max_results (sv_cfg s)) = Inr limit"
    "1 \<le> limit" "limit \<le> cf_max_results (sv_cfg s)"
    "loadPolicy s (rq_id req) w = (Inr p0, w1)"
    "dp_chat (sv_deps s) (gp_chat_id params) w1 = (Inr ch, w2)"
    "validChat ch" "rc_id ch = gp_chat_id params" "visible_chat s p0 ch"
    "dp_history (sv_deps s) (gp_chat_id params) limit w2 = (Inr rows, w3)"
    "loadPolicy s (rq_id req) w3 = (Inr p, w')" "visible_chat s p ch"
    "list_all (\<lambda>m. is_ok (exposeMessage s m ch p)) rows"
    "resp = Success (rq_id req) (HistoryResult
       \<lparr>hr_messages = take (nat limit) (shown_rows s p ch rows),
        hr_scan_complete = (int (length rows) < limit \<and> length (shown_rows s p ch rows) \<le> nat limit)\<rparr>)"
proof -
  from assms(2,3) obtain params where p: "decode_generation (rq_params req) = Inr params"
    by (cases "decode_generation (rq_params req)") (auto simp: history_def)
  with assms(2,3) have g: "verifyGeneration s (rq_id req) (gp_database_generation params) = None"
    by (cases "verifyGeneration s (rq_id req) (gp_database_generation params)")
      (auto simp: history_def dest: verifyGeneration_Some)
  with p assms(2,3) obtain limit where
    l: "normalizeLimit (gp_limit params) 50 (cf_max_results (sv_cfg s)) = Inr limit"
    by (cases "normalizeLimit (gp_limit params) 50 (cf_max_results (sv_cfg s))") (auto simp: history_def)
  note b = normalizeLimit_Inr [OF l _ assms(1)]
  from assms(2) p g l have h: "or_return id (loadPolicy s (rq_id req) w) (\<lambda>p w.
      or_return id (authorizedChat s (rq_id req) (gp_chat_id params) p w) (\<lambda>(ch, _) w.
      or_return id (backend_call (rq_id req) (dp_history (sv_deps s) (gp_chat_id params) limit w)) (\<lambda>rows w.
      or_return id (loadPolicy s (rq_id req) w) (\<lambda>p w.
        (history_reply s (rq_id req) p ch limit rows, w))))) = (resp, w')"
    by (simp add: history_def Let_def)
  obtain p0 w1 ch w2 rows w3 pol where r:
    "loadPolicy s (rq_id req) w = (Inr p0, w1)" "dp_chat (sv_deps s) (gp_chat_id params) w1 = (Inr ch, w2)"
    "validChat ch" "rc_id ch = gp_chat_id params" "visible_chat s p0 ch"
    "dp_history (sv_deps s) (gp_chat_id params) limit w2 = (Inr rows, w3)"
    "loadPolicy s (rq_id req) w3 = (Inr pol, w')" "resp = history_reply s (rq_id req) pol ch limit rows"
    by (rule read_conversation_ok [where k = "\<lambda>p ch rows. history_reply s (rq_id req) p ch limit rows", OF h assms(3)])
  from b have lim: "1 \<le> limit" "limit \<le> cf_max_results (sv_cfg s)" by simp_all
  note hr = history_reply_ok [OF assms(3) [unfolded r(8)] lim(1)]
  have "visible_chat s pol ch" using hr(1) r(5) by (simp add: visible_chat_def)
  moreover have "gp_database_generation params = dp_generation (sv_deps s)"
    using g by (simp add: verifyGeneration_None)
  ultimately show ?thesis
    using that [OF p _ l lim r(1-7) _ hr(2)] hr(3) r(8) by simp
qed


lemma find_message_spec:
  "find_message s i p ch guid rows =
     map_option (\<lambda>m. case exposeMessage s m ch p of
          Inl e \<Rightarrow> unsafe_metadata i
        | Inr None \<Rightarrow> Failure i ''not_visible'' ''message is not visible'' False
        | Inr (Some m) \<Rightarrow> Success i (GetMessageResult \<lparr>gr_message = m\<rparr>))
       (find (\<lambda>m. rm_guid m = guid) rows)"
  by (induction rows) auto

lemma getMessage_ok:
  assumes "getMessage s req w = (resp, w')" "rs_ok resp"
  obtains params p0 w1 ch w2 rows w3 p m x where
    "decode_get_message (rq_params req) = Inr params"
    "gm_database_generation params = dp_generation (sv_deps s)"
    "loadPolicy s (rq_id req) w = (Inr p0, w1)"
    "dp_chat (sv_deps s) (gm_chat_id params) w1 = (Inr ch, w2)"
    "validChat ch" "rc_id ch = gm_chat_id params" "visible_chat s p0 ch"
    "dp_history (sv_deps s) (gm_chat_id params) (cf_max_message_scan (sv_cfg s)) w2 = (Inr rows, w3)"
    "loadPolicy s (rq_id req) w3 = (Inr p, w')" "find (\<lambda>m. rm_guid m = gm_guid params) rows = Some m"
    "shown s p ch m x" "resp = Success (rq_id req) (GetMessageResult \<lparr>gr_message = x\<rparr>)"
proof -
  from assms obtain params where p: "decode_get_message (rq_params req) = Inr params"
    by (cases "decode_get_message (rq_params req)") (auto simp: getMessage_def)
  with assms have g: "verifyGeneration s (rq_id req) (gm_database_generation params) = None"
    by (cases "verifyGeneration s (rq_id req) (gm_database_generation params)")
      (auto simp: getMessage_def dest: verifyGeneration_Some)
  with p assms have l: "\<not> (trim_space (gm_guid params) = [] \<or> length (gm_guid params) > 512)"
    by (auto simp: getMessage_def Let_def split: if_split_asm)
  from assms(1) p g l have h: "or_return id (loadPolicy s (rq_id req) w) (\<lambda>p w.
      or_return id (authorizedChat s (rq_id req) (gm_chat_id params) p w) (\<lambda>(ch, _) w.
      or_return id (backend_call (rq_id req) (dp_history (sv_deps s) (gm_chat_id params)
        (cf_max_message_scan (sv_cfg s)) w)) (\<lambda>rows w.
      or_return id (loadPolicy s (rq_id req) w) (\<lambda>p w.
        (message_reply s (rq_id req) p ch (gm_guid params) rows, w))))) = (resp, w')"
    by (simp add: getMessage_def Let_def)
  obtain p0 w1 ch w2 rows w3 pol where r:
    "loadPolicy s (rq_id req) w = (Inr p0, w1)" "dp_chat (sv_deps s) (gm_chat_id params) w1 = (Inr ch, w2)"
    "validChat ch" "rc_id ch = gm_chat_id params" "visible_chat s p0 ch"
    "dp_history (sv_deps s) (gm_chat_id params) (cf_max_message_scan (sv_cfg s)) w2 = (Inr rows, w3)"
    "loadPolicy s (rq_id req) w3 = (Inr pol, w')"
    "resp = message_reply s (rq_id req) pol ch (gm_guid params) rows"
    by (rule read_conversation_ok [where k = "\<lambda>p ch rows. message_reply s (rq_id req) p ch (gm_guid params) rows",
        OF h assms(2)])
  from assms(2) [unfolded r(8)] obtain m x where m: "find (\<lambda>m. rm_guid m = gm_guid params) rows = Some m"
    "exposeMessage s m ch pol = Inr (Some x)"
    by (auto simp: message_reply_def find_message_spec not_visible_def unsafe_metadata_def
        split: if_split_asm option.split_asm sum.split_asm)
  have "resp = Success (rq_id req) (GetMessageResult \<lparr>gr_message = x\<rparr>)"
    using m assms(2) [unfolded r(8)]
    by (simp add: r(8) message_reply_def find_message_spec not_visible_def split: if_split_asm)
  with g show ?thesis
    by (intro that [OF p _ r(1-7) m(1) m(2) [unfolded exposeMessage_iff]]) (simp_all add: verifyGeneration_None)
qed

section \<open>Collection\<close>

definition row_message :: "'w server \<Rightarrow> policy \<Rightarrow> collection_row \<Rightarrow> message option" where
  "row_message s p row = (case (cw_message row, cw_chat row) of
       (Some m, Some ch) \<Rightarrow>
         if validChat ch then (case exposeMessage s m ch p of Inr x \<Rightarrow> x | Inl _ \<Rightarrow> None) else None
     | _ \<Rightarrow> None)"

definition page_messages :: "'w server \<Rightarrow> policy \<Rightarrow> collection_row list \<Rightarrow> message list" where
  "page_messages s p rows = List.map_filter (row_message s p) rows"

lemma page_messages_simps [simp]:
  "page_messages s p [] = []"
  "page_messages s p (row # rows) = (case row_message s p row of
     None \<Rightarrow> page_messages s p rows | Some x \<Rightarrow> x # page_messages s p rows)"
  unfolding page_messages_def by (simp add: List.map_filter_def, rule map_filter_Cons)

lemma row_message_shown:
  assumes "row_message s p row = Some x"
  obtains m ch where "cw_message row = Some m" "cw_chat row = Some ch" "validChat ch" "shown s p ch m x"
  using assms
  by (auto simp: row_message_def exposeMessage_iff [symmetric]
      split: option.split_asm if_split_asm sum.split_asm)

lemma collect_rows_spec:
  "list_all coherent_row rows \<Longrightarrow> collect_rows s p rows messages = Some (messages @ page_messages s p rows)"
proof (induction rows arbitrary: messages)
  case (Cons row rows)
  then have c: "coherent_row row" and IH: "\<And>ms. collect_rows s p rows ms = Some (ms @ page_messages s p rows)"
    by auto
  show ?case
  proof (cases "cw_message row")
    case None
    then show ?thesis by (simp add: IH row_message_def)
  next
    case (Some m)
    with c obtain ch where "cw_chat row = Some ch"
      by (auto simp: coherent_row_def split: option.split_asm)
    with Some show ?thesis
      by (simp add: IH row_message_def split: sum.split option.split)
  qed
qed simp

lemma page_messages_shown:
  assumes "x \<in> set (page_messages s p rows)"
  obtains row m ch where "row \<in> set rows" "cw_message row = Some m" "cw_chat row = Some ch" "validChat ch"
    "shown s p ch m x"
proof -
  from assms obtain row where "row \<in> set rows" "row_message s p row = Some x"
    by (auto simp: page_messages_def map_filter_def)
  then show ?thesis by (auto elim: row_message_shown intro: that)
qed

lemma page_messages_sorted:
  assumes "sorted_wrt (<) (map cw_row_id rows)" "list_all coherent_row rows"
  shows "sorted_wrt (<) (map ms_row_id (page_messages s p rows))
    \<and> ms_row_id ` set (page_messages s p rows) \<subseteq> cw_row_id ` set rows"
  using assms
proof (induction rows)
  case (Cons row rows)
  then have IH: "sorted_wrt (<) (map ms_row_id (page_messages s p rows))"
    "ms_row_id ` set (page_messages s p rows) \<subseteq> cw_row_id ` set rows"
    and c: "coherent_row row" and l: "\<forall>r \<in> set rows. cw_row_id row < cw_row_id r" by auto
  show ?case
  proof (cases "row_message s p row")
    case None
    with IH show ?thesis by auto
  next
    case (Some x)
    then obtain m ch where "cw_message row = Some m" "cw_chat row = Some ch" "shown s p ch m x"
      by (rule row_message_shown)
    with c have "ms_row_id x = cw_row_id row" by (auto simp: coherent_row_def shown_def)
    with Some IH l show ?thesis by fastforce
  qed
qed simp

lemma page_ok_coherent: "page_ok page after through limit \<Longrightarrow> list_all coherent_row (pg_rows page)"
  by (auto simp: page_ok_def list_all_iff)

abbreviation from_through :: "cursor \<Rightarrow> int64" where
  "from_through c \<equiv> if cu_complete c then 0 else cu_through_row_id c"

abbreviation from_not_before :: "cursor \<Rightarrow> string" where
  "from_not_before c \<equiv> if cu_complete c then [] else cu_not_before c"

lemma collect_from_ok:
  assumes "collect_from s i limit c w = (Some resp, w')" "rs_ok resp"
  obtains page w1 p w2 nonce where
    "dp_collect (sv_deps s) (cu_row_id c) (from_through c)
       (min limit (cf_max_collection_scan (sv_cfg s))) (from_not_before c) w = (Inr page, w1)"
    "page_ok page (cu_row_id c) (from_through c) (min limit (cf_max_collection_scan (sv_cfg s)))"
    "loadPolicy s i w1 = (Inr p, w2)" "dp_nonce (sv_deps s) w2 = (nonce, w')"
    "resp = Success i (CollectResult \<lparr>cr_messages = page_messages s p (pg_rows page),
       cr_cursor = encodeCursor (sv_cipher s) (cf_instance (sv_cfg s)) nonce (next_cursor c page),
       cr_more = (\<not> pg_complete page), cr_range_complete = pg_complete page\<rparr>)"
proof -
  let ?n = "min limit (cf_max_collection_scan (sv_cfg s))"
  from assms(1) have "or_return Some (backend_call i
       (dp_collect (sv_deps s) (cu_row_id c) (from_through c) ?n (from_not_before c) w)) (\<lambda>page w.
        if \<not> ValidateCollectionPage page (cu_row_id c) (from_through c) ?n
        then (Some (Failure i ''backend_invalid'' ''backend returned an invalid collection checkpoint'' False), w)
        else or_return Some (loadPolicy s i w) (\<lambda>p w.
            case collect_rows s p (pg_rows page) [] of
              None \<Rightarrow> (None, w)
            | Some messages \<Rightarrow> collect_success s i c page messages w)) = (Some resp, w')"
    by (simp only: collect_from_def Let_def)
  then obtain page w1 where
    1: "dp_collect (sv_deps s) (cu_row_id c) (from_through c) ?n (from_not_before c) w = (Inr page, w1)"
    and 2: "(if \<not> ValidateCollectionPage page (cu_row_id c) (from_through c) ?n
        then (Some (Failure i ''backend_invalid'' ''backend returned an invalid collection checkpoint'' False), w1)
        else or_return Some (loadPolicy s i w1) (\<lambda>p w.
            case collect_rows s p (pg_rows page) [] of
              None \<Rightarrow> (None, w)
            | Some messages \<Rightarrow> collect_success s i c page messages w)) = (Some resp, w')"
    unfolding backend_call_Inr [symmetric, where i = i]
    by (rule or_return_Some_ok [OF _ assms(2) backend_call_fails])
  from 2 assms(2) have v: "ValidateCollectionPage page (cu_row_id c) (from_through c) ?n"
    by (auto split: if_split_asm)
  then have ok: "page_ok page (cu_row_id c) (from_through c) ?n" by (simp only: ValidateCollectionPage_iff)
  from 2 v have "or_return Some (loadPolicy s i w1) (\<lambda>p w.
            case collect_rows s p (pg_rows page) [] of
              None \<Rightarrow> (None, w)
            | Some messages \<Rightarrow> collect_success s i c page messages w) = (Some resp, w')"
    by (simp only: not_True_eq_False if_False)
  then obtain p w2 where 3: "loadPolicy s i w1 = (Inr p, w2)"
    "(case collect_rows s p (pg_rows page) [] of
              None \<Rightarrow> (None, w2)
            | Some messages \<Rightarrow> collect_success s i c page messages w2) = (Some resp, w')"
    by (rule or_return_Some_ok [OF _ assms(2) loadPolicy_fails])
  obtain nonce w3 where n: "dp_nonce (sv_deps s) w2 = (nonce, w3)" by (cases "dp_nonce (sv_deps s) w2")
  from 3(2) n show ?thesis
    by (intro that [OF 1 ok 3(1)]) (auto simp: collect_rows_spec [OF page_ok_coherent [OF ok]] collect_success_def)
qed

lemma collect_ok:
  assumes "1 \<le> cf_max_results (sv_cfg s)" "collect s req w = (Some resp, w')" "rs_ok resp"
  obtains params limit c p0 w1 where
    "decode_collect (rq_params req) = Inr params"
    "normalizeLimit (cp_limit params) 50 (cf_max_results (sv_cfg s)) = Inr limit"
    "1 \<le> limit" "limit \<le> cf_max_results (sv_cfg s)" "request_cursor s params = Inr c"
    "cu_account_id c = cf_account_id (sv_cfg s)" "cu_generation c = dp_generation (sv_deps s)"
    "loadPolicy s (rq_id req) w = (Inr p0, w1)" "collect_from s (rq_id req) limit c w1 = (Some resp, w')"
proof -
  from assms(2,3) obtain params where p: "decode_collect (rq_params req) = Inr params"
    by (cases "decode_collect (rq_params req)") (auto simp: collect_def)
  with assms(2,3) obtain limit where
    l: "normalizeLimit (cp_limit params) 50 (cf_max_results (sv_cfg s)) = Inr limit"
    by (cases "normalizeLimit (cp_limit params) 50 (cf_max_results (sv_cfg s))") (auto simp: collect_def)
  with p assms(2,3) obtain c where c: "request_cursor s params = Inr c"
    by (cases "request_cursor s params") (auto simp: collect_def)
  with p l assms(2,3) have a: "cu_account_id c = cf_account_id (sv_cfg s)"
    "cu_generation c = dp_generation (sv_deps s)"
    by (auto simp: collect_def Let_def split: if_split_asm)
  with p l c assms(2) have
    "or_return Some (loadPolicy s (rq_id req) w) (\<lambda>_ w. collect_from s (rq_id req) limit c w) = (Some resp, w')"
    by (simp add: collect_def Let_def)
  then obtain p0 w1 where "loadPolicy s (rq_id req) w = (Inr p0, w1)"
    "collect_from s (rq_id req) limit c w1 = (Some resp, w')"
    by (rule or_return_Some_ok [OF _ assms(3) loadPolicy_fails])
  with p l c a normalizeLimit_Inr [OF l _ assms(1)] show ?thesis by (intro that) simp_all
qed

text \<open>No handler panics: a page that passed validation never has a message without its conversation.\<close>

lemma or_return_Some_total: "(\<And>x w. fst (k x w) \<noteq> None) \<Longrightarrow> fst (or_return Some r k) \<noteq> None"
  by (cases r; cases "fst r") (auto simp: or_return_def)

lemma collect_from_total: "fst (collect_from s i limit c w) \<noteq> None"
proof -
  have r: "fst (or_return Some (loadPolicy s i w) (\<lambda>p w.
          case collect_rows s p (pg_rows page) [] of
            None \<Rightarrow> (None, w) | Some messages \<Rightarrow> collect_success s i c page messages w)) \<noteq> None"
    if "ValidateCollectionPage page after through n" for page w after through n
    by (intro or_return_Some_total)
      (simp add: collect_rows_spec [OF page_ok_coherent [OF that [unfolded ValidateCollectionPage_iff]]]
        collect_success_def split: prod.split)
  show ?thesis
    unfolding collect_from_def Let_def by (intro or_return_Some_total) (simp add: r del: not_None_eq)
qed

lemma collect_total: "fst (collect s req w) \<noteq> None"
proof -
  have "fst (or_return Some (loadPolicy s i w) (\<lambda>_ w. collect_from s i limit c w)) \<noteq> None" for i limit c
    by (intro or_return_Some_total collect_from_total)
  then show ?thesis by (auto simp: collect_def Let_def split: sum.split)
qed


section \<open>Envelopes\<close>

definition broker_codes :: "string list" where
  "broker_codes = [''invalid_params'', ''policy_unavailable'', ''stale_generation'', ''backend_invalid'',
     ''not_visible'', ''lookup_incomplete'', ''not_found'', ''stale_cursor'', ''method_not_allowed'',
     ''collection_unsupported'', ''backend_timeout'', ''collection_overflow'', ''backend_unavailable'']"

definition well_formed_reply :: "string \<Rightarrow> reply \<Rightarrow> bool" where
  "well_formed_reply i resp \<longleftrightarrow> rs_v resp = Version1 \<and> rs_id resp = i
     \<and> (if rs_ok resp then rs_result resp \<noteq> None \<and> rs_error resp = None
        else rs_result resp = None
          \<and> (\<exists>e. rs_error resp = Some e \<and> eb_code e \<in> set broker_codes
               \<and> (eb_retryable e \<longleftrightarrow> eb_code e \<in> {''backend_timeout'', ''backend_unavailable''})))"

lemma well_formed_Success [simp]: "well_formed_reply i (Success i r)"
  by (simp add: well_formed_reply_def Success_def)

lemma well_formed_Failure:
  "well_formed_reply i (Failure i code text retry) \<longleftrightarrow> code \<in> set broker_codes
     \<and> (retry \<longleftrightarrow> code \<in> {''backend_timeout'', ''backend_unavailable''})"
  by (simp add: well_formed_reply_def Failure_def)

lemma well_formed_replies [simp]:
  "well_formed_reply i (invalidParams i err)" "well_formed_reply i (not_visible i)"
  "well_formed_reply i (unsafe_metadata i)" "well_formed_reply i (backendFailure i e)"
  by (auto simp: well_formed_Failure invalidParams_def not_visible_def unsafe_metadata_def
      backendFailure_def broker_codes_def)

lemma or_return_well_formed:
  assumes "\<And>f. fst r = Inl f \<Longrightarrow> well_formed_reply i f" "\<And>x w. well_formed_reply i (fst (k x w))"
  shows "well_formed_reply i (fst (or_return id r k))"
  using assms by (cases r; cases "fst r") (auto simp: or_return_def)

lemma or_return_Some_well_formed:
  assumes "\<And>f. fst r = Inl f \<Longrightarrow> well_formed_reply i f"
    "\<And>x w resp. fst (k x w) = Some resp \<Longrightarrow> well_formed_reply i resp"
    "fst (or_return Some r k) = Some resp"
  shows "well_formed_reply i resp"
  using assms by (cases r; cases "fst r") (auto simp: or_return_def)

lemma backend_call_well_formed: "fst (backend_call i r) = Inl f \<Longrightarrow> well_formed_reply i f"
  by (cases r; cases "fst r") (auto simp: backend_call_def)

lemma loadPolicy_well_formed: "fst (loadPolicy s i w) = Inl f \<Longrightarrow> well_formed_reply i f"
  by (auto simp: loadPolicy_def Let_def well_formed_Failure broker_codes_def
      split: prod.split_asm option.split_asm sum.split_asm if_split_asm)

lemma authorizedChat_well_formed: "fst (authorizedChat s i c p w) = Inl f \<Longrightarrow> well_formed_reply i f"
  by (cases "dp_chat (sv_deps s) c w"; cases "fst (dp_chat (sv_deps s) c w)")
    (auto simp: authorizedChat_def or_return_def backend_call_def Let_def well_formed_Failure broker_codes_def
      split: if_split_asm)

lemma verifyGeneration_well_formed: "verifyGeneration s i g = Some f \<Longrightarrow> well_formed_reply i f"
  by (auto simp: verifyGeneration_def well_formed_Failure broker_codes_def split: if_split_asm)

lemmas well_formed_intros =
  or_return_well_formed backend_call_well_formed loadPolicy_well_formed authorizedChat_well_formed

lemma listChats_well_formed: "well_formed_reply (rq_id req) (fst (listChats s req w))"
proof -
  have "well_formed_reply i (list_reply i r)" for i r
    by (auto simp: list_reply_def well_formed_Failure broker_codes_def split: option.split)
  then show ?thesis
    by (auto simp: listChats_def Let_def split: sum.split
        intro!: or_return_well_formed intro: backend_call_well_formed loadPolicy_well_formed)
qed

lemma read_conversation_well_formed:
  assumes "\<And>p ch rows. well_formed_reply i (k p ch rows)"
  shows "well_formed_reply i (fst (or_return id (loadPolicy s i w) (\<lambda>p w.
      or_return id (authorizedChat s i c p w) (\<lambda>(ch, _) w.
      or_return id (backend_call i (dp_history (sv_deps s) c n w)) (\<lambda>rows w.
      or_return id (loadPolicy s i w) (\<lambda>p w. (k p ch rows, w)))))))"
  using assms
  by (auto intro!: or_return_well_formed
      intro: backend_call_well_formed loadPolicy_well_formed authorizedChat_well_formed)

lemma history_well_formed: "well_formed_reply (rq_id req) (fst (history s req w))"
proof -
  have "well_formed_reply i (history_reply s i p ch limit rows)" for i p ch limit rows
    by (simp add: history_reply_def split: option.split)
  then show ?thesis
    using read_conversation_well_formed [of "rq_id req" "\<lambda>p ch rows. history_reply s (rq_id req) p ch limit rows" for limit]
    by (auto simp: history_def Let_def dest: verifyGeneration_well_formed split: sum.split option.split)
qed

lemma getMessage_well_formed: "well_formed_reply (rq_id req) (fst (getMessage s req w))"
proof -
  have "well_formed_reply i (message_reply s i p ch guid rows)" for i p ch guid rows
    by (auto simp: message_reply_def find_message_spec well_formed_Failure broker_codes_def
        split: option.split sum.split)
  then show ?thesis
    using read_conversation_well_formed [of "rq_id req" "\<lambda>p ch rows. message_reply s (rq_id req) p ch guid rows" for guid]
    by (auto simp: getMessage_def Let_def dest: verifyGeneration_well_formed split: sum.split option.split)
qed

lemma collect_page_well_formed:
  "fst (or_return Some (loadPolicy s i w) (\<lambda>p w. case collect_rows s p rows [] of
      None \<Rightarrow> (None, w) | Some messages \<Rightarrow> collect_success s i c page messages w)) = Some resp
    \<Longrightarrow> well_formed_reply i resp"
  by (erule or_return_Some_well_formed [rotated 2])
    (auto simp: collect_success_def split: option.split_asm prod.split_asm dest: loadPolicy_well_formed)

lemma collect_from_well_formed: "fst (collect_from s i limit c w) = Some resp \<Longrightarrow> well_formed_reply i resp"
  unfolding collect_from_def Let_def
  by (erule or_return_Some_well_formed [rotated 2])
    (auto simp: well_formed_Failure broker_codes_def
      split: if_split_asm dest: backend_call_well_formed collect_page_well_formed)

lemma collect_well_formed: "fst (collect s req w) = Some resp \<Longrightarrow> well_formed_reply (rq_id req) resp"
  by (auto simp: collect_def Let_def well_formed_Failure broker_codes_def split: if_split_asm sum.split_asm
      dest: loadPolicy_well_formed collect_from_well_formed
      elim: or_return_Some_well_formed [rotated 2])


lemma ping_well_formed: "well_formed_reply (rq_id req) (ping s req)"
  by (simp add: ping_def split: sum.split)

lemma info_well_formed: "well_formed_reply (rq_id req) (fst (info s req w))"
  by (simp add: info_def Let_def split: sum.split prod.split)

lemma handle_well_formed: "fst (handle s req w) = Some resp \<Longrightarrow> well_formed_reply (rq_id req) resp"
  using collect_well_formed [of s req w resp]
  by (auto simp: handle_def ping_well_formed info_well_formed listChats_well_formed history_well_formed
      getMessage_well_formed well_formed_Failure broker_codes_def split: if_split_asm)

lemma handle_total: "fst (handle s req w) \<noteq> None"
  by (simp add: handle_def collect_total del: not_None_eq)

section \<open>A small broker\<close>

text \<open>One group conversation with one message, for evaluations; its world is the state of the policy file:
  a list of the policies its next loads will find.\<close>

definition example_policy :: policy where
  "example_policy = \<lparr>owners = {''+442079460018''}, direct = {}, excluded = {}\<rparr>"

definition revoking_policy :: policy where
  "revoking_policy = \<lparr>owners = {''+442079460018''}, direct = {}, excluded = {''iMessage;+;c1''}\<rparr>"

definition example_chat :: raw_chat where
  "example_chat = \<lparr>rc_id = 1, rc_identifier = ''c1'', rc_guid = ''iMessage;+;c1'', rc_service = ''iMessage'',
     rc_account_id = Some ''b'', rc_is_group = Some True, rc_participants = Some [''+14155550100'']\<rparr>"

definition example_message :: raw_message where
  "example_message = \<lparr>rm_id = 7, rm_chat_id = 1, rm_guid = ''m7'', rm_sender = ''+14155550100'',
     rm_is_from_me = Some False, rm_text = ''hi'', rm_created_at = ''2026-01-02T03:04:05Z'',
     rm_chat_identifier = ''c1'', rm_chat_guid = ''iMessage;+;c1'', rm_is_group = Some True,
     rm_participants = Some [''+14155550100'']\<rparr>"

definition example_page :: collection_page where
  "example_page = \<lparr>pg_rows = [\<lparr>cw_row_id = 7, cw_message = Some example_message, cw_chat = Some example_chat\<rparr>],
     pg_through = 9, pg_scanned = 9, pg_complete = True\<rparr>"

definition example_deps :: "policy list deps" where
  "example_deps = \<lparr>dp_generation = ''g1'', dp_list_chats = \<lambda>n w. (Inr [example_chat], w),
     dp_chat = \<lambda>c w. (Inr example_chat, w), dp_history = \<lambda>c n w. (Inr [example_message], w),
     dp_collect = \<lambda>after through n nb w. (Inr example_page, w),
     dp_load_policy = \<lambda>path w. (case w of [] \<Rightarrow> (None, []) | p # ps \<Rightarrow> (Some p, ps)),
     dp_contacts_get = \<lambda>w. (None, w),
     dp_contacts_status = \<lambda>w. (\<lparr>ci_state = [], ci_last_attempt_at = [], ci_last_success_at = [],
       ci_expires_at = [], ci_last_error_code = []\<rparr>, w),
     dp_nonce = \<lambda>w. ([], w), dp_ctx_err = \<lambda>w. (None, w), dp_json_error = \<lambda>raw. ''invalid JSON''\<rparr>"

definition example_server :: "policy list server" where
  "example_server = \<lparr>sv_cfg = example_config, sv_deps = example_deps, sv_cipher = plain_aead\<rparr>"

lemma example_authorized:
  "Authorize (Some p) (toConversation example_chat) = \<lparr>d_valid = True,
     d_allowed = (''iMessage;+;c1'' \<notin> excluded p), d_is_group = True, d_participants = [''+14155550100'']\<rparr>"
proof -
  have "group_conversation (toConversation example_chat) [''+14155550100'']"
    unfolding group_conversation_def
    by (intro exI [of _ "''iMessage''"] exI [of _ "''c1''"] exI [of _ "[''+14155550100'']"])
      (simp add: toConversation_def example_chat_def native_guid_def phone_examples names_conversation_def)
  from Authorize_group_decision [OF this] show ?thesis
    by (simp add: toConversation_def example_chat_def)
qed

lemma example_message_conversation: "toConversation (Conversation example_message) = toConversation example_chat"
  by (simp add: toConversation_def Conversation_def example_message_def example_chat_def)

lemma hi_passes: "\<not> Suppress ''hi''"
proof
  assume "Suppress ''hi''"
  note m = Suppress_mentions [OF this]
  have "\<not> list_ex (\<lambda>w. contains (map byte w) (map fold_rune (runes ''hi''))) secret_words"
    by code_simp
  from this m show False by (rule notE)
qed

definition example_listed :: chat where
  "example_listed = \<lparr>ch_account_id = ''a'', ch_database_generation = ''g1'',
     ch_chat_id = 1, ch_chat_guid = ''iMessage;+;c1'', ch_service = ''iMessage'', ch_is_group = True,
     ch_participants = [''+14155550100'']\<rparr>"

lemma example_time: "parse_rfc3339 ''2026-01-02T03:04:05Z'' \<noteq> None"
proof -
  let ?t = "\<lparr>year = 2026, month = 1, day = 2, hour = 3, minute = 4, second = 5, nano = 0\<rparr>"
  have f: "format_rfc3339_nano ?t = ''2026-01-02T03:04:05Z''"
    by (simp add: format_rfc3339_nano_def format_seconds_def pad_year_def pad2_def format_fraction_def
        print_nat.simps numeral_2_eq_2, code_simp)
  have "valid_civil ?t" by (simp add: valid_civil_def valid_date_def days_in_def)
  from parse_format_rfc3339 [OF this] show ?thesis unfolding f by simp
qed

lemma example_shown:
  assumes "''iMessage;+;c1'' \<notin> excluded p"
  shows "shown example_server p example_chat example_message
     \<lparr>ms_account_id = ''a'', ms_database_generation = ''g1'', ms_row_id = 7, ms_chat_id = 1,
      ms_chat_guid = ''iMessage;+;c1'', ms_guid = ''m7'', ms_sender = ''+14155550100'', ms_from_me = False,
      ms_text = ''hi'', ms_created_at = ''2026-01-02T03:04:05Z''\<rparr>"
proof -
  note t = example_time
  have "matchesAccount example_server example_chat"
    by (simp add: matchesAccount_def example_chat_def example_server_def example_config_def)
  then have v: "visible_chat example_server p example_chat"
    using assms by (simp add: visible_chat_def example_authorized)
  have b: "belongs_to p example_message example_chat"
    by (simp add: belongs_to_def example_message_conversation example_authorized)
      (simp add: example_message_def example_chat_def)
  have f: "well_formed_message example_message"
    using t by (simp add: well_formed_message_def example_message_def ascii_valid)
  have w: "shown_sender p example_chat example_message False ''+14155550100''"
    by (simp add: shown_sender_def example_authorized) (simp add: example_message_def phone_examples)
  have "\<not> Suppress (rm_text example_message)" using hi_passes by (simp add: example_message_def)
  with v b f w show ?thesis
    unfolding shown_def
    by (intro conjI exI [of _ False] exI [of _ "''+14155550100''"])
      (simp_all add: example_server_def example_config_def example_deps_def example_message_def example_chat_def)
qed

lemma example_policy_loads:
  "loadPolicy example_server i (p # ps) = (Inr p, ps)"
  by (simp add: loadPolicy_def example_server_def example_deps_def example_config_def)

lemma example_lists:
  "listChats example_server \<lparr>rq_v = 1, rq_id = ''1'', rq_method = MethodListChats, rq_params = ''{}''\<rparr> [example_policy]
   = (Success ''1'' (ListChatsResult \<lparr>lr_chats = [example_listed], lr_scan_complete = True\<rparr>), [])"
proof -
  have d: "decode_list_chats ''{}'' = Inr \<lparr>lc_limit = 0\<rparr>" by code_simp
  have c: "dp_list_chats (sv_deps example_server) n w = (Inr [example_chat], w)" for n w
    by (simp add: example_server_def example_deps_def)
  have v: "validChat example_chat" "matchesAccount example_server example_chat"
    by (simp_all add: validChat_def matchesAccount_def example_chat_def example_server_def example_config_def)
  have e: "exposeChat example_server example_chat d = \<lparr>ch_account_id = ''a'', ch_database_generation = ''g1'',
        ch_chat_id = 1, ch_chat_guid = ''iMessage;+;c1'', ch_service = ''iMessage'', ch_is_group = d_is_group d,
        ch_participants = d_participants d\<rparr>" for d
    by (simp add: exposeChat_def example_server_def example_config_def example_deps_def example_chat_def)
  have cfg: "cf_max_results (sv_cfg example_server) = 100" "cf_max_chat_scan (sv_cfg example_server) = 500"
    by (simp_all add: example_server_def example_config_def)
  show ?thesis
    by (simp add: listChats_def Let_def d cfg normalizeLimit_def or_return_def backend_call_def c
        example_policy_loads list_reply_def v e example_authorized)
      (simp add: example_policy_def example_listed_def)
qed

lemma DecodeParams_print:
  "json_wf max_nesting (JObj ms) \<Longrightarrow> decode_members step zero ms = Some r \<Longrightarrow>
     DecodeParams step zero (json_print (JObj ms)) = Inr r"
  unfolding DecodeParams_iff by (intro exI conjI) (rule json_decode_print)

definition example_history_request :: request where
  "example_history_request = \<lparr>rq_v = 1, rq_id = ''1'', rq_method = MethodHistory,
     rq_params = json_print (JObj [(''chat_id'', jint 1), (''database_generation'', JStr ''g1'')])\<rparr>"

lemma example_history_params:
  "decode_generation (rq_params example_history_request) =
     Inr \<lparr>gp_chat_id = 1, gp_database_generation = ''g1'', gp_limit = 0\<rparr>"
proof -
  have "decode_members generation_step \<lparr>gp_chat_id = 0, gp_database_generation = [], gp_limit = 0\<rparr>
      [(''chat_id'', jint 1), (''database_generation'', JStr ''g1'')] =
      Some \<lparr>gp_chat_id = 1, gp_database_generation = ''g1'', gp_limit = 0\<rparr>"
    by (simp add: generation_step_def key_is_plain plain_key_def dec_jint)
  moreover have "json_wf max_nesting (JObj [(''chat_id'', jint 1), (''database_generation'', JStr ''g1'')])"
    by (simp add: max_nesting_def ascii_valid)
  ultimately show ?thesis
    unfolding decode_generation_def example_history_request_def request.select_convs
    by (intro DecodeParams_print)
qed

lemma example_reads:
  assumes "''iMessage;+;c1'' \<notin> excluded p0"
  shows "history example_server example_history_request [p0, p] =
    (history_reply example_server ''1'' p example_chat 50 [example_message], [])"
proof -
  have d: "dp_generation (sv_deps example_server) = ''g1''"
    "cf_max_results (sv_cfg example_server) = 100" "matchesAccount example_server example_chat"
    "dp_chat (sv_deps example_server) c w = (Inr example_chat, w)"
    "dp_history (sv_deps example_server) c n w = (Inr [example_message], w)" for c n w
    by (simp_all add: example_server_def example_deps_def example_config_def matchesAccount_def example_chat_def)
  have c: "validChat example_chat" "rc_id example_chat = 1"
    by (simp_all add: validChat_def example_chat_def)
  have i: "rq_id example_history_request = ''1''" by (simp add: example_history_request_def)
  show ?thesis
    using assms
    by (simp add: history_def Let_def example_history_params verifyGeneration_def normalizeLimit_def
        or_return_def backend_call_def authorizedChat_def example_policy_loads example_authorized d c i)
qed

section \<open>Properties\<close>

text \<open>C4: \<open>exposeMessage\<close> returns a message exactly when its conversation is on the configured account and
  allowed by the policy, the row's own conversation metadata agree with the conversation (including
  the set of participants), its fields are well formed, its text is not withheld, and its sender, if
  it is incoming, is a participant; the message consists of exactly those fields.\<close>

theorem expose_message_iff: "exposeMessage s m ch p = Inr (Some x) \<longleftrightarrow> shown s p ch m x"
  by (rule exposeMessage_iff)

text \<open>The conversations and messages in a response.\<close>

fun result_chats :: "rpc_result \<Rightarrow> chat list" where
  "result_chats (ListChatsResult r) = lr_chats r"
| "result_chats _ = []"

fun result_messages :: "rpc_result \<Rightarrow> message list" where
  "result_messages (HistoryResult r) = hr_messages r"
| "result_messages (GetMessageResult r) = [gr_message r]"
| "result_messages (CollectResult r) = cr_messages r"
| "result_messages _ = []"

text \<open>The world \<open>w'\<close> is what the end of the request leaves of the world \<open>w\<close> right after a policy load: a
  cursor nonce may have been drawn and the context has been asked for its error, nothing else.\<close>

definition only_ends :: "'w server \<Rightarrow> 'w \<Rightarrow> 'w \<Rightarrow> bool" where
  "only_ends s w w' \<longleftrightarrow> dp_ctx_err (sv_deps s) w = (None, w')
     \<or> dp_ctx_err (sv_deps s) (snd (dp_nonce (sv_deps s) w)) = (None, w')"

lemma handle_exposes:
  assumes "1 \<le> cf_max_results (sv_cfg s)" "handle s req w = (Some resp, w')" "rs_result resp = Some r"
  shows "(\<forall>c \<in> set (result_chats r). \<exists>w1 p ch. loadPolicy s (rq_id req) w1 = (Inr p, w')
            \<and> validChat ch \<and> visible_chat s p ch
            \<and> c = exposeChat s ch (Authorize (Some p) (toConversation ch)))
       \<and> (\<forall>x \<in> set (result_messages r). \<exists>w1 w2 p ch m. loadPolicy s (rq_id req) w1 = (Inr p, w2)
            \<and> (w' = w2 \<or> w' = snd (dp_nonce (sv_deps s) w2)) \<and> validChat ch \<and> shown s p ch m x)"
proof -
  have ok: "rs_ok resp"
    using handle_well_formed [of s req w resp] assms(2,3)
    by (auto simp: well_formed_reply_def split: if_split_asm)
  from assms(2) consider "resp = ping s req" | "resp = fst (info s req w)"
    | "listChats s req w = (resp, w')" | "history s req w = (resp, w')" | "getMessage s req w = (resp, w')"
    | "collect s req w = (Some resp, w')"
    | "resp = Failure (rq_id req) ''method_not_allowed'' ''method is not exposed by this broker'' False"
    by (auto simp: handle_def apfst_def map_prod_def split: if_split_asm prod.split_asm)
  then show ?thesis
  proof cases
    case 1
    with assms(3) show ?thesis by (auto simp: ping_def split: sum.split_asm)
  next
    case 2
    with assms(3) show ?thesis by (auto simp: info_def Let_def split: sum.split_asm prod.split_asm)
  next
    case 3
    from listChats_ok [OF assms(1) this ok] obtain limit rows w1 p where l:
      "loadPolicy s (rq_id req) w1 = (Inr p, w')" "list_all validChat rows"
      "resp = Success (rq_id req) (ListChatsResult \<lparr>lr_chats = take (nat limit) (exposed_chats s p rows),
         lr_scan_complete = (int (length rows) < cf_max_chat_scan (sv_cfg s)
           \<and> length (exposed_chats s p rows) \<le> nat limit)\<rparr>)" by metis
    with assms(3) have r: "result_chats r = take (nat limit) (exposed_chats s p rows)" "result_messages r = []"
      by auto
    have "\<exists>ch. validChat ch \<and> visible_chat s p ch \<and> c = exposeChat s ch (Authorize (Some p) (toConversation ch))"
      if "c \<in> set (result_chats r)" for c
      using in_set_takeD [OF that [unfolded r(1)]] l(2) by (auto simp: exposed_chats_def list_all_iff)
    with l(1) r(2) show ?thesis by simp blast
  next
    case 4
    from history_ok [OF assms(1) this ok] obtain limit ch rows w3 p where h:
      "validChat ch" "loadPolicy s (rq_id req) w3 = (Inr p, w')"
      "resp = Success (rq_id req) (HistoryResult \<lparr>hr_messages = take (nat limit) (shown_rows s p ch rows),
         hr_scan_complete = (int (length rows) < limit \<and> length (shown_rows s p ch rows) \<le> nat limit)\<rparr>)"
      by metis
    with assms(3) have r: "result_messages r = take (nat limit) (shown_rows s p ch rows)" "result_chats r = []"
      by auto
    have "\<exists>m. shown s p ch m x" if "x \<in> set (result_messages r)" for x
      using shown_rows_shown [OF in_set_takeD [OF that [unfolded r(1)]]] by blast
    with h(1,2) r(2) show ?thesis by simp blast
  next
    case 5
    from getMessage_ok [OF this ok] obtain ch w3 p m x where g: "validChat ch"
      "loadPolicy s (rq_id req) w3 = (Inr p, w')" "shown s p ch m x"
      "resp = Success (rq_id req) (GetMessageResult \<lparr>gr_message = x\<rparr>)" by metis
    with assms(3) have "r = GetMessageResult \<lparr>gr_message = x\<rparr>" by simp
    with g(1-3) show ?thesis by simp blast
  next
    case 6
    from collect_ok [OF assms(1) this ok] obtain limit c w1 where
      "collect_from s (rq_id req) limit c w1 = (Some resp, w')" by metis
    from collect_from_ok [OF this ok] obtain page w2 p w3 nonce where c:
      "loadPolicy s (rq_id req) w2 = (Inr p, w3)" "dp_nonce (sv_deps s) w3 = (nonce, w')"
      "resp = Success (rq_id req) (CollectResult \<lparr>cr_messages = page_messages s p (pg_rows page),
       cr_cursor = encodeCursor (sv_cipher s) (cf_instance (sv_cfg s)) nonce (next_cursor c page),
       cr_more = (\<not> pg_complete page), cr_range_complete = pg_complete page\<rparr>)" by metis
    with assms(3) have r: "result_messages r = page_messages s p (pg_rows page)" "result_chats r = []"
      by auto
    have "\<exists>ch m. validChat ch \<and> shown s p ch m x" if "x \<in> set (result_messages r)" for x
      by (rule page_messages_shown [OF that [unfolded r(1)]]) blast
    with c(1,2) r(2) show ?thesis by simp (metis snd_conv)
  next
    case 7
    with assms(3) show ?thesis by simp
  qed
qed

text \<open>C1: Nothing leaves the broker without the policy's permission, as of the last time it was loaded: every
  conversation in a response was allowed, and every message was showable, under a policy (with its
  contact grants) that was loaded after every backend call of the request, when only the drawing of a
  nonce and the final look at the context remained.  A grant revoked while the backend was running is
  therefore already revoked in the response.\<close>

theorem dispatch_exposes_authorized:
  assumes "1 \<le> cf_max_results (sv_cfg s)" "dispatch s req w = (Some resp, w')" "rs_result resp = Some r"
  shows "(\<forall>c \<in> set (result_chats r). \<exists>w1 w2 p ch. loadPolicy s (rq_id req) w1 = (Inr p, w2)
            \<and> only_ends s w2 w' \<and> visible_chat s p ch
            \<and> c = exposeChat s ch (Authorize (Some p) (toConversation ch)))
       \<and> (\<forall>x \<in> set (result_messages r). \<exists>w1 w2 p ch m. loadPolicy s (rq_id req) w1 = (Inr p, w2)
            \<and> only_ends s w2 w' \<and> shown s p ch m x)"
proof -
  from assms(2,3) obtain w2 where h: "handle s req w = (Some resp, w2)" "dp_ctx_err (sv_deps s) w2 = (None, w')"
    by (auto simp: dispatch_def split: prod.split_asm option.split_asm)
  note e = handle_exposes [OF assms(1) h(1) assms(3)]
  show ?thesis
  proof (intro conjI ballI)
    fix c assume "c \<in> set (result_chats r)"
    with e obtain w1 p ch where "loadPolicy s (rq_id req) w1 = (Inr p, w2)" "visible_chat s p ch"
      "c = exposeChat s ch (Authorize (Some p) (toConversation ch))" by blast
    with h(2) show "\<exists>w1 w2 p ch. loadPolicy s (rq_id req) w1 = (Inr p, w2) \<and> only_ends s w2 w'
        \<and> visible_chat s p ch \<and> c = exposeChat s ch (Authorize (Some p) (toConversation ch))"
      unfolding only_ends_def by blast
  next
    fix x assume "x \<in> set (result_messages r)"
    with e obtain w1 w3 p ch m where l: "loadPolicy s (rq_id req) w1 = (Inr p, w3)"
      "w2 = w3 \<or> w2 = snd (dp_nonce (sv_deps s) w3)" "shown s p ch m x" by blast
    from l(2) h(2) have "only_ends s w3 w'" by (auto simp: only_ends_def)
    with l show "\<exists>w1 w2 p ch m. loadPolicy s (rq_id req) w1 = (Inr p, w2) \<and> only_ends s w2 w' \<and> shown s p ch m x"
      by blast
  qed
qed

lemma dispatch_exposes_authorized_witness:
  "\<exists>w1 w2 p ch. loadPolicy example_server ''1'' w1 = (Inr p, w2) \<and> only_ends example_server w2 []
     \<and> visible_chat example_server p ch \<and> example_listed = exposeChat example_server ch (Authorize (Some p) (toConversation ch))"
proof -
  let ?req = "\<lparr>rq_v = 1, rq_id = ''1'', rq_method = MethodListChats, rq_params = ''{}''\<rparr>"
  have "MethodListChats \<noteq> MethodSystemPing" "MethodListChats \<noteq> MethodSystemInfo"
    by (simp_all add: MethodListChats_def MethodSystemPing_def MethodSystemInfo_def)
  then have h: "dispatch example_server ?req [example_policy] = (Some (fst (listChats example_server ?req [example_policy])), [])"
    by (simp add: dispatch_def handle_def example_lists) (simp add: example_server_def example_deps_def)
  have m: "1 \<le> cf_max_results (sv_cfg example_server)" by (simp add: example_server_def example_config_def)
  from dispatch_exposes_authorized [OF m h, unfolded example_lists fst_conv failure_simps(3), OF refl]
  show ?thesis by simp
qed

text \<open>C12: Every request is answered: the broker never panics, and the answer carries the request's id and the
  protocol version and is either a success with a result and no error, or a failure without a result
  whose code is one of thirteen, retryable exactly for \<open>backend_timeout\<close> and \<open>backend_unavailable\<close>.\<close>

theorem dispatch_well_formed:
  "\<exists>resp w'. dispatch s req w = (Some resp, w') \<and> well_formed_reply (rq_id req) resp"
proof -
  obtain r w1 where h: "handle s req w = (Some r, w1)"
    using handle_total [of s req w] by (cases "handle s req w") auto
  then have "well_formed_reply (rq_id req) r" using handle_well_formed [of s req w r] by simp
  with h show ?thesis
    by (cases "dp_ctx_err (sv_deps s) w1"; cases "fst (dp_ctx_err (sv_deps s) w1)")
      (auto simp: dispatch_def)
qed


text \<open>C14: A successful listing answers what was asked: \<open>limit\<close> is the request's, which lies between one and the
  configured maximum (itself at least one), or twenty, within that maximum, when the request has none (or zero).
  The answer is the first \<open>limit\<close> conversations of the backend's scan that are on the
  configured account and allowed by the policy loaded after the scan, in the order of the scan; it
  says the scan was complete exactly when the scan was shorter than its bound and no further
  visible conversation was left out; one malformed row fails the whole request.\<close>

theorem list_chats_result:
  assumes "1 \<le> cf_max_results (sv_cfg s)" "listChats s req w = (resp, w')" "rs_ok resp"
  shows "\<exists>params limit rows w1 p. decode_list_chats (rq_params req) = Inr params
     \<and> limit = (if lc_limit params = 0 then min 20 (cf_max_results (sv_cfg s)) else lc_limit params)
     \<and> 1 \<le> limit \<and> limit \<le> cf_max_results (sv_cfg s)
     \<and> dp_list_chats (sv_deps s) (cf_max_chat_scan (sv_cfg s)) w = (Inr rows, w1)
     \<and> loadPolicy s (rq_id req) w1 = (Inr p, w') \<and> list_all validChat rows
     \<and> resp = Success (rq_id req) (ListChatsResult \<lparr>lr_chats = take (nat limit) (exposed_chats s p rows),
         lr_scan_complete = (int (length rows) < cf_max_chat_scan (sv_cfg s)
           \<and> length (exposed_chats s p rows) \<le> nat limit)\<rparr>)"
proof -
  obtain params limit rows w1 p where l: "decode_list_chats (rq_params req) = Inr params"
    "normalizeLimit (lc_limit params) 20 (cf_max_results (sv_cfg s)) = Inr limit"
    "1 \<le> limit" "limit \<le> cf_max_results (sv_cfg s)"
    "dp_list_chats (sv_deps s) (cf_max_chat_scan (sv_cfg s)) w = (Inr rows, w1)"
    "loadPolicy s (rq_id req) w1 = (Inr p, w')" "list_all validChat rows"
    "resp = Success (rq_id req) (ListChatsResult \<lparr>lr_chats = take (nat limit) (exposed_chats s p rows),
       lr_scan_complete = (int (length rows) < cf_max_chat_scan (sv_cfg s)
         \<and> length (exposed_chats s p rows) \<le> nat limit)\<rparr>)"
    by (rule listChats_ok [OF assms])
  with normalizeLimit_value [OF l(2)] show ?thesis by blast
qed

lemma list_chats_result_witness:
  "\<exists>rows w1 p. dp_list_chats (sv_deps example_server) 500 [example_policy] = (Inr rows, w1)
     \<and> loadPolicy example_server ''1'' w1 = (Inr p, []) \<and> length (exposed_chats example_server p rows) = 1"
proof -
  have m: "1 \<le> cf_max_results (sv_cfg example_server)" "cf_max_chat_scan (sv_cfg example_server) = 500"
    by (simp_all add: example_server_def example_config_def)
  have c: "dp_list_chats (sv_deps example_server) n w = (Inr [example_chat], w)" for n w
    by (simp add: example_server_def example_deps_def)
  from list_chats_result [OF m(1) example_lists] obtain limit w1 p where
    l: "loadPolicy example_server ''1'' w1 = (Inr p, [])" "w1 = [example_policy]"
      "[example_listed] = take (nat limit) (exposed_chats example_server p [example_chat])"
    by (auto simp: m(2) c Success_def)
  then have "length (exposed_chats example_server p [example_chat]) \<noteq> 0" by auto
  moreover have "length (exposed_chats example_server p [example_chat]) \<le> 1"
    by (simp add: exposed_chats_def)
  ultimately have "length (exposed_chats example_server p [example_chat]) = 1" by linarith
  with l(1) [unfolded l(2)] c show ?thesis by blast
qed

text \<open>C13: A successful history answers what was asked: the conversation is the request's, of the generation it
  names, and \<open>limit\<close> is the request's, which lies between one and the configured maximum (itself at least one),
  or fifty, within that maximum, when the request has none (or zero).  It is read under two policies: the conversation is visible under the one loaded
  before the backend was asked and under the one loaded after the messages were read, and the
  answer is the first \<open>limit\<close> showable messages under the latter, in the backend's order; a single row
  with contradictory or malformed metadata fails the request.\<close>

theorem history_result:
  assumes "1 \<le> cf_max_results (sv_cfg s)" "history s req w = (resp, w')" "rs_ok resp"
  shows "\<exists>params limit p0 w1 ch w2 rows w3 p.
     decode_generation (rq_params req) = Inr params
     \<and> gp_database_generation params = dp_generation (sv_deps s)
     \<and> limit = (if gp_limit params = 0 then min 50 (cf_max_results (sv_cfg s)) else gp_limit params)
     \<and> 1 \<le> limit \<and> limit \<le> cf_max_results (sv_cfg s)
     \<and> loadPolicy s (rq_id req) w = (Inr p0, w1)
     \<and> dp_chat (sv_deps s) (gp_chat_id params) w1 = (Inr ch, w2)
     \<and> rc_id ch = gp_chat_id params \<and> visible_chat s p0 ch
     \<and> dp_history (sv_deps s) (gp_chat_id params) limit w2 = (Inr rows, w3)
     \<and> loadPolicy s (rq_id req) w3 = (Inr p, w') \<and> visible_chat s p ch
     \<and> list_all (\<lambda>m. is_ok (exposeMessage s m ch p)) rows
     \<and> resp = Success (rq_id req) (HistoryResult
         \<lparr>hr_messages = take (nat limit) (shown_rows s p ch rows),
          hr_scan_complete = (int (length rows) < limit \<and> length (shown_rows s p ch rows) \<le> nat limit)\<rparr>)"
proof -
  obtain params limit p0 w1 ch w2 rows w3 p where h: "decode_generation (rq_params req) = Inr params"
    "gp_database_generation params = dp_generation (sv_deps s)"
    "normalizeLimit (gp_limit params) 50 (cf_max_results (sv_cfg s)) = Inr limit"
    "1 \<le> limit" "limit \<le> cf_max_results (sv_cfg s)"
    "loadPolicy s (rq_id req) w = (Inr p0, w1)"
    "dp_chat (sv_deps s) (gp_chat_id params) w1 = (Inr ch, w2)"
    "validChat ch" "rc_id ch = gp_chat_id params" "visible_chat s p0 ch"
    "dp_history (sv_deps s) (gp_chat_id params) limit w2 = (Inr rows, w3)"
    "loadPolicy s (rq_id req) w3 = (Inr p, w')" "visible_chat s p ch"
    "list_all (\<lambda>m. is_ok (exposeMessage s m ch p)) rows"
    "resp = Success (rq_id req) (HistoryResult
       \<lparr>hr_messages = take (nat limit) (shown_rows s p ch rows),
        hr_scan_complete = (int (length rows) < limit \<and> length (shown_rows s p ch rows) \<le> nat limit)\<rparr>)"
    by (rule history_ok [OF assms])
  then show ?thesis using normalizeLimit_value [OF h(3)]
    by (intro exI [of _ params] exI [of _ limit] exI [of _ p0] exI [of _ w1] exI [of _ ch] exI [of _ w2]
        exI [of _ rows] exI [of _ w3] exI [of _ p]) simp
qed

lemma history_result_witness:
  "\<exists>limit p rows. visible_chat example_server p example_chat \<and> rows = [example_message] \<and> limit = 50
     \<and> list_all (\<lambda>m. is_ok (exposeMessage example_server m example_chat p)) rows
     \<and> length (take (nat limit) (shown_rows example_server p example_chat rows)) = 1"
proof -
  have e: "''iMessage;+;c1'' \<notin> excluded example_policy" by (simp add: example_policy_def)
  note h = example_reads [OF e, of example_policy]
  have x: "is_ok (exposeMessage example_server example_message example_chat example_policy)"
    "length (shown_rows example_server example_policy example_chat [example_message]) = 1"
    using example_shown [OF e]
    by (simp_all add: exposeMessage_iff [symmetric] shown_rows_def map_filter_Cons List.map_filter_def)
  have ok: "rs_ok (history_reply example_server ''1'' example_policy example_chat 50 [example_message])"
    using e x history_rows_spec [of "[]" 50 example_server example_policy example_chat "[example_message]"]
    by (simp add: history_reply_def example_authorized)
  have m: "1 \<le> cf_max_results (sv_cfg example_server)" by (simp add: example_server_def example_config_def)
  have d: "dp_chat (sv_deps example_server) c w = (Inr example_chat, w)"
    "dp_history (sv_deps example_server) c n w = (Inr [example_message], w)" for c n w
    by (simp_all add: example_server_def example_deps_def)
  have c: "cf_max_results (sv_cfg example_server) = 100" by (simp add: example_server_def example_config_def)
  from history_result [OF m h ok] obtain limit p where
    "visible_chat example_server p example_chat" "limit = 50"
    "list_all (\<lambda>m. is_ok (exposeMessage example_server m example_chat p)) [example_message]"
    "history_reply example_server ''1'' example_policy example_chat 50 [example_message] =
       Success (rq_id example_history_request) (HistoryResult
         \<lparr>hr_messages = take (nat limit) (shown_rows example_server p example_chat [example_message]),
          hr_scan_complete = (int (length [example_message]) < limit
            \<and> length (shown_rows example_server p example_chat [example_message]) \<le> nat limit)\<rparr>)"
    by (auto simp: d c example_history_params)
  moreover from this(1) have "length (shown_rows example_server p example_chat [example_message]) = 1"
    using example_shown [of p]
    by (simp add: visible_chat_def example_authorized exposeMessage_iff [symmetric] shown_rows_def
        map_filter_Cons List.map_filter_def)
  ultimately show ?thesis by (intro exI conjI) auto
qed

end
