(* ===== verification/Collection.thy ===== *)
theory Collection
  imports BrokerSafety
begin

text \<open>
  Following a collection over several requests: the cursor in a response decodes to the checkpoint of
  the page, the next request continues exactly there, and a chain of pages delivers every message
  once, in ascending order, in a bounded number of requests.
\<close>

section \<open>Cursors that resume\<close>

text \<open>What configuration and cipher must provide for cursors to come back: an account identifier that
  JSON represents and that is not padded beyond 128 bytes, and a generation of the form the backend
  computes (at most 32 bytes).\<close>

definition cursor_server :: "'w server \<Rightarrow> bool" where
  "cursor_server s \<longleftrightarrow> opens (sv_cipher s) \<and> gcm_overhead (sv_cipher s)
     \<and> valid_utf8 (cf_account_id (sv_cfg s)) \<and> cf_account_id (sv_cfg s) \<noteq> []
     \<and> length (cf_account_id (sv_cfg s)) \<le> 128
     \<and> valid_utf8 (dp_generation (sv_deps s)) \<and> dp_generation (sv_deps s) \<noteq> []
     \<and> length (dp_generation (sv_deps s)) \<le> 32"

text \<open>A position on the configured account and generation that is not negative; a time limit is canonical and
  only on an unfinished position (a cursor that decodes has no other).\<close>

definition resumable :: "'w server \<Rightarrow> cursor \<Rightarrow> bool" where
  "resumable s c \<longleftrightarrow> cu_account_id c = cf_account_id (sv_cfg s) \<and> cu_generation c = dp_generation (sv_deps s)
     \<and> 0 \<le> cu_row_id c
     \<and> (cu_not_before c = [] \<or> (\<not> cu_complete c \<and> parse_rfc3339 (cu_not_before c) \<noteq> None \<and> length (cu_not_before c) \<le> 35
          \<and> valid_utf8 (cu_not_before c)))"

text \<open>The backend's row identifiers are 64-bit.\<close>

definition rows_in_range :: "'w server \<Rightarrow> bool" where
  "rows_in_range s \<longleftrightarrow> (\<forall>after through n nb w page w'. dp_collect (sv_deps s) after through n nb w = (Inr page, w')
     \<longrightarrow> pg_through page < 2 ^ 63)"

lemma next_cursor_fields [simp]:
  "cu_row_id (next_cursor c page) = pg_scanned page"
  "cu_through_row_id (next_cursor c page) = pg_through page"
  "cu_complete (next_cursor c page) = pg_complete page"
  "cu_account_id (next_cursor c page) = cu_account_id c"
  "cu_generation (next_cursor c page) = cu_generation c"
  "cu_not_before (next_cursor c page) = (if pg_complete page then [] else cu_not_before c)"
  by (simp_all add: next_cursor_def Let_def)

lemma valid_utf8_Nil [simp]: "valid_utf8 []"
  by (rule ascii_valid) simp

lemma resumable_next:
  assumes "resumable s c" "page_ok page (cu_row_id c) through n"
  shows "resumable s ((next_cursor c page)\<lparr>cu_v := v\<rparr>)"
  using assms page_ok_progress(1) [OF assms(2)] by (auto simp: resumable_def valid_utf8_Nil)

lemma next_cursor_decodes:
  assumes "cursor_server s" "resumable s c" "page_ok page (cu_row_id c) through n" "pg_through page < 2 ^ 63"
  shows "decodeCursor (sv_cipher s) inst (encodeCursor (sv_cipher s) inst nonce (next_cursor c page))
    = Inr ((next_cursor c page)\<lparr>cu_v := 2\<rparr>)"
    and "length (encodeCursor (sv_cipher s) inst nonce (next_cursor c page)) \<le> 2048"
proof -
  note p = page_ok_progress [OF assms(3)]
  have range: "0 \<le> pg_scanned page" "pg_scanned page \<le> pg_through page"
    using p(1,2) assms(2) by (auto simp: resumable_def)
  have wf: "cursor_wf (next_cursor c page)"
    using assms(1,2,4) range
    by (auto simp: cursor_wf_def resumable_def cursor_server_def valid_utf8_Nil)
  have ok: "cursor_ok (next_cursor c page)"
    using assms(1,2) range p(3) by (auto simp: cursor_ok_def resumable_def cursor_server_def)
  have "length (cu_not_before (next_cursor c page)) \<le> 35"
    using assms(2) by (auto simp: resumable_def)
  then show l: "length (encodeCursor (sv_cipher s) inst nonce (next_cursor c page)) \<le> 2048"
    using assms(1,2) wf by (intro length_encodeCursor) (auto simp: cursor_server_def resumable_def)
  show "decodeCursor (sv_cipher s) inst (encodeCursor (sv_cipher s) inst nonce (next_cursor c page))
    = Inr ((next_cursor c page)\<lparr>cu_v := 2\<rparr>)"
    using assms(1) by (intro decodeCursor_encode [OF _ wf ok l]) (simp add: cursor_server_def)
qed

text \<open>The parameters of a request that continues from a cursor.\<close>

definition continuation :: "string \<Rightarrow> int \<Rightarrow> collect_params" where
  "continuation cur limit = \<lparr>cp_cursor = cur, cp_after_row_id = 0, cp_database_generation = [],
     cp_limit = limit, cp_not_before = []\<rparr>"

lemma request_cursor_continuation:
  assumes "decodeCursor (sv_cipher s) (cf_instance (sv_cfg s)) cur = Inr c" "cur \<noteq> []"
  shows "request_cursor s (continuation cur n) = Inr c"
  using assms by (simp add: request_cursor_def start_cursor_def apply_not_before_def continuation_def)

lemma encodeCursor_nonempty [simp]: "encodeCursor a inst nonce c \<noteq> []"
  by (simp add: encodeCursor_def)

text \<open>Where an initial request starts.\<close>

lemma length_format_rfc3339:
  assumes "valid_civil t" "0 \<le> year t" "year t < 10000"
  shows "length (format_rfc3339_nano t) \<le> 35" "valid_utf8 (format_rfc3339_nano t)"
proof -
  have digit: "byte (char_of (48 + n :: nat)) < 128" if "n < 10" for n
    using that by (simp add: of_char_of)
  have y: "length (pad_year (year t)) = 4"
  proof -
    have "length (print_nat (nat \<bar>year t\<bar>)) \<le> Suc 3"
      by (rule length_print_nat) (use assms(2,3) in simp)
    then show ?thesis using assms(2) by (simp add: pad_year_def Let_def)
  qed
  have f: "length (trim_zeros (nine_digits n)) \<le> 9" for n
    using trim_zeros_split [of "nine_digits n"] length_nine [of n]
    by (metis length_append le_add1)
  have p: "length (pad2 n) = 2" for n by (simp add: pad2_def)
  show "length (format_rfc3339_nano t) \<le> 35"
    using f [of "nano t"] by (simp add: format_rfc3339_nano_def format_seconds_def y p format_fraction_def)
  have a: "list_all (\<lambda>c. byte c < 128) (print_nat n)" for n
  proof (induction n rule: print_nat.induct)
    case (1 n)
    have "n mod 10 < 10" by simp
    then have "48 + n mod 10 < 128" by linarith
    with 1 show ?case by (subst print_nat.simps) (simp add: of_char_of)
  qed
  have t: "list_all (\<lambda>c. byte c < 128) (trim_zeros u)" if "list_all (\<lambda>c. byte c < 128) u" for u
    using that by (auto simp: trim_zeros_def list_all_iff dest: set_dropWhileD)
  have n: "list_all (\<lambda>c. byte c < 128) (nine_digits k)" for k
    using nine_digits_digit [of k] by (auto simp: list_all_iff ascii_digit_def)
  have m: "x mod 10 < (80 :: nat)" for x
    by (rule less_trans [OF mod_less_divisor]) simp_all
  have d: "list_all (\<lambda>c. byte c < 128) (pad2 k)" for k
    by (simp add: pad2_def of_char_of m)
  have z: "list_all (\<lambda>c. byte c < 128) (replicate k CHR ''0'')" for k
    by (simp add: list_all_iff)
  show "valid_utf8 (format_rfc3339_nano t)"
    by (rule ascii_valid)
      (use a t n d z in \<open>simp add: format_rfc3339_nano_def format_seconds_def pad_year_def Let_def
        format_fraction_def\<close>)
qed

lemma initial_resumable:
  assumes "request_cursor s params = Inr c" "cp_cursor params = []"
    and "cu_account_id c = cf_account_id (sv_cfg s)" "cu_generation c = dp_generation (sv_deps s)"
    and "\<And>t. parse_rfc3339 (cp_not_before params) = Some t \<Longrightarrow> 0 \<le> year t \<and> year t < 10000"
  shows "resumable s c"
proof -
  from assms(1,2) have pos: "\<not> cp_after_row_id params < 0"
    by (auto simp: request_cursor_def start_cursor_def split: if_split_asm)
  show ?thesis
  proof (cases "cp_not_before params = []")
    case True
    with assms(1-4) pos show ?thesis
      by (auto simp: request_cursor_def start_cursor_def apply_not_before_def resumable_def zero_cursor_def
          split: if_split_asm)
  next
    case False
    with assms(1,2) obtain t where t: "parse_rfc3339 (cp_not_before params) = Some t"
      by (auto simp: request_cursor_def start_cursor_def apply_not_before_def
          split: if_split_asm option.split_asm)
    with False assms(1,2) have n: "cu_not_before c = format_rfc3339_nano t" "cu_row_id c = cp_after_row_id params" "\<not> cu_complete c"
      by (auto simp: request_cursor_def start_cursor_def apply_not_before_def zero_cursor_def split: if_split_asm)
    have y: "0 \<le> year t" "year t < 10000" using assms(5) [OF t] by simp_all
    from n t y pos assms(3,4) show ?thesis
      using parse_format_rfc3339 [OF parse_rfc3339_valid [OF t] y]
        length_format_rfc3339 [OF parse_rfc3339_valid [OF t] y]
      by (simp add: resumable_def)
  qed
qed

section \<open>Chains of pages\<close>

text \<open>\<open>chain s n c ms c'\<close>: \<open>n\<close> successful requests one after the other, whatever happened to the world in
  between, each continuing from the cursor of the one before and all but the first from an
  unfinished one; they delivered the messages \<open>ms\<close> and ended at \<open>c'\<close>.\<close>

inductive chain :: "'w server \<Rightarrow> nat \<Rightarrow> cursor \<Rightarrow> message list \<Rightarrow> cursor \<Rightarrow> bool" for s where
  stop: "chain s 0 c [] c"
| page: "collect_from s i limit c w = (Some resp, w') \<Longrightarrow> rs_result resp = Some (CollectResult r) \<Longrightarrow>
     request_cursor s (continuation (cr_cursor r) n') = Inr c1 \<Longrightarrow>
     n = 0 \<or> \<not> cu_complete c1 \<Longrightarrow>
     chain s n c1 ms c2 \<Longrightarrow> chain s (Suc n) c (cr_messages r @ ms) c2"

lemma collect_from_result_ok:
  assumes "collect_from s i limit c w = (Some resp, w')" "rs_result resp = Some r"
  shows "rs_ok resp"
proof -
  have "well_formed_reply i resp"
    by (rule collect_from_well_formed [of s i limit c w]) (simp add: assms(1))
  with assms(2) show ?thesis by (auto simp: well_formed_reply_def split: if_split_asm)
qed

lemma collect_step:
  assumes "cursor_server s" "rows_in_range s" "resumable s c"
    and "collect_from s i limit c w = (Some resp, w')" "rs_result resp = Some (CollectResult r)"
  obtains page p w1 w2 where
    "page_ok page (cu_row_id c) (from_through c) (min limit (cf_max_collection_scan (sv_cfg s)))"
    "request_cursor s (continuation (cr_cursor r) n) = Inr ((next_cursor c page)\<lparr>cu_v := 2\<rparr>)"
    "resumable s ((next_cursor c page)\<lparr>cu_v := 2\<rparr>)" "length (cr_cursor r) \<le> 2048"
    "cr_more r \<longleftrightarrow> \<not> pg_complete page" "cr_range_complete r \<longleftrightarrow> pg_complete page"
    "sorted_wrt (<) (map ms_row_id (cr_messages r))"
    "\<forall>x \<in> set (cr_messages r). cu_row_id c < ms_row_id x \<and> ms_row_id x \<le> pg_scanned page"
    "cr_messages r = page_messages s p (pg_rows page)"
    "dp_collect (sv_deps s) (cu_row_id c) (from_through c)
       (min limit (cf_max_collection_scan (sv_cfg s))) (from_not_before c) w = (Inr page, w1)"
    "loadPolicy s i w1 = (Inr p, w2)"
proof -
  from collect_from_ok [OF assms(4) collect_from_result_ok [OF assms(4,5)]]
  obtain page w1 p w2 nonce where
    c: "dp_collect (sv_deps s) (cu_row_id c) (from_through c)
       (min limit (cf_max_collection_scan (sv_cfg s))) (from_not_before c) w = (Inr page, w1)"
    and ok: "page_ok page (cu_row_id c) (from_through c) (min limit (cf_max_collection_scan (sv_cfg s)))"
    and r: "resp = Success i (CollectResult \<lparr>cr_messages = page_messages s p (pg_rows page),
       cr_cursor = encodeCursor (sv_cipher s) (cf_instance (sv_cfg s)) nonce (next_cursor c page),
       cr_more = (\<not> pg_complete page), cr_range_complete = pg_complete page\<rparr>)"
    and l: "loadPolicy s i w1 = (Inr p, w2)"
    by metis
  from c assms(2) have range: "pg_through page < 2 ^ 63" unfolding rows_in_range_def by blast
  note d = next_cursor_decodes [OF assms(1,3) ok range]
  from r assms(5) have res: "r = \<lparr>cr_messages = page_messages s p (pg_rows page),
       cr_cursor = encodeCursor (sv_cipher s) (cf_instance (sv_cfg s)) nonce (next_cursor c page),
       cr_more = (\<not> pg_complete page), cr_range_complete = pg_complete page\<rparr>" by simp
  have sorted: "sorted_wrt (<) (map cw_row_id (pg_rows page))" using ok by (simp add: page_ok_def)
  note m = page_messages_sorted [OF sorted page_ok_coherent [OF ok], of s p]
  have "cu_row_id c < cw_row_id row \<and> cw_row_id row \<le> pg_scanned page" if "row \<in> set (pg_rows page)" for row
    using ok page_ok_progress(4) [OF ok that] that by (auto simp: page_ok_def)
  with m have "\<forall>x \<in> set (cr_messages r). cu_row_id c < ms_row_id x \<and> ms_row_id x \<le> pg_scanned page"
    by (fastforce simp: res)
  then show ?thesis
    using that [OF ok _ resumable_next [OF assms(3) ok]] request_cursor_continuation [OF d(1)] d(2) m c l
    by (simp add: res)
qed


text \<open>A pending cursor pins the boundary.\<close>

definition pending :: "cursor \<Rightarrow> bool" where
  "pending c \<longleftrightarrow> \<not> cu_complete c \<and> cu_row_id c < cu_through_row_id c \<and> cu_through_row_id c \<noteq> 0"

lemma chain_resumable:
  assumes "chain s n c ms c'" "cursor_server s" "rows_in_range s" "resumable s c"
  shows "resumable s c' \<and> cu_row_id c \<le> cu_row_id c'
     \<and> sorted_wrt (<) (map ms_row_id ms)
     \<and> (\<forall>x \<in> set ms. cu_row_id c < ms_row_id x \<and> ms_row_id x \<le> cu_row_id c')
     \<and> (n > 0 \<longrightarrow> cu_row_id c' \<le> cu_through_row_id c'
          \<and> (cu_complete c' \<longleftrightarrow> cu_row_id c' = cu_through_row_id c')
          \<and> int n \<le> cu_through_row_id c' - cu_row_id c + 1)
     \<and> (n > 0 \<and> pending c \<longrightarrow> cu_through_row_id c' = cu_through_row_id c
          \<and> int n \<le> cu_through_row_id c - cu_row_id c)"
  using assms
proof (induction rule: chain.induct)
  case (stop c)
  then show ?case by simp
next
  case (page i limit c w resp w' r n' c1 n ms c2)
  from collect_step [OF page.prems page.hyps(1,2), of n'] obtain pg where
    ok: "page_ok pg (cu_row_id c) (from_through c) (min limit (cf_max_collection_scan (sv_cfg s)))"
    and c1: "c1 = (next_cursor c pg)\<lparr>cu_v := 2\<rparr>" and res: "resumable s c1"
    and m: "sorted_wrt (<) (map ms_row_id (cr_messages r))"
      "\<forall>x \<in> set (cr_messages r). cu_row_id c < ms_row_id x \<and> ms_row_id x \<le> pg_scanned pg"
    using page.hyps(3) by (metis sum.inject(2))
  have f: "cu_row_id c1 = pg_scanned pg" "cu_through_row_id c1 = pg_through pg" "cu_complete c1 = pg_complete pg"
    by (simp_all add: c1)
  note p = page_ok_progress [OF ok]
  note IH = page.IH [OF page.prems(1,2) res]
  have "0 \<le> cu_row_id c" using page.prems(3) by (simp add: resumable_def)
  have pc1: "pending c1" if "n > 0"
    using that page.hyps(4) p(2,3,5) f \<open>0 \<le> cu_row_id c\<close> by (auto simp: pending_def)
  have t: "pending c \<Longrightarrow> pg_through pg = cu_through_row_id c"
    using ok by (auto simp: pending_def page_ok_def)
  have srt: "sorted_wrt (<) (map ms_row_id (cr_messages r @ ms))"
    using m IH f by (fastforce simp: sorted_wrt_append)
  have ids: "\<forall>x \<in> set (cr_messages r @ ms). cu_row_id c < ms_row_id x \<and> ms_row_id x \<le> cu_row_id c2"
    using m(2) IH f p(1) by fastforce
  show ?case
  proof (cases "n = 0")
    case True
    with page.hyps(5) have e: "c2 = c1" by (auto elim: chain.cases)
    show ?thesis
      using srt ids res p(1,2,3) f t True unfolding e by (auto simp: pending_def)
  next
    case False
    then have n: "n > 0" by simp
    from IH n pc1 have "cu_through_row_id c2 = pg_through pg" "int n \<le> pg_through pg - pg_scanned pg"
      by (auto simp: f)
    moreover have "cu_row_id c < pg_scanned pg"
      using pc1 [OF n] p(5) f by (auto simp: pending_def)
    ultimately show ?thesis
      using srt ids IH n t p(1) f by auto
  qed
qed

section \<open>The pages of a chain\<close>

text \<open>\<open>page_chain s nb a through steps b\<close>: the backend was asked for one page after the other, the first from
  \<open>a\<close> and each later one from exactly the checkpoint of the page before, up to that page's boundary; the last
  one's checkpoint is \<open>b\<close>.  With each page stands the policy that was loaded after it.\<close>

fun page_chain ::
  "'w server \<Rightarrow> string \<Rightarrow> int64 \<Rightarrow> int64 \<Rightarrow> (collection_page \<times> policy) list \<Rightarrow> int64 \<Rightarrow> bool" where
  "page_chain s nb a through [] b \<longleftrightarrow> a = b"
| "page_chain s nb a through ((page, p) # steps) b \<longleftrightarrow>
     (\<exists>n w w1 i w2. dp_collect (sv_deps s) a through n nb w = (Inr page, w1) \<and> loadPolicy s i w1 = (Inr p, w2))
     \<and> page_chain s nb (pg_scanned page) (pg_through page) steps b"

definition step_messages :: "'w server \<Rightarrow> collection_page \<times> policy \<Rightarrow> message list" where
  "step_messages s = (\<lambda>(page, p). page_messages s p (pg_rows page))"

text \<open>Rows that the backend has all the time: no page leaves one out between where it starts and its
  checkpoint.\<close>

definition lists_rows :: "'w server \<Rightarrow> string \<Rightarrow> collection_row set \<Rightarrow> bool" where
  "lists_rows s nb R \<longleftrightarrow> (\<forall>a through n w page w'. dp_collect (sv_deps s) a through n nb w = (Inr page, w') \<longrightarrow>
     (\<forall>row \<in> R. a < cw_row_id row \<and> cw_row_id row \<le> pg_scanned page \<longrightarrow> row \<in> set (pg_rows page)))"

lemma page_chain_covers:
  assumes "page_chain s nb a through steps b" "lists_rows s nb R" "row \<in> R" "a < cw_row_id row" "cw_row_id row \<le> b"
  shows "\<exists>page p. (page, p) \<in> set steps \<and> row \<in> set (pg_rows page)"
  using assms
proof (induction s nb a through steps b rule: page_chain.induct)
  case (1 s nb a through b)
  then show ?case by simp
next
  case (2 s nb a through page p steps b)
  show ?case
  proof (cases "cw_row_id row \<le> pg_scanned page")
    case True
    from "2.prems"(1) obtain n w w1 where "dp_collect (sv_deps s) a through n nb w = (Inr page, w1)" by auto
    with True "2.prems"(2-4) have "row \<in> set (pg_rows page)" unfolding lists_rows_def by blast
    then show ?thesis by auto
  next
    case False
    then have "pg_scanned page < cw_row_id row" by simp
    with "2.IH" "2.prems" show ?thesis by auto
  qed
qed

lemma step_messages_shown:
  assumes "(page, p) \<in> set steps" "row \<in> set (pg_rows page)" "row_message s p row = Some x"
  shows "x \<in> set (concat (map (step_messages s) steps))"
proof -
  have "x \<in> set (step_messages s (page, p))"
    using assms(2,3) by (force simp: step_messages_def page_messages_def map_filter_def)
  with assms(1) show ?thesis by auto
qed

lemma chain_pages:
  assumes "chain s n c ms c'" "cursor_server s" "rows_in_range s" "resumable s c"
  shows "\<exists>steps. length steps = n
     \<and> page_chain s (cu_not_before c) (cu_row_id c) (from_through c) steps (cu_row_id c')
     \<and> ms = concat (map (step_messages s) steps)
     \<and> (\<forall>step \<in> set steps. pg_through (fst step) = cu_through_row_id c')"
  using assms
proof (induction rule: chain.induct)
  case (stop c)
  then show ?case by simp
next
  case (page i limit c w resp w' r n' c1 n ms c2)
  from collect_step [OF page.prems page.hyps(1,2), of n'] obtain pg p w1 w2 where
    ok: "page_ok pg (cu_row_id c) (from_through c) (min limit (cf_max_collection_scan (sv_cfg s)))"
    and rc: "request_cursor s (continuation (cr_cursor r) n') = Inr ((next_cursor c pg)\<lparr>cu_v := 2\<rparr>)"
      "resumable s ((next_cursor c pg)\<lparr>cu_v := 2\<rparr>)"
    and "length (cr_cursor r) \<le> 2048" "cr_more r \<longleftrightarrow> \<not> pg_complete pg" "cr_range_complete r \<longleftrightarrow> pg_complete pg"
      "sorted_wrt (<) (map ms_row_id (cr_messages r))"
      "\<forall>x \<in> set (cr_messages r). cu_row_id c < ms_row_id x \<and> ms_row_id x \<le> pg_scanned pg"
    and m: "cr_messages r = page_messages s p (pg_rows pg)"
    and d: "dp_collect (sv_deps s) (cu_row_id c) (from_through c)
       (min limit (cf_max_collection_scan (sv_cfg s))) (from_not_before c) w = (Inr pg, w1)"
      "loadPolicy s i w1 = (Inr p, w2)" .
  from rc page.hyps(3) have c1: "c1 = (next_cursor c pg)\<lparr>cu_v := 2\<rparr>" and res: "resumable s c1" by simp_all
  have f: "cu_row_id c1 = pg_scanned pg" "cu_through_row_id c1 = pg_through pg" "cu_complete c1 = pg_complete pg"
    "cu_not_before c1 = (if pg_complete pg then [] else cu_not_before c)"
    by (simp_all add: c1)
  have nb: "from_not_before c = cu_not_before c" using page.prems(3) by (auto simp: resumable_def)
  from page.IH [OF page.prems(1,2) res] obtain steps where
    IH: "length steps = n" "page_chain s (cu_not_before c1) (cu_row_id c1) (from_through c1) steps (cu_row_id c2)"
      "ms = concat (map (step_messages s) steps)" "\<forall>step \<in> set steps. pg_through (fst step) = cu_through_row_id c2"
    by blast
  have through: "cu_through_row_id c2 = pg_through pg"
  proof (cases "n = 0")
    case True
    with page.hyps(5) f show ?thesis by (auto elim: chain.cases)
  next
    case False
    have "0 \<le> cu_row_id c" using page.prems(3) by (simp add: resumable_def)
    then have p: "pending c1"
      using False page.hyps(4) page_ok_progress(2,3,5) [OF ok] f by (auto simp: pending_def)
    from False have "n > 0" by simp
    with chain_resumable [OF page.hyps(5) page.prems(1,2) res] p have
      "cu_through_row_id c2 = cu_through_row_id c1" by blast
    with f(2) show ?thesis by (rule trans [rotated])
  qed
  have "page_chain s (cu_not_before c) (pg_scanned pg) (pg_through pg) steps (cu_row_id c2)"
  proof (cases steps)
    case Nil
    with IH(2) f show ?thesis by simp
  next
    case (Cons a as)
    with IH(1) page.hyps(4) have "\<not> cu_complete c1" by auto
    with IH(2) f show ?thesis by simp
  qed
  then have "page_chain s (cu_not_before c) (cu_row_id c) (from_through c) ((pg, p) # steps) (cu_row_id c2)"
    unfolding page_chain.simps using d(1) [unfolded nb] d(2) by (intro conjI exI) assumption+
  moreover have "length ((pg, p) # steps) = Suc n" using IH(1) by simp
  moreover have "cr_messages r @ ms = concat (map (step_messages s) ((pg, p) # steps))"
    using IH(3) by (simp add: step_messages_def m)
  moreover have "\<forall>step \<in> set ((pg, p) # steps). pg_through (fst step) = cu_through_row_id c2"
    using IH(4) through by simp
  ultimately show ?case by blast
qed

section \<open>A page of the small broker\<close>

definition start_example :: cursor where
  "start_example = zero_cursor\<lparr>cu_v := 1, cu_account_id := ''a'', cu_generation := ''g1''\<rparr>"

lemma example_cursor_server: "cursor_server example_server" "rows_in_range example_server"
  "resumable example_server start_example"
  using plain_aead_laws
  by (auto simp: cursor_server_def rows_in_range_def resumable_def start_example_def zero_cursor_def
      example_server_def example_deps_def example_config_def example_page_def ascii_valid)

definition example_exposed :: message where
  "example_exposed = \<lparr>ms_account_id = ''a'', ms_database_generation = ''g1'', ms_row_id = 7, ms_chat_id = 1,
      ms_chat_guid = ''iMessage;+;c1'', ms_guid = ''m7'', ms_sender = ''+14155550100'', ms_from_me = False,
      ms_text = ''hi'', ms_created_at = ''2026-01-02T03:04:05Z''\<rparr>"

definition example_result :: collect_result where
  "example_result = \<lparr>cr_messages = [example_exposed],
     cr_cursor = encodeCursor plain_aead ''home'' [] (next_cursor start_example example_page),
     cr_more = False, cr_range_complete = True\<rparr>"

lemma example_collects:
  "collect_from example_server ''1'' 50 start_example [example_policy] =
     (Some (Success ''1'' (CollectResult example_result)), [])"
proof -
  have d: "dp_collect (sv_deps example_server) a t n nb w = (Inr example_page, w)"
    "dp_nonce (sv_deps example_server) w = ([], w)" "sv_cipher example_server = plain_aead"
    "cf_max_collection_scan (sv_cfg example_server) = 500" "cf_instance (sv_cfg example_server) = ''home''"
    for a t n nb w
    by (simp_all add: example_server_def example_deps_def example_config_def)
  have c: "cu_row_id start_example = 0" "cu_through_row_id start_example = 0" "\<not> cu_complete start_example"
    by (simp_all add: start_example_def zero_cursor_def)
  have v: "ValidateCollectionPage example_page 0 0 50"
    by (simp add: ValidateCollectionPage_iff page_ok_def example_page_def coherent_row_def
        example_message_def example_chat_def)
  have x: "exposeMessage example_server example_message example_chat example_policy = Inr (Some example_exposed)"
    unfolding exposeMessage_iff example_exposed_def by (rule example_shown) (simp add: example_policy_def)
  have "validChat example_chat" by (simp add: validChat_def example_chat_def)
  with x have r: "collect_rows example_server example_policy (pg_rows example_page) [] = Some [example_exposed]"
    by (simp add: example_page_def)
  show ?thesis
    by (simp add: collect_from_def Let_def d c backend_call_def or_return_def v example_policy_loads r
        collect_success_def example_result_def)
      (simp add: example_page_def)
qed

section \<open>Properties\<close>

text \<open>C8: The cursor in a collection response is a continuation.  The response shows the messages of one page, asked
  for from the current position and filtered by the policy loaded after it; its cursor is at most 2048 bytes;
  and the next request with it starts exactly at that page's checkpoint, with its boundary and completeness, on the
  same account and generation, and with the same time limit, which is dropped on completion.  So it
  never goes back, an unfinished page advances it, a boundary once fixed stays, and the
  delivered messages are in ascending row order between the old position and the new one.  The conditions: the
  cipher opens what it sealed, with no more than GCM's overhead; account and generation are non-empty UTF-8 of at
  most 128 and 32 bytes; the backend's boundaries are 64-bit; the current position is on this account and
  generation and not negative, its time limit canonical and only there while unfinished.\<close>

theorem collect_resumes:
  assumes "cursor_server s" "rows_in_range s" "resumable s c"
    and "collect_from s i limit c w = (Some resp, w')" "rs_result resp = Some (CollectResult r)"
  shows "\<exists>page p w1 w2 c'.
     dp_collect (sv_deps s) (cu_row_id c) (if cu_complete c then 0 else cu_through_row_id c)
       (min limit (cf_max_collection_scan (sv_cfg s))) (if cu_complete c then [] else cu_not_before c) w = (Inr page, w1)
     \<and> loadPolicy s i w1 = (Inr p, w2) \<and> cr_messages r = page_messages s p (pg_rows page)
     \<and> request_cursor s (continuation (cr_cursor r) n) = Inr c'
     \<and> c' = c\<lparr>cu_v := 2, cu_row_id := pg_scanned page, cu_through_row_id := pg_through page,
          cu_complete := pg_complete page, cu_not_before := (if pg_complete page then [] else cu_not_before c)\<rparr>
     \<and> resumable s c' \<and> length (cr_cursor r) \<le> 2048
     \<and> cu_row_id c \<le> cu_row_id c' \<and> cu_row_id c' \<le> cu_through_row_id c'
     \<and> (from_through c \<noteq> 0 \<longrightarrow> cu_through_row_id c' = from_through c)
     \<and> (cr_more r \<longleftrightarrow> \<not> cu_complete c') \<and> (cr_range_complete r \<longleftrightarrow> \<not> cr_more r)
     \<and> (cr_more r \<longrightarrow> cu_row_id c < cu_row_id c' \<and> cu_not_before c' = cu_not_before c)
     \<and> sorted_wrt (<) (map ms_row_id (cr_messages r))
     \<and> (\<forall>x \<in> set (cr_messages r). cu_row_id c < ms_row_id x \<and> ms_row_id x \<le> cu_row_id c')"
proof -
  from collect_step [OF assms, of n] obtain pg p w1 w2 where
    ok: "page_ok pg (cu_row_id c) (from_through c) (min limit (cf_max_collection_scan (sv_cfg s)))"
    and r: "request_cursor s (continuation (cr_cursor r) n) = Inr ((next_cursor c pg)\<lparr>cu_v := 2\<rparr>)"
      "resumable s ((next_cursor c pg)\<lparr>cu_v := 2\<rparr>)" "length (cr_cursor r) \<le> 2048"
      "cr_more r \<longleftrightarrow> \<not> pg_complete pg" "cr_range_complete r \<longleftrightarrow> pg_complete pg"
      "sorted_wrt (<) (map ms_row_id (cr_messages r))"
      "\<forall>x \<in> set (cr_messages r). cu_row_id c < ms_row_id x \<and> ms_row_id x \<le> pg_scanned pg"
    and d: "cr_messages r = page_messages s p (pg_rows pg)"
      "dp_collect (sv_deps s) (cu_row_id c) (from_through c)
         (min limit (cf_max_collection_scan (sv_cfg s))) (from_not_before c) w = (Inr pg, w1)"
      "loadPolicy s i w1 = (Inr p, w2)" .
  have e: "(next_cursor c pg)\<lparr>cu_v := 2\<rparr> = c\<lparr>cu_v := 2, cu_row_id := pg_scanned pg, cu_through_row_id := pg_through pg,
          cu_complete := pg_complete pg, cu_not_before := (if pg_complete pg then [] else cu_not_before c)\<rparr>"
    by (rule cursor.equality) (simp_all add: next_cursor_def Let_def)
  have "from_through c \<noteq> 0 \<Longrightarrow> pg_through pg = from_through c" using ok by (simp add: page_ok_def)
  with r page_ok_progress [OF ok] show ?thesis
    by (intro exI [of _ pg] exI [of _ p] exI [of _ w1] exI [of _ w2] exI [of _ "(next_cursor c pg)\<lparr>cu_v := 2\<rparr>"]
        conjI e d) simp_all
qed

lemma collect_resumes_witness:
  "\<exists>c'. request_cursor example_server (continuation (cr_cursor example_result) 50) = Inr c'
     \<and> 0 \<le> cu_row_id c' \<and> cu_complete c'"
proof -
  from collect_resumes [OF example_cursor_server example_collects, of example_result 50]
  obtain c' where "request_cursor example_server (continuation (cr_cursor example_result) 50) = Inr c'"
    "cu_row_id start_example \<le> cu_row_id c'" "cr_more example_result \<longleftrightarrow> \<not> cu_complete c'" by auto
  then show ?thesis by (auto simp: example_result_def start_example_def zero_cursor_def)
qed

text \<open>C7: Following \<open>more\<close> terminates and loses or repeats nothing: over any chain of successful requests, with
  any policy, backend and clock changes between them, the backend was asked for one page per request, the first
  from the starting position and each later one from exactly the checkpoint of the page before; what was
  delivered is, page by page, what the policy loaded after it lets show.  So every row that the
  backend has throughout, past the starting position and up to the last one, was on a page, and its message was
  delivered if that page's policy shows it.  The messages are strictly ascending
  by row and lie between the first and the last position; the boundary of every page is the one that the first page
  (or the pending cursor) fixed; the last cursor is complete exactly when it has reached the
  boundary; and there are at most as many requests as rows up to the boundary, plus one.  The conditions are those
  of a cursor that resumes.\<close>

theorem chain_covers:
  assumes "cursor_server s" "rows_in_range s" "resumable s c" "chain s n c ms c'" "0 < n"
  shows "resumable s c' \<and> sorted_wrt (<) (map ms_row_id ms)
     \<and> (\<forall>x \<in> set ms. cu_row_id c < ms_row_id x \<and> ms_row_id x \<le> cu_row_id c')
     \<and> (cu_complete c' \<longleftrightarrow> cu_row_id c' = cu_through_row_id c')
     \<and> int n \<le> cu_through_row_id c' - cu_row_id c + 1
     \<and> (pending c \<longrightarrow> cu_through_row_id c' = cu_through_row_id c \<and> int n \<le> cu_through_row_id c - cu_row_id c)
     \<and> (\<exists>steps. length steps = n
          \<and> page_chain s (cu_not_before c) (cu_row_id c) (if cu_complete c then 0 else cu_through_row_id c)
              steps (cu_row_id c')
          \<and> ms = concat (map (\<lambda>(page, p). page_messages s p (pg_rows page)) steps)
          \<and> (\<forall>(page, p) \<in> set steps. pg_through page = cu_through_row_id c')
          \<and> (\<forall>R. lists_rows s (cu_not_before c) R \<longrightarrow>
               (\<forall>row \<in> R. cu_row_id c < cw_row_id row \<and> cw_row_id row \<le> cu_row_id c' \<longrightarrow>
                  (\<exists>(page, p) \<in> set steps. row \<in> set (pg_rows page)
                     \<and> (\<forall>x. row_message s p row = Some x \<longrightarrow> x \<in> set ms)))))"
proof -
  note c = chain_resumable [OF assms(4,1-3)]
  from chain_pages [OF assms(4,1-3)] obtain steps where st: "length steps = n"
     "page_chain s (cu_not_before c) (cu_row_id c) (from_through c) steps (cu_row_id c')"
     "ms = concat (map (step_messages s) steps)" "\<forall>step \<in> set steps. pg_through (fst step) = cu_through_row_id c'"
    by blast
  have all: "\<exists>(page, p) \<in> set steps. row \<in> set (pg_rows page) \<and> (\<forall>x. row_message s p row = Some x \<longrightarrow> x \<in> set ms)"
    if "lists_rows s (cu_not_before c) R" "row \<in> R" "cu_row_id c < cw_row_id row" "cw_row_id row \<le> cu_row_id c'" for R row
    using page_chain_covers [OF st(2) that] step_messages_shown unfolding st(3) by fast
  have t: "\<forall>(page, p) \<in> set steps. pg_through page = cu_through_row_id c'" using st(4) by auto
  have m: "ms = concat (map (\<lambda>(page, p). page_messages s p (pg_rows page)) steps)"
    using st(3) by (simp add: step_messages_def)
  show ?thesis
    using c assms(5) st(1,2) m t all by (intro conjI exI [of _ steps]) (blast | simp)+
qed

lemma chain_covers_witness:
  "\<exists>c'. chain example_server 1 start_example [example_exposed] c'
     \<and> 0 < ms_row_id example_exposed \<and> ms_row_id example_exposed \<le> cu_row_id c'
     \<and> lists_rows example_server [] (set (pg_rows example_page))"
proof -
  obtain pg where "request_cursor example_server (continuation (cr_cursor example_result) 50) =
      Inr ((next_cursor start_example pg)\<lparr>cu_v := 2\<rparr>)"
    by (rule collect_step [OF example_cursor_server example_collects, of example_result 50]) simp_all
  then have ch: "chain example_server (Suc 0) start_example (cr_messages example_result @ [])
      ((next_cursor start_example pg)\<lparr>cu_v := 2\<rparr>)"
    by (intro chain.page [OF example_collects _ _ _ chain.stop]) simp_all
  have m: "cr_messages example_result @ [] = [example_exposed]" by (simp add: example_result_def)
  note ch = ch [unfolded m]
  have l: "lists_rows example_server [] (set (pg_rows example_page))"
    by (simp add: lists_rows_def example_server_def example_deps_def)
  have "0 < ms_row_id example_exposed \<and> ms_row_id example_exposed \<le> cu_row_id ((next_cursor start_example pg)\<lparr>cu_v := 2\<rparr>)"
    using chain_covers [OF example_cursor_server ch] by (simp add: start_example_def zero_cursor_def)
  with ch l show ?thesis by auto
qed

end
