(* ===== verification/Streaming.thy ===== *)
theory Streaming
  imports Backend
begin

text \<open>
  The concurrency of \<open>stream.go\<close> and of \<open>Process.run\<close>: the child process, the goroutine that reads its output
  and offers events on an unbuffered channel, and the loop that receives them, under a context that may end
  at any moment.  The child's side is one step relation (it writes, ends its output, exits; the deadline
  passes), the broker's goroutines and the kill they cause another; every interleaving is allowed.
\<close>

section \<open>The state\<close>

text \<open>One run: what each row is handled with, the final identity check, and what the child would write and
  what waiting for it would report if nobody stopped it.\<close>

record 's stream_run =
  sr_handle :: "bytes \<Rightarrow> 's \<Rightarrow> 's option"
  sr_rows :: int
  sr_final :: "berr + unit"
  sr_output :: bytes
  sr_read_ok :: bool
  sr_exit_ok :: bool

text \<open>The child, with what waiting for it reports, and the goroutine: in \<open>Scan\<close> with the bytes counted so far and the lines to come, in the first \<open>select\<close> with a
  line, waiting for the process to end, in the last \<open>select\<close>, or finished, with the channels closed.\<close>

datatype child = Running | Exited bool

datatype reader =
    Scanning nat "bytes list"
  | Offering bytes nat "bytes list"
  | Reaping "read_error option"
  | OfferingFinal "read_error option" bool
  | ReaderDone

record 's stream =
  st_ctx :: "backend_error option"
  st_child :: child
  st_reader :: reader
  st_count :: int
  st_acc :: 's
  st_seen :: "observation list"
  st_result :: "(berr + 's) option"
  st_closing :: bool
  st_returned :: bool

definition stream_start :: "'s stream_run \<Rightarrow> 's \<Rightarrow> 's stream" where
  "stream_start c acc = \<lparr>st_ctx = None, st_child = Running,
     st_reader = Scanning 0 (fst (scan_tokens maxBackendLineBytes (sr_output c))), st_count = 0, st_acc = acc,
     st_seen = [], st_result = None, st_closing = False, st_returned = False\<rparr>"

text \<open>The context of the child: it ends with the run's, or when \<open>close\<close> cancels it.\<close>

definition inner_done :: "'s stream \<Rightarrow> bool" where
  "inner_done s \<longleftrightarrow> st_ctx s \<noteq> None \<or> st_closing s"

section \<open>The steps\<close>

text \<open>The body of the reader's loop.\<close>

definition take_token :: "nat \<Rightarrow> bytes \<Rightarrow> bytes list \<Rightarrow> reader" where
  "take_token tot l ls =
     (let tot = tot + length l + 1 in
      if tot > maxBackendOutputBytes then Reaping (Some ReadOverflow)
      else if trim_space l = [] then Scanning tot ls
      else Offering l tot ls)"

definition scan_error :: "'s stream_run \<Rightarrow> read_error option" where
  "scan_error c = (if snd (scan_tokens maxBackendLineBytes (sr_output c)) then Some ReadTooLong
     else if sr_read_ok c then None else Some ReadIO)"

text \<open>The body of the loop of \<open>run\<close>, for what its \<open>select\<close> observes.\<close>

definition observe :: "'s stream_run \<Rightarrow> observation \<Rightarrow> 's stream \<Rightarrow> 's stream" where
  "observe c ob s =
     (let s = s\<lparr>st_seen := st_seen s @ [ob]\<rparr> in
      case ob of
        CtxDone e \<Rightarrow> s\<lparr>st_result := Some (Inl [ErrFailed, e])\<rparr>
      | EventsClosed x \<Rightarrow> s\<lparr>st_result := Some (Inl (ErrFailed # option_list x))\<rparr>
      | Received ev x \<Rightarrow>
          if x \<noteq> None then s\<lparr>st_result := Some (Inl (ErrFailed # option_list x))\<rparr>
          else (case ev of
              Final r ok \<Rightarrow>
                if r \<noteq> None \<or> \<not> ok then s\<lparr>st_result := Some (Inl [ErrFailed])\<rparr>
                else s\<lparr>st_result := Some (case sr_final c of Inl e \<Rightarrow> Inl e | Inr _ \<Rightarrow> Inr (st_acc s))\<rparr>
            | Line l \<Rightarrow>
                let s = s\<lparr>st_count := st_count s + 1\<rparr> in
                if st_count s > sr_rows c then s\<lparr>st_result := Some (Inl [ErrFailed])\<rparr>
                else (case sr_handle c l (st_acc s) of
                    None \<Rightarrow> s\<lparr>st_result := Some (Inl [ErrFailed])\<rparr>
                  | Some acc \<Rightarrow> s\<lparr>st_acc := acc\<rparr>)))"

inductive child_step :: "'s stream_run \<Rightarrow> 's stream \<Rightarrow> 's stream \<Rightarrow> bool" for c where
  writes: "st_reader s = Scanning tot (l # ls) \<Longrightarrow> child_step c s (s\<lparr>st_reader := take_token tot l ls\<rparr>)"
| ends: "st_reader s = Scanning tot [] \<Longrightarrow> child_step c s (s\<lparr>st_reader := Reaping (scan_error c)\<rparr>)"
| exits: "st_child s = Running \<Longrightarrow> child_step c s (s\<lparr>st_child := Exited (sr_exit_ok c)\<rparr>)"
| expires: "st_ctx s = None \<Longrightarrow> e \<in> {DeadlineExceeded, Canceled} \<Longrightarrow> child_step c s (s\<lparr>st_ctx := Some e\<rparr>)"

text \<open>Once the child's context has ended, or its output was too long, the child is killed; its output is then
  cut anywhere, and waiting for it may report the cancellation.\<close>

inductive go_step :: "'s stream_run \<Rightarrow> 's stream \<Rightarrow> 's stream \<Rightarrow> bool" for c where
  receive_line: "st_result s = None \<Longrightarrow> st_reader s = Offering l tot ls \<Longrightarrow>
     go_step c s (observe c (Received (Line l) (st_ctx s)) (s\<lparr>st_reader := Scanning tot ls\<rparr>))"
| receive_final: "st_result s = None \<Longrightarrow> st_reader s = OfferingFinal r ok \<Longrightarrow>
     go_step c s (observe c (Received (Final r ok) (st_ctx s)) (s\<lparr>st_reader := ReaderDone\<rparr>))"
| see_closed: "st_result s = None \<Longrightarrow> st_reader s = ReaderDone \<Longrightarrow> go_step c s (observe c (EventsClosed (st_ctx s)) s)"
| see_done: "st_result s = None \<Longrightarrow> st_ctx s = Some e \<Longrightarrow> go_step c s (observe c (CtxDone e) s)"
| close_stream: "st_result s \<noteq> None \<Longrightarrow> \<not> st_closing s \<Longrightarrow> go_step c s (s\<lparr>st_closing := True\<rparr>)"
| return: "st_closing s \<Longrightarrow> st_reader s = ReaderDone \<Longrightarrow> \<not> st_returned s \<Longrightarrow> go_step c s (s\<lparr>st_returned := True\<rparr>)"
| killed: "st_child s = Running \<Longrightarrow> inner_done s \<or> (\<exists>r. st_reader s = Reaping (Some r)) \<Longrightarrow>
     go_step c s (s\<lparr>st_child := Exited False\<rparr>)"
| cut_line: "inner_done s \<Longrightarrow> st_reader s = Scanning tot (l # ls) \<Longrightarrow> length l' < maxBackendLineBytes \<Longrightarrow>
     go_step c s (s\<lparr>st_reader := take_token tot l' []\<rparr>)"
| cut_end: "inner_done s \<Longrightarrow> st_reader s = Scanning tot ls \<Longrightarrow> go_step c s (s\<lparr>st_reader := Reaping r\<rparr>)"
| abandon_line: "inner_done s \<Longrightarrow> st_reader s = Offering l tot ls \<Longrightarrow> go_step c s (s\<lparr>st_reader := Reaping r\<rparr>)"
| reap: "st_reader s = Reaping r \<Longrightarrow> st_child s = Exited ok \<Longrightarrow> go_step c s (s\<lparr>st_reader := OfferingFinal r ok\<rparr>)"
| reap_cancelled: "inner_done s \<Longrightarrow> st_reader s = Reaping r \<Longrightarrow> st_child s = Exited ok \<Longrightarrow>
     go_step c s (s\<lparr>st_reader := OfferingFinal r False\<rparr>)"
| abandon_final: "inner_done s \<Longrightarrow> st_reader s = OfferingFinal r ok \<Longrightarrow> go_step c s (s\<lparr>st_reader := ReaderDone\<rparr>)"

inductive streams :: "'s stream_run \<Rightarrow> 's \<Rightarrow> 's stream \<Rightarrow> bool" for c acc where
  init: "streams c acc (stream_start c acc)"
| child: "streams c acc s \<Longrightarrow> child_step c s t \<Longrightarrow> streams c acc t"
| broker: "streams c acc s \<Longrightarrow> go_step c s t \<Longrightarrow> streams c acc t"

section \<open>Every run ends\<close>

fun reader_work :: "reader \<Rightarrow> nat" where
  "reader_work (Scanning tot ls) = 2 * length ls + 3"
| "reader_work (Offering l tot ls) = 2 * length ls + 4"
| "reader_work (Reaping r) = 2"
| "reader_work (OfferingFinal r ok) = 1"
| "reader_work ReaderDone = 0"

definition stream_work :: "'s stream \<Rightarrow> nat" where
  "stream_work s = reader_work (st_reader s) + (if st_child s = Running then 1 else 0)
     + (if st_ctx s = None then 1 else 0) + (if st_result s = None then 1 else 0)
     + (if st_closing s then 0 else 1) + (if st_returned s then 0 else 1)"

lemma observe_fields [simp]:
  "st_ctx (observe c ob s) = st_ctx s" "st_child (observe c ob s) = st_child s"
  "st_reader (observe c ob s) = st_reader s" "st_closing (observe c ob s) = st_closing s"
  "st_returned (observe c ob s) = st_returned s" "st_seen (observe c ob s) = st_seen s @ [ob]"
  by (simp_all add: observe_def Let_def split: observation.split stream_event.split option.split)

text \<open>Every observation but a line received in time ends the loop.\<close>

lemma observe_ends:
  "st_result (observe c (CtxDone e) s) \<noteq> None"
  "st_result (observe c (EventsClosed x) s) \<noteq> None"
  "st_result (observe c (Received (Final r ok) x) s) \<noteq> None"
  "st_result (observe c (Received ev (Some e)) s) \<noteq> None"
  by (simp_all add: observe_def Let_def)

lemma take_token_work [simp]: "reader_work (take_token tot l ls) < 2 * length ls + 5"
  by (simp add: take_token_def Let_def)

lemma observe_keeps: "st_result s \<noteq> None \<Longrightarrow> st_result (observe c ob s) \<noteq> None"
  by (auto simp: observe_def Let_def split: observation.split stream_event.split option.split)

lemma observe_work: "stream_work (observe c ob s) \<le> stream_work s"
proof (cases "st_result s")
  case (Some r)
  then show ?thesis using observe_keeps [of s c ob] by (auto simp: stream_work_def)
qed (simp add: stream_work_def)

lemma observe_work_ends:
  "st_result s = None \<Longrightarrow> st_result (observe c ob s) \<noteq> None \<Longrightarrow> stream_work (observe c ob s) < stream_work s"
  by (simp add: stream_work_def)

lemma stream_work_reader:
  "reader_work r < reader_work (st_reader s) \<Longrightarrow> stream_work (s\<lparr>st_reader := r\<rparr>) < stream_work s"
  by (simp add: stream_work_def)

lemma child_step_work: "child_step c s t \<Longrightarrow> stream_work t < stream_work s"
proof (induction rule: child_step.induct)
  case (writes s tot l ls)
  then show ?case using take_token_work [of tot l ls] by (simp add: stream_work_def del: take_token_work)
qed (simp_all add: stream_work_def)

lemma go_step_work: "go_step c s t \<Longrightarrow> stream_work t < stream_work s"
proof (induction rule: go_step.induct)
  case (receive_line s l tot ls)
  then show ?case
    by (intro le_less_trans [OF observe_work] stream_work_reader) simp
next
  case (receive_final s r ok)
  then show ?case
    by (intro le_less_trans [OF observe_work] stream_work_reader) simp
next
  case (see_closed s)
  then show ?case by (intro observe_work_ends observe_ends)
next
  case (see_done s e)
  then show ?case by (intro observe_work_ends observe_ends)
next
  case (cut_line s tot l ls l')
  then show ?case
    using take_token_work [of tot l' "[]"] by (intro stream_work_reader) (simp del: take_token_work)
next
  case (cut_end s tot ls r)
  then show ?case by (intro stream_work_reader) simp
next
  case (abandon_line s l tot ls r)
  then show ?case by (intro stream_work_reader) simp
qed (simp_all add: stream_work_def)

text \<open>Once the context has ended, or the loop has its result, something can always happen until the call
  returns.\<close>

lemma go_step_enabled:
  assumes "st_ctx s \<noteq> None \<or> st_result s \<noteq> None" and "\<not> st_returned s"
  shows "\<exists>t. go_step c s t"
proof (cases "st_closing s \<and> st_result s \<noteq> None")
  case False
  with assms show ?thesis
    by (cases "st_result s = None") (auto intro: see_done close_stream)
next
  case True
  then have d: "inner_done s" by (simp add: inner_done_def)
  show ?thesis
  proof (cases "st_reader s")
    case (Reaping r)
    with d show ?thesis by (cases "st_child s") (auto intro: killed reap)
  qed (use d True assms(2) in \<open>auto intro: cut_end abandon_line abandon_final return\<close>)
qed

definition stream_inv :: "'s stream \<Rightarrow> bool" where
  "stream_inv s \<longleftrightarrow>
     ((\<exists>r ok. st_reader s = OfferingFinal r ok) \<or> st_reader s = ReaderDone \<longrightarrow> st_child s \<noteq> Running)
     \<and> (st_closing s \<longrightarrow> st_result s \<noteq> None)
     \<and> (st_returned s \<longrightarrow> st_closing s \<and> st_reader s = ReaderDone)"

lemma take_token_cases:
  "take_token tot l ls \<noteq> OfferingFinal r ok" "take_token tot l ls \<noteq> ReaderDone"
  by (simp_all add: take_token_def Let_def)

lemma stream_inv_child: "child_step c s t \<Longrightarrow> stream_inv s \<Longrightarrow> stream_inv t"
  by (induction rule: child_step.induct) (auto simp: stream_inv_def take_token_cases)

lemma stream_inv_observe: "st_result s = None \<Longrightarrow> stream_inv s \<Longrightarrow> stream_inv (observe c ob s)"
  by (auto simp: stream_inv_def)

lemma stream_inv_go: "go_step c s t \<Longrightarrow> stream_inv s \<Longrightarrow> stream_inv t"
proof (induction rule: go_step.induct)
  case (receive_line s l tot ls)
  then show ?case by (intro stream_inv_observe) (auto simp: stream_inv_def)
next
  case (receive_final s r ok)
  then show ?case by (intro stream_inv_observe) (auto simp: stream_inv_def)
next
  case (see_closed s)
  then show ?case by (intro stream_inv_observe)
next
  case (see_done s e)
  then show ?case by (intro stream_inv_observe)
qed (auto simp: stream_inv_def take_token_cases)

lemma streams_inv: "streams c acc s \<Longrightarrow> stream_inv s"
proof (induction rule: streams.induct)
  case init
  show ?case by (simp add: stream_inv_def stream_start_def)
qed (auto intro: stream_inv_child stream_inv_go)

lemma returned_final: "streams c acc s \<Longrightarrow> st_returned s \<Longrightarrow>
    st_result s \<noteq> None \<and> st_reader s = ReaderDone \<and> st_child s \<noteq> Running"
  using streams_inv [of c acc s] by (auto simp: stream_inv_def)

definition stream_step :: "'s stream_run \<Rightarrow> 's stream \<Rightarrow> 's stream \<Rightarrow> bool" where
  "stream_step c s t \<longleftrightarrow> child_step c s t \<or> go_step c s t"

lemma stream_step_streams: "(stream_step c ^^ n) (stream_start c acc) s \<Longrightarrow> streams c acc s"
proof (induction n arbitrary: s)
  case 0
  then show ?case by (auto intro: streams.init)
next
  case (Suc n)
  then obtain u where "streams c acc u" "stream_step c u s" by auto
  then show ?case
    unfolding stream_step_def using streams.child streams.broker by metis
qed

lemma stream_step_work: "(stream_step c ^^ n) s t \<Longrightarrow> n + stream_work t \<le> stream_work s"
proof (induction n arbitrary: t)
  case (Suc n)
  then obtain u where u: "(stream_step c ^^ n) s u" "stream_step c u t" by auto
  have "stream_work t < stream_work u"
    using u(2) child_step_work go_step_work by (auto simp: stream_step_def)
  with Suc.IH [OF u(1)] show ?case by linarith
qed simp

text \<open>The only state in which nothing can happen any more is that of a run that has returned: its deadline
  can always pass.\<close>

lemma stream_stuck: "(\<nexists>t. stream_step c s t) \<Longrightarrow> st_returned s"
  using go_step_enabled [of s c] expires [of s Canceled c] by (auto simp: stream_step_def)

section \<open>The loop of the model\<close>

definition resumes :: "'s stream_run \<Rightarrow> 's stream \<Rightarrow> observation list \<Rightarrow> (berr + 's) option" where
  "resumes c s obs = (case st_result s of
       Some r \<Rightarrow> Some r
     | None \<Rightarrow> stream_loop (sr_handle c) (sr_rows c) (sr_final c) (st_count s) obs (st_acc s))"

lemma resumes_observe: "st_result s = None \<Longrightarrow> resumes c (observe c ob s) obs = resumes c s (ob # obs)"
  by (simp add: resumes_def observe_def Let_def
      split: observation.split stream_event.split option.split sum.split)

lemma resumes_update [simp]:
  "resumes c (s\<lparr>st_reader := r\<rparr>) = resumes c s" "resumes c (s\<lparr>st_child := k\<rparr>) = resumes c s"
  "resumes c (s\<lparr>st_ctx := e\<rparr>) = resumes c s" "resumes c (s\<lparr>st_closing := b\<rparr>) = resumes c s"
  "resumes c (s\<lparr>st_returned := b\<rparr>) = resumes c s"
  by (cases "st_result s"; simp add: resumes_def fun_eq_iff)+

text \<open>What a run has seen so far leads the loop of \<open>run\<close> to the state it is in.\<close>

definition follows :: "'s stream_run \<Rightarrow> 's \<Rightarrow> 's stream \<Rightarrow> bool" where
  "follows c acc s \<longleftrightarrow> (\<forall>obs.
     stream_loop (sr_handle c) (sr_rows c) (sr_final c) 0 (st_seen s @ obs) acc = resumes c s obs)"

lemma follows_update [simp]:
  "follows c acc (s\<lparr>st_reader := r\<rparr>) = follows c acc s" "follows c acc (s\<lparr>st_child := k\<rparr>) = follows c acc s"
  "follows c acc (s\<lparr>st_ctx := e\<rparr>) = follows c acc s" "follows c acc (s\<lparr>st_closing := b\<rparr>) = follows c acc s"
  "follows c acc (s\<lparr>st_returned := b\<rparr>) = follows c acc s"
  by (simp_all add: follows_def)

lemma follows_observe: "st_result s = None \<Longrightarrow> follows c acc s \<Longrightarrow> follows c acc (observe c ob s)"
  by (simp add: follows_def resumes_observe)

lemma streams_follow: "streams c acc s \<Longrightarrow> follows c acc s"
proof (induction rule: streams.induct)
  case init
  show ?case by (simp add: follows_def resumes_def stream_start_def)
next
  case (child s t)
  then show ?case by (auto elim: child_step.cases)
next
  case (broker s t)
  from broker(2,3) show ?case
    by (induction rule: go_step.induct) (simp_all add: follows_observe)
qed

lemma stream_result_loop:
  assumes "streams c acc s" and "st_result s = Some r"
  shows "stream_loop (sr_handle c) (sr_rows c) (sr_final c) 0 (st_seen s) acc = Some r"
  using streams_follow [OF assms(1)] assms(2)
  by (auto simp: follows_def resumes_def dest: spec [of _ "[]"])

section \<open>What an undisturbed run has seen\<close>

text \<open>The lines the reader will still send, and the error it will end with, when nothing stops it.\<close>

fun ahead :: "'s stream_run \<Rightarrow> reader \<Rightarrow> bytes list \<times> read_error option" where
  "ahead c (Scanning tot ls) = (case emit_lines tot ls of
     (sent, overflow) \<Rightarrow> (sent, if overflow then Some ReadOverflow else scan_error c))"
| "ahead c (Offering l tot ls) = (case emit_lines tot ls of
     (sent, overflow) \<Rightarrow> (l # sent, if overflow then Some ReadOverflow else scan_error c))"
| "ahead c (Reaping r) = ([], r)"
| "ahead c (OfferingFinal r ok) = ([], r)"
| "ahead c ReaderDone = ([], None)"

abbreviation whole_output :: "'s stream_run \<Rightarrow> bytes list \<times> read_error option" where
  "whole_output c \<equiv> ahead c (Scanning 0 (fst (scan_tokens maxBackendLineBytes (sr_output c))))"

lemma ahead_take_token: "ahead c (take_token tot l ls) = ahead c (Scanning tot (l # ls))"
  by (auto simp: take_token_def Let_def split: prod.split)

lemma stream_events_whole:
  "stream_events (sr_output c) (sr_read_ok c) ok = map Line (fst (whole_output c)) @ [Final (snd (whole_output c)) ok]"
  by (simp add: stream_events_def scan_error_def split: prod.split)

text \<open>The child is killed only by the end of its context or an unreadable output.\<close>

fun child_ok :: "'s stream_run \<Rightarrow> child \<Rightarrow> reader \<Rightarrow> bool" where
  "child_ok c k (Reaping (Some e)) = True"
| "child_ok c k (OfferingFinal (Some e) ok) = True"
| "child_ok c k (OfferingFinal None ok) = (ok = sr_exit_ok c)"
| "child_ok c k ReaderDone = False"
| "child_ok c k r = (k = Running \<or> k = Exited (sr_exit_ok c))"

definition in_order :: "'s stream_run \<Rightarrow> 's stream \<Rightarrow> bool" where
  "in_order c s \<longleftrightarrow> child_ok c (st_child s) (st_reader s)
     \<and> (\<exists>lines. st_seen s = map (\<lambda>l. Received (Line l) None) lines
          \<and> whole_output c = (lines @ fst (ahead c (st_reader s)), snd (ahead c (st_reader s))))"

definition good_end :: "'s stream_run \<Rightarrow> 's stream \<Rightarrow> bool" where
  "good_end c s \<longleftrightarrow> sr_exit_ok c \<and> st_seen s = plays (sr_output c) (sr_read_ok c) True"

definition stream_order :: "'s stream_run \<Rightarrow> 's stream \<Rightarrow> bool" where
  "stream_order c s \<longleftrightarrow>
     (st_ctx s = None \<and> st_result s = None \<longrightarrow> \<not> st_closing s \<and> in_order c s)
     \<and> (\<forall>x. st_result s = Some (Inr x) \<longrightarrow> good_end c s)"

lemma child_ok_cases:
  "child_ok c k (Scanning tot ls) \<longleftrightarrow> k = Running \<or> k = Exited (sr_exit_ok c)"
  "child_ok c k (Offering l tot ls) \<longleftrightarrow> k = Running \<or> k = Exited (sr_exit_ok c)"
  "child_ok c k (Reaping r) \<longleftrightarrow> r \<noteq> None \<or> k = Running \<or> k = Exited (sr_exit_ok c)"
  "child_ok c k (OfferingFinal r ok) \<longleftrightarrow> r \<noteq> None \<or> ok = sr_exit_ok c"
  by (cases r; simp)+

lemma child_ok_take: "child_ok c k (Scanning tot' ls') \<Longrightarrow> child_ok c k (take_token tot l ls)"
  by (simp add: take_token_def Let_def)

lemma in_order_child: "child_step c s t \<Longrightarrow> in_order c s \<Longrightarrow> in_order c t"
proof (induction rule: child_step.induct)
  case (writes s tot l ls)
  then show ?case
    by (simp add: in_order_def ahead_take_token child_ok_take [of c _ tot ls])
next
  case (exits s)
  then show ?case
    by (cases "st_reader s") (auto simp: in_order_def child_ok_cases)
qed (auto simp: in_order_def child_ok_cases)

lemma child_step_fields: "child_step c s t \<Longrightarrow>
    st_seen t = st_seen s \<and> st_result t = st_result s \<and> st_closing t = st_closing s
    \<and> (st_ctx t = None \<longrightarrow> st_ctx s = None)"
  by (induction rule: child_step.induct) simp_all

lemma stream_order_child: "child_step c s t \<Longrightarrow> stream_order c s \<Longrightarrow> stream_order c t"
  using child_step_fields [of c s t] in_order_child [of c s t] by (simp add: stream_order_def good_end_def)

text \<open>A success is the final event of a child that ended well, received in time.\<close>

lemma observe_success:
  "st_result s = None \<Longrightarrow> st_result (observe c ob s) = Some (Inr x) \<Longrightarrow> ob = Received (Final None True) None"
  by (auto simp: observe_def Let_def
      split: observation.split_asm stream_event.split_asm option.split_asm if_split_asm sum.split_asm)

lemma stream_order_final:
  assumes "st_ctx s = None" "st_result s = None" "st_reader s = OfferingFinal None True" "stream_order c s"
  shows "good_end c (observe c (Received (Final None True) None) (s\<lparr>st_reader := ReaderDone\<rparr>))"
proof -
  have o: "in_order c s" using assms by (simp add: stream_order_def)
  then obtain lines where l: "st_seen s = map (\<lambda>l. Received (Line l) None) lines" "whole_output c = (lines, None)"
    using assms(3) by (auto simp: in_order_def)
  from o assms(3) have "sr_exit_ok c" by (simp add: in_order_def child_ok_cases)
  moreover have "stream_events (sr_output c) (sr_read_ok c) True = map Line lines @ [Final None True]"
    unfolding stream_events_whole l(2) by simp
  ultimately show ?thesis by (simp add: good_end_def plays_def l(1))
qed

lemma stream_order_line:
  assumes "st_ctx s = None" "st_result s = None" "st_reader s = Offering l tot ls" "stream_order c s"
  shows "in_order c (observe c (Received (Line l) None) (s\<lparr>st_reader := Scanning tot ls\<rparr>))"
proof -
  have o: "in_order c s" using assms by (simp add: stream_order_def)
  then obtain lines where l: "st_seen s = map (\<lambda>l. Received (Line l) None) lines"
      "whole_output c = (lines @ fst (ahead c (Offering l tot ls)), snd (ahead c (Offering l tot ls)))"
    using assms(3) by (auto simp: in_order_def)
  have "whole_output c = ((lines @ [l]) @ fst (ahead c (Scanning tot ls)), snd (ahead c (Scanning tot ls)))"
    unfolding l(2) by (simp split: prod.split)
  with o assms(3) l(1) show ?thesis
    unfolding in_order_def
    by (intro conjI exI [of _ "lines @ [l]"]) (simp_all add: child_ok_cases)
qed

lemma stream_order_go: "go_step c s t \<Longrightarrow> stream_order c s \<Longrightarrow> stream_order c t"
proof (induction rule: go_step.induct)
  case (receive_line s l tot ls)
  show ?case
  proof (cases "st_ctx s")
    case None
    with receive_line stream_order_line [OF None receive_line(1,2,3)] show ?thesis
      using observe_success [of "s\<lparr>st_reader := Scanning tot ls\<rparr>" c "Received (Line l) None"]
      by (auto simp: stream_order_def)
  next
    case (Some e)
    with receive_line(1) show ?thesis
      using observe_success [of "s\<lparr>st_reader := Scanning tot ls\<rparr>" c "Received (Line l) (Some e)"]
      by (auto simp: stream_order_def)
  qed
next
  case (receive_final s r ok)
  let ?s = "s\<lparr>st_reader := ReaderDone\<rparr>"
  have "good_end c (observe c (Received (Final r ok) (st_ctx s)) ?s)"
    if x: "st_result (observe c (Received (Final r ok) (st_ctx s)) ?s) = Some (Inr x)" for x
    using observe_success [of ?s, OF _ x] receive_final stream_order_final [of s c] by simp
  moreover have "st_result (observe c (Received (Final r ok) (st_ctx s)) ?s) \<noteq> None"
    by (rule observe_ends)
  ultimately show ?case unfolding stream_order_def by blast
next
  case (see_closed s)
  then show ?case
    using observe_success [of s c "EventsClosed (st_ctx s)"] observe_ends(2) [of c "st_ctx s" s]
    by (auto simp: stream_order_def)
next
  case (see_done s e)
  then show ?case
    using observe_success [of s c "CtxDone e"] by (auto simp: stream_order_def)
next
  case (reap s r ok)
  then show ?case
    by (cases r) (auto simp: stream_order_def in_order_def child_ok_cases good_end_def)
qed (auto simp: stream_order_def good_end_def inner_done_def in_order_def child_ok_cases)

lemma streams_order: "streams c acc s \<Longrightarrow> stream_order c s"
proof (induction rule: streams.induct)
  case init
  have "in_order c (stream_start c acc)"
    unfolding in_order_def by (intro conjI exI [of _ "[]"]) (simp_all add: stream_start_def child_ok_cases)
  then show ?case by (simp add: stream_order_def stream_start_def)
next
  case (child s t)
  show ?case by (rule stream_order_child [OF child(2,3)])
next
  case (broker s t)
  show ?case by (rule stream_order_go [OF broker(2,3)])
qed

lemma stream_success:
  "streams c acc s \<Longrightarrow> st_result s = Some (Inr x) \<Longrightarrow>
     sr_exit_ok c \<and> st_seen s = plays (sr_output c) (sr_read_ok c) True"
  using streams_order [of c acc s] by (simp add: stream_order_def good_end_def)

section \<open>What the context reports\<close>

text \<open>What the context of a run reports: a deadline or a cancellation.\<close>

fun context_errors :: "observation \<Rightarrow> backend_error list" where
  "context_errors (Received ev e) = option_list e"
| "context_errors (EventsClosed e) = option_list e"
| "context_errors (CtxDone e) = [e]"

definition context_ends :: "run_env \<Rightarrow> bool" where
  "context_ends env \<longleftrightarrow> (\<forall>args obs ob. re_start env args = Some obs \<longrightarrow> ob \<in> set obs \<longrightarrow>
     set (context_errors ob) \<subseteq> {DeadlineExceeded, Canceled})"

lemma stream_loop_errors:
  assumes "stream_loop h n fin count obs st = Some (Inl e)"
    and "\<forall>ob \<in> set obs. set (context_errors ob) \<subseteq> {DeadlineExceeded, Canceled}"
    and "\<And>e. fin = Inl e \<Longrightarrow> set e \<subseteq> {ErrFailed}"
  shows "set e \<subseteq> {ErrFailed, DeadlineExceeded, Canceled}"
  using assms
proof (induction h n fin count obs st rule: stream_loop.induct)
  case (4 h n fin count ev ctx obs s)
  then show ?case
    by (auto simp: Let_def split: if_split_asm stream_event.split_asm sum.split_asm option.split_asm)
qed (auto split: option.split_asm)

lemma checkIdentity_errors: "checkIdentity p v = Inl e \<Longrightarrow> set e \<subseteq> {ErrFailed}"
  by (auto simp: checkIdentity_def split: if_split_asm option.split_asm)

lemma streams_ctx: "streams c acc s \<Longrightarrow> set (option_list (st_ctx s)) \<subseteq> {DeadlineExceeded, Canceled}"
proof (induction rule: streams.induct)
  case init
  show ?case by (simp add: stream_start_def)
next
  case (child s t)
  from child(2,3) show ?case by (induction rule: child_step.induct) auto
next
  case (broker s t)
  from broker(2,3) show ?case by (induction rule: go_step.induct) simp_all
qed

lemma streams_context_errors:
  "streams c acc s \<Longrightarrow> \<forall>ob \<in> set (st_seen s). set (context_errors ob) \<subseteq> {DeadlineExceeded, Canceled}"
proof (induction rule: streams.induct)
  case init
  show ?case by (simp add: stream_start_def)
next
  case (child s t)
  then show ?case using child_step_fields [OF child(2)] by simp
next
  case (broker s t)
  note ctx = streams_ctx [OF broker(1)]
  from broker(2,3) ctx show ?case by (induction rule: go_step.induct) auto
qed

text \<open>So \<open>run\<close> has an outcome for whatever a call that has returned has seen.\<close>

lemma stream_run_answers:
  assumes "streams c acc s" "st_returned s" "re_start env args = Some (st_seen s)"
    and "sr_final c = checkIdentity p (re_after env)"
  shows "\<exists>r. run p env args (sr_rows c) (sr_handle c) acc = Some r"
proof -
  from returned_final [OF assms(1,2)] obtain r where "st_result s = Some r" by blast
  from stream_result_loop [OF assms(1) this] assms(3,4) show ?thesis
    by (cases "checkIdentity p (re_before env)") (simp_all add: run_def)
qed

section \<open>The program's promises\<close>

text \<open>C23: Every call of \<open>Process.run\<close> ends.  Whatever the child writes and however its goroutine, the
  loop and the deadline interleave, at most two steps per line and eight more are taken; only a run that
  has returned can do nothing more, and it then has a result, its reader has been joined and its child
  waited for.  Once the deadline has passed or the loop has its result, the broker gets there without the
  child's help and without waiting for the deadline.\<close>

theorem stream_run_returns:
  assumes "(stream_step c ^^ n) (stream_start c acc) s"
  shows "n \<le> 2 * length (fst (scan_tokens maxBackendLineBytes (sr_output c))) + 8
    \<and> ((\<nexists>t. stream_step c s t) \<longrightarrow> st_returned s)
    \<and> ((st_ctx s \<noteq> None \<or> st_result s \<noteq> None) \<and> (\<nexists>t. go_step c s t) \<longrightarrow> st_returned s)
    \<and> (st_returned s \<longrightarrow> st_result s \<noteq> None \<and> st_reader s = ReaderDone \<and> st_child s \<noteq> Running)"
proof (intro conjI)
  have "n + stream_work s \<le> stream_work (stream_start c acc)"
    by (rule stream_step_work [OF assms])
  then show "n \<le> 2 * length (fst (scan_tokens maxBackendLineBytes (sr_output c))) + 8"
    by (simp add: stream_work_def stream_start_def)
qed (use go_step_enabled [of s c] stream_stuck [of c s]
      returned_final [OF stream_step_streams [OF assms]] in blast)+

text \<open>A run of \<open>cat\<close> on one line, whose lines are collected.\<close>

definition echo_run :: "bytes list stream_run" where
  "echo_run = \<lparr>sr_handle = \<lambda>l ls. Some (ls @ [l]), sr_rows = 1, sr_final = Inr (),
     sr_output = ''{}'' @ [newline], sr_read_ok = True, sr_exit_ok = True\<rparr>"

definition echo_end :: "bytes list stream" where
  "echo_end = \<lparr>st_ctx = None, st_child = Exited True, st_reader = ReaderDone, st_count = 1, st_acc = [''{}''],
     st_seen = [Received (Line ''{}'') None, Received (Final None True) None], st_result = Some (Inr [''{}'']),
     st_closing = True, st_returned = True\<rparr>"

lemma echo_tokens: "scan_tokens maxBackendLineBytes (sr_output echo_run) = ([''{}''], False)"
  by (simp add: echo_run_def scan_example [simplified])

lemma echo_steps: "(stream_step echo_run ^^ 8) (stream_start echo_run []) echo_end"
proof -
  let ?start = "stream_start echo_run []"
  let ?s1 = "?start\<lparr>st_reader := take_token 0 ''{}'' []\<rparr>"
  let ?s2 = "observe echo_run (Received (Line ''{}'') None) (?s1\<lparr>st_reader := Scanning 3 []\<rparr>)"
  let ?s3 = "?s2\<lparr>st_reader := Reaping None\<rparr>"
  let ?s4 = "?s3\<lparr>st_child := Exited True\<rparr>"
  let ?s5 = "?s4\<lparr>st_reader := OfferingFinal None True\<rparr>"
  let ?s6 = "observe echo_run (Received (Final None True) None) (?s5\<lparr>st_reader := ReaderDone\<rparr>)"
  let ?s7 = "?s6\<lparr>st_closing := True\<rparr>"
  have t: "take_token 0 ''{}'' [] = Offering ''{}'' 3 []"
    by (simp add: take_token_def maxBackendOutputBytes_def trim_space_graphic [of "''{}''"] graphic_def)
  have e: "scan_error echo_run = None" by (simp add: scan_error_def echo_tokens) (simp add: echo_run_def)
  have "stream_step echo_run ?start ?s1"
    unfolding stream_step_def by (intro disjI1 child_step.writes) (simp add: stream_start_def echo_tokens)
  moreover have "stream_step echo_run ?s1 ?s2"
    using receive_line [of ?s1 "''{}''" 3 "[]" echo_run] by (simp add: stream_step_def t stream_start_def)
  moreover have "stream_step echo_run ?s2 ?s3"
    using child_step.ends [of ?s2 3 echo_run] by (simp add: stream_step_def e)
  moreover have "stream_step echo_run ?s3 ?s4"
    using child_step.exits [of ?s3 echo_run] by (simp add: stream_step_def stream_start_def echo_run_def)
  moreover have "stream_step echo_run ?s4 ?s5"
    using reap [of ?s4 None True echo_run] by (simp add: stream_step_def)
  moreover have "stream_step echo_run ?s5 ?s6"
    using receive_final [of ?s5 None True echo_run]
    by (simp add: stream_step_def stream_start_def observe_def Let_def echo_run_def)
  moreover have "stream_step echo_run ?s6 ?s7"
    using close_stream [of ?s6 echo_run] by (simp add: stream_step_def stream_start_def observe_ends)
  moreover have "stream_step echo_run ?s7 (?s7\<lparr>st_returned := True\<rparr>)"
    using return [of ?s7 echo_run] by (simp add: stream_step_def stream_start_def)
  moreover have "?s7\<lparr>st_returned := True\<rparr> = echo_end"
    by (simp add: observe_def Let_def stream_start_def echo_run_def echo_end_def)
  ultimately show ?thesis
    by (simp add: eval_nat_numeral OO_def) metis
qed

lemma stream_run_returns_witness:
  "(stream_step echo_run ^^ 8) (stream_start echo_run []) echo_end \<and> st_returned echo_end
    \<and> st_result echo_end \<noteq> None \<and> 8 \<le> 2 * length (fst (scan_tokens maxBackendLineBytes (sr_output echo_run))) + 8"
  using stream_run_returns [OF echo_steps] echo_steps by (simp add: echo_end_def)

text \<open>C24: The sequential loop of the model is what the goroutines compute: the result of a call is
  that of \<open>run\<close> on the observations its \<open>select\<close>s made.  An error holds nothing but \<open>ErrFailed\<close> and what the
  context reports, and a success, however the events were
  interleaved, means that the child ended well and all its output was seen in order, so that it depends on
  the output alone.\<close>

theorem stream_refines_run:
  assumes "streams c acc s" "st_result s = Some r"
    and "checkIdentity p (re_before env) = Inr ()" "sr_final c = checkIdentity p (re_after env)"
    and "re_start env args = Some (st_seen s)"
  shows "run p env args (sr_rows c) (sr_handle c) acc = Some r
    \<and> (\<forall>e. r = Inl e \<longrightarrow> set e \<subseteq> {ErrFailed, DeadlineExceeded, Canceled})
    \<and> (\<forall>x. r = Inr x \<longrightarrow> sr_exit_ok c \<and> st_seen s = plays (sr_output c) (sr_read_ok c) True)"
proof (intro conjI)
  show "run p env args (sr_rows c) (sr_handle c) acc = Some r"
    using stream_result_loop [OF assms(1,2)] assms(3-5) by (simp add: run_def)
next
  show "\<forall>e. r = Inl e \<longrightarrow> set e \<subseteq> {ErrFailed, DeadlineExceeded, Canceled}"
  proof (intro allI impI)
    fix e assume r: "r = Inl e"
    show "set e \<subseteq> {ErrFailed, DeadlineExceeded, Canceled}"
      by (rule stream_loop_errors [OF stream_result_loop [OF assms(1,2), unfolded r] streams_context_errors [OF assms(1)]])
        (simp add: assms(4) checkIdentity_errors)
  qed
next
  show "\<forall>x. r = Inr x \<longrightarrow> sr_exit_ok c \<and> st_seen s = plays (sr_output c) (sr_read_ok c) True"
    using stream_success [OF assms(1)] assms(2) by simp
qed

lemma stream_refines_run_witness:
  "\<exists>p env. run p env [''chats''] (sr_rows echo_run) (sr_handle echo_run) [] = Some (Inr [''{}''])"
proof -
  define view :: fs_view where "view = \<lparr>fs_owner_ok = \<lambda>_ _. True, fs_stat = \<lambda>_. Some (1, 2)\<rparr>"
  define env :: run_env where "env = \<lparr>re_before = view, re_start = \<lambda>_. Some (st_seen echo_end), re_after = view\<rparr>"
  define p :: process where "p = \<lparr>pr_path = ''/imsg'', pr_database = ''/chat.db'', pr_generation = ''g'',
    pr_identity = ''1:2'', pr_bounded_collection = True, pr_account_id = ''a''\<rparr>"
  have i: "checkIdentity p view = Inr ()" unfolding p_def view_def by code_simp
  have "run p env [''chats''] (sr_rows echo_run) (sr_handle echo_run) [] = Some (Inr [''{}''])"
    by (rule conjunct1 [OF stream_refines_run [OF stream_step_streams [OF echo_steps]]])
      (simp_all add: env_def i, simp_all add: echo_end_def echo_run_def)
  then show ?thesis by blast
qed

end
