(* ===== verification/Client.thy ===== *)
theory Client
  imports Framing Rpc
begin

text \<open>
  \<open>internal/rpc/client.go\<close>: one request is marshalled, framed and written, one frame is read back
  and checked against the request.  The connection is what the writes are answered with and the
  pieces the broker's answer arrives in; an expired deadline or a cancelled context is a write that
  fails or pieces that end early.
\<close>

section \<open>Marshalling a request\<close>

text \<open>The parameters are a \<open>json.RawMessage\<close>: \<open>json.Marshal\<close> checks that they are JSON and
  copies them without white space and with its HTML escapes (\<open>appendCompact\<close>).  The flags say
  whether the position is inside a string and whether the last byte was a backslash there.\<close>

definition line_separator :: "string \<Rightarrow> rune option" where
  "line_separator s = (case s of
      a # b # c # _ \<Rightarrow>
        if byte a = 226 \<and> byte b = 128 \<and> (byte c = 168 \<or> byte c = 169) then Some (8064 + byte c) else None
    | _ \<Rightarrow> None)"

function compact_raw :: "bool \<Rightarrow> bool \<Rightarrow> string \<Rightarrow> string" where
  "compact_raw q esc [] = []"
| "compact_raw q esc (c # s) =
     (case line_separator (c # s) of
        Some r \<Rightarrow> u_escape r @ compact_raw q False (drop 2 s)
      | None \<Rightarrow>
          if c = CHR ''<'' \<or> c = CHR ''>'' \<or> c = CHR ''&'' then u_escape (byte c) @ compact_raw q False s
          else if \<not> q \<and> json_space c then compact_raw False False s
          else if q \<and> esc then c # compact_raw True False s
          else if q then c # compact_raw (c \<noteq> quote) (c = backslash) s
          else c # compact_raw (c = quote) False s)"
  by pat_completeness auto
termination by (relation "measure (\<lambda>(q, esc, s). length s)") auto

declare compact_raw.simps(2) [simp del]

text \<open>A nil message is \<open>null\<close>.\<close>

definition marshal_raw :: "bytes \<Rightarrow> bytes option" where
  "marshal_raw raw =
     (if raw = [] then Some ''null''
      else if json_valid raw then Some (compact_raw False False raw) else None)"

definition marshal_request :: "request \<Rightarrow> bytes option" where
  "marshal_request req = map_option (\<lambda>params.
     CHR ''{'' # print_string ''v'' @ CHR '':'' # json_print (jint (rq_v req))
       @ CHR '','' # print_string ''id'' @ CHR '':'' # print_string (rq_id req)
       @ CHR '','' # print_string ''method'' @ CHR '':'' # print_string (rq_method req)
       @ CHR '','' # print_string ''params'' @ CHR '':'' # params @ ''}'')
     (marshal_raw (rq_params req))"

section \<open>The call\<close>

definition responseMaxBytes :: "32 word" where "responseMaxBytes = 0x800000"

datatype call_error =
    ConnectFailed
  | EncodeRequest
  | Transport frame_error
  | DecodeResponse
  | MismatchedResponse
  | InvalidEnvelope

text \<open>An authentication failure comes before the broker reads the request's id.\<close>

definition preRequestError :: "'r response \<Rightarrow> bool" where
  "preRequestError resp \<longleftrightarrow> \<not> rs_ok resp \<and> rs_id resp = [] \<and>
     (case rs_error resp of None \<Rightarrow> False
      | Some e \<Rightarrow> eb_code e = ''unauthorized_peer'' \<or> eb_code e = ''peer_auth_failed''
          \<or> eb_code e = ''invalid_request'')"

definition check_response :: "request \<Rightarrow> 'r response \<Rightarrow> call_error + 'r response" where
  "check_response req resp =
     (if rs_v resp \<noteq> Version1 \<or> (rs_id resp \<noteq> rq_id req \<and> \<not> preRequestError resp)
      then Inl MismatchedResponse
      else if (rs_ok resp \<and> (rs_error resp \<noteq> None \<or> rs_result resp = None))
        \<or> (\<not> rs_ok resp \<and> (rs_error resp = None \<or> rs_result resp \<noteq> None))
      then Inl InvalidEnvelope
      else Inr resp)"

definition receive :: "request \<Rightarrow> bytes list \<Rightarrow> call_error + json response" where
  "receive req pieces =
     (case fst (ReadFrame pieces responseMaxBytes) of
        Inl e \<Rightarrow> Inl (Transport e)
      | Inr payload \<Rightarrow>
          (case decode_response payload of
             Inl e \<Rightarrow> Inl DecodeResponse
           | Inr resp \<Rightarrow> check_response req resp))"

text \<open>\<open>Call\<close>: the bytes sent, and the outcome once every write has been answered.  The broker's
  answer may depend on what was sent.\<close>

definition Call ::
  "request \<Rightarrow> bool \<Rightarrow> write_result list \<Rightarrow> (bytes \<Rightarrow> bytes list) \<Rightarrow> bytes \<times> (call_error + json response) option"
where
  "Call req connects answers peer =
     (if \<not> connects then ([], Some (Inl ConnectFailed))
      else (case marshal_request req of
          None \<Rightarrow> ([], Some (Inl EncodeRequest))
        | Some payload \<Rightarrow>
            (case WriteFrame payload answers of
               (sent, None, _) \<Rightarrow> (sent, None)
             | (sent, Some (Inl e), _) \<Rightarrow> (sent, Some (Inl (Transport e)))
             | (sent, Some (Inr _), _) \<Rightarrow> (sent, Some (receive req (peer sent))))))"

section \<open>Printed parameters are copied as they are\<close>

lemma line_separator_None:
  "byte c < 128 \<Longrightarrow> line_separator (c # s) = None"
  by (auto simp: line_separator_def split: list.split)

lemma compact_ascii:
  assumes "byte c < 128" "c \<noteq> CHR ''<''" "c \<noteq> CHR ''>''" "c \<noteq> CHR ''&''"
  shows "compact_raw True True (c # s) = c # compact_raw True False s"
    "compact_raw True False (c # s) = c # compact_raw (c \<noteq> quote) (c = backslash) s"
    "\<not> json_space c \<Longrightarrow> compact_raw False False (c # s) = c # compact_raw (c = quote) False s"
  using assms by (simp_all add: compact_raw.simps(2) line_separator_None)

lemma compact_plain:
  assumes "list_all (\<lambda>c. byte c < 128 \<and> c \<notin> {CHR ''<'', CHR ''>'', CHR ''&'', quote, backslash}
      \<and> (q \<or> \<not> json_space c)) u"
  shows "compact_raw q False (u @ s) = u @ compact_raw q False s"
  using assms by (induction u) (cases q; simp add: compact_ascii)+

lemma hex_digit_plain:
  "n < 16 \<Longrightarrow> byte (hex_digit n) < 128 \<and> hex_digit n \<notin> {CHR ''<'', CHR ''>'', CHR ''&'', quote, backslash}"
proof -
  have "list_all (\<lambda>n. byte (hex_digit n) < 128
      \<and> hex_digit n \<notin> {CHR ''<'', CHR ''>'', CHR ''&'', quote, backslash}) [0..<16]"
    by code_simp
  then show "n < 16 \<Longrightarrow> byte (hex_digit n) < 128 \<and> hex_digit n \<notin> {CHR ''<'', CHR ''>'', CHR ''&'', quote, backslash}"
    by (auto simp: list_all_iff)
qed

lemma compact_u_escape: "compact_raw True False (u_escape r @ s) = u_escape r @ compact_raw True False s"
proof -
  let ?ds = "CHR ''u'' # map hex_digit [r div 4096 mod 16, r div 256 mod 16, r div 16 mod 16, r mod 16]"
  have "list_all (\<lambda>c. byte c < 128 \<and> c \<notin> {CHR ''<'', CHR ''>'', CHR ''&'', quote, backslash} \<and> (True \<or> \<not> json_space c)) (tl ?ds)"
    using hex_digit_plain by simp
  from compact_plain [OF this, of s] show ?thesis
    by (simp add: u_escape_def compact_ascii)
qed

lemma compact_escape_ascii:
  assumes "byte c < 128"
  shows "compact_raw True False (escape_ascii c @ s) = escape_ascii c @ compact_raw True False s"
  using assms
  by (auto simp: escape_ascii_def compact_ascii compact_u_escape)

text \<open>The bytes of one encoded rune that is not a line separator.\<close>

definition continuation :: "char \<Rightarrow> bool" where
  "continuation c \<longleftrightarrow> 128 \<le> byte c \<and> byte c \<le> 191"

lemma compact_high:
  assumes "128 \<le> byte c" "line_separator (c # s) = None"
  shows "compact_raw True False (c # s) = c # compact_raw True False s"
proof -
  have "c \<noteq> CHR ''<''" "c \<noteq> CHR ''>''" "c \<noteq> CHR ''&''" "c \<noteq> quote" "c \<noteq> backslash"
    using assms(1) by auto
  with assms(2) show ?thesis by (simp add: compact_raw.simps(2))
qed

lemma compact_continuations:
  "list_all continuation u \<Longrightarrow> compact_raw True False (u @ s) = u @ compact_raw True False s"
proof (induction u)
  case (Cons c u)
  then have "128 \<le> byte c" "line_separator (c # u @ s) = None"
    by (auto simp: continuation_def line_separator_def split: list.split)
  with Cons show ?case by (simp add: compact_high)
qed simp

lemma rune_continuations:
  assumes "decode_rune (byte c) (map byte s) = (r, w)" "(r, w) \<noteq> rune_error" "128 \<le> byte c"
  shows "list_all continuation (take (w - 1) s)"
    and "r \<noteq> 8232 \<Longrightarrow> r \<noteq> 8233 \<Longrightarrow> line_separator (c # take (w - 1) s @ t) = None"
proof -
  have ne: "decode_rune (byte c) (map byte s) \<noteq> rune_error" using assms by simp
  have "list_all continuation (take (w - 1) s) \<and>
      (r \<noteq> 8232 \<longrightarrow> r \<noteq> 8233 \<longrightarrow> line_separator (c # take (w - 1) s @ t) = None)"
    using ne assms(3)
  proof (cases rule: decode_rune_cases)
    case (1 b1 u)
    with assms(1) obtain x y where "s = x # y" "byte x = b1" "w = 2" by (cases s) auto
    with 1 show ?thesis
      by (auto simp: continuation_def cont_byte_def line_separator_def split: list.split)
  next
    case (2 b1 b2 u)
    with assms(1) obtain x y z where s: "s = x # y # z" "byte x = b1" "byte y = b2" "w = 3"
        "r = (byte c - 224) * 4096 + (b1 - 128) * 64 + (b2 - 128)"
      by (cases s; cases "tl s") auto
    have "line_separator (c # x # y # t) = None" if "r \<noteq> 8232" "r \<noteq> 8233"
      using s that by (auto simp: line_separator_def)
    with 2 s show ?thesis
      by (auto simp: continuation_def cont_byte_def numeral_3_eq_3)
  next
    case (3 b1 b2 b3 u)
    with assms(1) obtain x y z v where s: "s = x # y # z # v" "byte x = b1" "byte y = b2" "byte z = b3" "w = 4"
      by (cases s; cases "tl s"; cases "tl (tl s)") auto
    with 3 show ?thesis
      by (auto simp: continuation_def cont_byte_def line_separator_def split: list.split)
  qed
  then show "list_all continuation (take (w - 1) s)"
    and "r \<noteq> 8232 \<Longrightarrow> r \<noteq> 8233 \<Longrightarrow> line_separator (c # take (w - 1) s @ t) = None"
    by blast+
qed

lemma compact_escape_string:
  "compact_raw True False (escape_string s @ t) = escape_string s @ compact_raw True False t"
proof (induction s rule: escape_string.induct)
  case (2 c s)
  show ?case
  proof (cases "byte c < 128")
    case True
    with "2.IH"(1) show ?thesis
      by (simp add: escape_string.simps(2) compact_escape_ascii)
  next
    case False
    obtain r w where d: "decode_rune (byte c) (map byte s) = (r, w)" by fastforce
    note IH = "2.IH"(2-4) [OF False d [symmetric] refl]
    consider (error) "(r, w) = rune_error" | (separator) "(r, w) \<noteq> rune_error" "r = 8232 \<or> r = 8233"
      | (rune) "(r, w) \<noteq> rune_error" "r \<noteq> 8232" "r \<noteq> 8233" by blast
    then show ?thesis
    proof cases
      case error
      with False d have "escape_string (c # s) = u_escape 65533 @ escape_string s"
        by (auto simp: escape_string.simps(2) rune_error_def)
      with IH(1) [OF error] show ?thesis by (simp add: compact_u_escape)
    next
      case separator
      with False d IH(2) show ?thesis by (auto simp: escape_string.simps(2) compact_u_escape)
    next
      case rune
      have c: "128 \<le> byte c" using False by simp
      note k = rune_continuations [OF d rune(1) c]
      have IH': "compact_raw True False (escape_string (drop (w - 1) s) @ t)
          = escape_string (drop (w - 1) s) @ compact_raw True False t"
        using IH(3) rune by simp
      have "escape_string (c # s) = c # take (w - 1) s @ escape_string (drop (w - 1) s)"
        using False d rune by (simp add: escape_string.simps(2))
      then show ?thesis
        using compact_high [OF c k(2)] rune compact_continuations [OF k(1)] IH' by simp
    qed
  qed
qed simp

lemma compact_print_string:
  "compact_raw False False (print_string s @ t) = print_string s @ compact_raw False False t"
proof -
  have q: "byte quote < 128" "quote \<noteq> CHR ''<''" "quote \<noteq> CHR ''>''" "quote \<noteq> CHR ''&''" by simp_all
  have "compact_raw True False (quote # t) = quote # compact_raw False False t"
    using compact_ascii(2) [OF q] by simp
  then show ?thesis
    using compact_ascii(3) [OF q] compact_escape_string [of s "quote # t"] by (simp add: print_string_def)
qed

lemma compact_print_int: "compact_raw False False (print_int i @ t) = print_int i @ compact_raw False False t"
proof (rule compact_plain)
  have d: "byte c < 128 \<and> c \<notin> {CHR ''<'', CHR ''>'', CHR ''&'', quote, backslash} \<and> (False \<or> \<not> json_space c)"
    if "ascii_digit c \<or> c = CHR ''-''" for c
    using that by (auto simp: ascii_digit_def json_space_def)
  have "list_all (\<lambda>c. ascii_digit c \<or> c = CHR ''-'') (print_int i)"
    using print_nat_digits by (auto simp: print_int_def list_all_iff)
  then show "list_all (\<lambda>c. byte c < 128 \<and> c \<notin> {CHR ''<'', CHR ''>'', CHR ''&'', quote, backslash}
      \<and> (False \<or> \<not> json_space c)) (print_int i)"
    using d by (simp add: list_all_iff)
qed

lemma compact_punct [simp]:
  "c \<in> {CHR ''['', CHR '']'', CHR ''{'', CHR ''}'', CHR '':'', CHR '',''} \<Longrightarrow>
     compact_raw False False (c # t) = c # compact_raw False False t"
  by (subst compact_ascii(3)) (auto simp: json_space_def)

lemma compact_print:
  "json_wf d j \<longrightarrow> compact_raw False False (json_print j @ t) = json_print j @ compact_raw False False t"
  "(\<forall>v \<in> set vs. json_wf d v) \<longrightarrow>
     compact_raw False False (print_elements vs @ t) = print_elements vs @ compact_raw False False t"
  "(\<forall>m \<in> set ms. valid_utf8 (fst m) \<and> json_wf d (snd m)) \<longrightarrow>
     compact_raw False False (print_members ms @ t) = print_members ms @ compact_raw False False t"
proof (induction j and vs and ms arbitrary: d t and d t and d t
    rule: json_print_print_elements_print_members.induct)
  case 1
  show ?case using compact_plain [of False "''null''" t] by (simp add: json_space_def)
next
  case (2 b)
  show ?case
    using compact_plain [of False "''true''" t] compact_plain [of False "''false''" t]
    by (simp add: json_space_def)
next
  case (3 n)
  show ?case by (auto simp: compact_print_int)
next
  case (4 s)
  show ?case by (simp add: compact_print_string)
next
  case (5 vs)
  show ?case using "5.IH" [of "d - 1" "CHR '']'' # t"] by simp
next
  case (6 ms)
  show ?case using "6.IH" [of "d - 1" "CHR ''}'' # t"] by simp
next
  case (8 v vs)
  then show ?case by (cases "vs = []") auto
next
  case (10 k v ms)
  show ?case
  proof (intro impI)
    assume "\<forall>m \<in> set ((k, v) # ms). valid_utf8 (fst m) \<and> json_wf d (snd m)"
    then have a: "json_wf d v" "\<forall>m \<in> set ms. valid_utf8 (fst m) \<and> json_wf d (snd m)" by simp_all
    show "compact_raw False False (print_members ((k, v) # ms) @ t)
        = print_members ((k, v) # ms) @ compact_raw False False t"
      using "10.IH"(1) [THEN mp, OF a(1)] "10.IH"(2) [THEN mp, OF _ a(2)]
      by (cases "ms = []") (simp_all add: compact_print_string)
  qed
qed simp_all

lemma compact_print_id: "json_wf d j \<Longrightarrow> compact_raw False False (json_print j) = json_print j"
  using compact_print(1) [of d j "[]"] by simp

section \<open>A request is read as it was written\<close>

lemma parse_raw_members_print:
  assumes "ms \<noteq> []" "\<forall>m \<in> set ms. valid_utf8 (fst m) \<and> json_wf d (snd m)"
    and "Suc (2 * length (print_members ms @ CHR ''}'' # rest)) < f"
  shows "parse_raw_members f d (print_members ms @ CHR ''}'' # rest) =
     Some (map (\<lambda>(k, v). (k, v, json_print v)) ms, rest)"
  using assms
proof (induction ms arbitrary: f)
  case (Cons m ms)
  obtain k v where m: "m = (k, v)" by fastforce
  from Cons.prems(3) obtain g where f: "f = Suc g" by (cases f) auto
  let ?more = "(if ms = [] then [] else CHR '','' # print_members ms) @ CHR ''}'' # rest"
  have w: "json_wf d v" and k: "valid_utf8 k" using Cons.prems(2) m by simp_all
  have e: "ends_number ?more" by simp
  have l: "2 * length (json_print v @ ?more) < g"
    using Cons.prems(3) by (simp add: m f print_string_def)
  have v: "parse_value g d (json_print v @ ?more) = Some (v, ?more)"
    using parse_print(1) [of d v ?more g] w e l by blast
  have p: "print_members (m # ms) @ CHR ''}'' # rest
      = quote # (escape_string k @ quote # (CHR '':'' # json_print v @ ?more))"
    by (simp add: m print_string_def)
  have ks: "parse_string (escape_string k @ quote # (CHR '':'' # json_print v @ ?more))
      = Some (k, CHR '':'' # json_print v @ ?more)"
    by (rule parse_print_string [OF k])
  have raw: "take (length (json_print v @ ?more) - length ?more) (json_print v @ ?more) = json_print v"
    by simp
  have skip: "skip_ws (json_print v @ ?more) = json_print v @ ?more" by (rule skip_ws_print [OF w])
  have step: "parse_raw_members f d (print_members (m # ms) @ CHR ''}'' # rest) =
      (case skip_ws ?more of [] \<Rightarrow> None
       | c # t \<Rightarrow> if c = CHR ''}'' then Some ([(k, v, json_print v)], t)
           else if c = CHR '','' then prepend [(k, v, json_print v)] (parse_raw_members g d (skip_ws t))
           else None)"
    unfolding p f by (simp only: parse_raw_members.simps list.case ks option.case prod.case
      skip_ws_cons [OF json_space_punct(6)] skip v Let_def raw simp_thms if_False if_True)
  show ?case
  proof (cases "ms = []")
    case True
    show ?thesis unfolding step using True by (simp add: m)
  next
    case False
    have "2 * length (print_members ms @ CHR ''}'' # rest) + 1 < g"
      using Cons.prems(3) False by (simp add: m f print_string_def)
    then have "parse_raw_members g d (print_members ms @ CHR ''}'' # rest) =
        Some (map (\<lambda>(k, v). (k, v, json_print v)) ms, rest)"
      using Cons.IH [OF False] Cons.prems(2) by simp
    moreover obtain k' v' ms' where ms: "ms = (k', v') # ms'" using False by (cases ms) auto
    then have "skip_ws (print_members ms @ CHR ''}'' # rest) = print_members ms @ CHR ''}'' # rest"
      by (simp add: print_string_def)
    ultimately show ?thesis
      unfolding step using False by (simp add: m prepend_def)
  qed
qed simp

lemma read_raw_object_print:
  assumes "ms \<noteq> []" "json_wf max_nesting (JObj ms)"
  shows "read_raw_object (json_print (JObj ms)) = Some (map (\<lambda>(k, v). (k, v, json_print v)) ms, [])"
proof -
  obtain k v ms' where ms: "ms = (k, v) # ms'" using assms(1) by (cases ms) auto
  obtain t where t: "print_members ms @ ''}'' = quote # t" by (simp add: ms print_string_def)
  have "Suc (2 * length (print_members ms @ ''}'')) < 2 * length (json_print (JObj ms))" by simp
  from parse_raw_members_print [OF assms(1) _ this, of "max_nesting - 1"] assms(2)
  have "parse_raw_members (2 * length (json_print (JObj ms))) (max_nesting - 1) (print_members ms @ ''}'') =
      Some (map (\<lambda>(k, v). (k, v, json_print v)) ms, [])" by simp
  then show ?thesis
    by (simp add: read_raw_object_def t)
qed

definition printable_request :: "request \<Rightarrow> json \<Rightarrow> bool" where
  "printable_request req j \<longleftrightarrow> rq_params req = json_print j \<and> json_wf (max_nesting - 1) j
     \<and> valid_utf8 (rq_id req) \<and> valid_utf8 (rq_method req)
     \<and> - (2 ^ 63) \<le> rq_v req \<and> rq_v req < 2 ^ 63"

lemma json_wf_mono: "json_wf d j \<Longrightarrow> d \<le> e \<Longrightarrow> json_wf e j"
proof (induction d j arbitrary: e rule: json_wf.induct)
  case (5 d vs)
  then show ?case by (fastforce intro: diff_le_mono)
next
  case (6 d ms)
  then show ?case by (fastforce intro: diff_le_mono)
qed auto

lemma request_keys:
  "\<not> key_is ''v'' ''method''" "\<not> key_is ''id'' ''method''" "key_is ''method'' ''method''"
  "\<not> key_is ''v'' ''params''" "\<not> key_is ''id'' ''params''" "\<not> key_is ''method'' ''params''"
  "key_is ''params'' ''params''"
  by (simp_all add: key_is_plain plain_key_def)

lemma marshal_request_decode:
  assumes "printable_request req j"
  shows "\<exists>payload. marshal_request req = Some payload \<and> decode_request payload = Inr req"
proof -
  from assms have p: "rq_params req = json_print j" "json_wf (max_nesting - 1) j"
    "valid_utf8 (rq_id req)" "valid_utf8 (rq_method req)" "- (2 ^ 63) \<le> rq_v req" "rq_v req < 2 ^ 63"
    by (simp_all add: printable_request_def)
  let ?ms = "[(''v'', jint (rq_v req)), (''id'', JStr (rq_id req)), (''method'', JStr (rq_method req)), (''params'', j)]"
  have wj: "json_wf max_nesting j" by (rule json_wf_mono [OF p(2)]) simp
  have "json_print j \<noteq> []" using json_print_hd [OF p(2)] by auto
  then have m: "marshal_raw (rq_params req) = Some (json_print j)"
    using p(1) json_decode_print [OF wj] compact_print_id [OF wj] by (simp add: marshal_raw_def json_valid_def)
  have mr: "marshal_request req = Some (json_print (JObj ?ms))"
    by (simp add: marshal_request_def m)
  have a: "valid_utf8 ''v''" "valid_utf8 ''id''" "valid_utf8 ''method''" "valid_utf8 ''params''"
    by (rule ascii_valid, simp)+
  then have w: "json_wf max_nesting (JObj ?ms)" using p by (simp add: max_nesting_def)
  have "json_decode (json_print (JObj ?ms)) = Some (JObj ?ms)" by (rule json_decode_print [OF w])
  then obtain rest where r: "read_value (json_print (JObj ?ms)) = Some (JObj ?ms, rest)" "skip_ws rest = []"
    by (auto simp: json_decode_def split: option.split_asm if_split_asm)
  have raw: "read_raw_object (json_print (JObj ?ms)) = Some (map (\<lambda>(k, v). (k, v, json_print v)) ?ms, [])"
    by (rule read_raw_object_print [OF _ w]) simp
  have rm: "request_members zero_request (map (\<lambda>(k, v). (k, v, json_print v)) ?ms) = Some req"
    by (simp add: request_step_def response_keys request_keys dec_jint [OF p(5,6)] zero_request_def
        p(1) [symmetric])
  have "decode_request (json_print (JObj ?ms)) = Inr req"
    unfolding decode_request_def r(1) option.case prod.case json.case raw bind.bind_lunit rm
    by (simp only: r(2) simp_thms if_True)
  with mr show ?thesis by blast
qed

end
