(* ===== verification/Serving.thy ===== *)
theory Serving
  imports Client BrokerSafety
begin

text \<open>
  One connection of \<open>internal/broker/server.go\<close>: \<open>handleConn\<close> and \<open>writeResponse\<close>, and what a
  client of \<open>rpc.Call\<close> on the other side gets.  A connection is what the broker can observe of it:
  whether it is a Unix socket, the peer's user id as the kernel reports it, the pieces its input
  arrives in (they end early when a deadline passes or the broker stops), and the answers its writes
  will get.
\<close>

section \<open>Handling a connection\<close>

record conn =
  cn_unix :: bool
  cn_peer :: "nat option"
  cn_input :: "bytes list"
  cn_answers :: "write_result list"

definition maxResponseBytes :: nat where "maxResponseBytes = 8 * 2 ^ 20"

definition response_payload :: "reply \<Rightarrow> bytes" where
  "response_payload resp =
     (let payload = marshal_response resp in
      if length payload > maxResponseBytes
      then marshal_response (Failure (rs_id resp) ''response_too_large''
             ''response exceeds transport limit'' False)
      else payload)"

definition writeResponse ::
  "reply \<Rightarrow> write_result list \<Rightarrow> bytes \<times> (frame_error + unit) option \<times> write_result list" where
  "writeResponse resp answers = WriteFrame (response_payload resp) answers"

text \<open>Reading the one request of a connection, or the failure that answers what was read.\<close>

definition read_request :: "bytes list \<Rightarrow> reply + request" where
  "read_request input =
     (case fst (ReadFrame input RequestMaxBytes) of
        Inl e \<Rightarrow> Inl (Failure [] ''invalid_request'' ''request frame is invalid'' False)
      | Inr payload \<Rightarrow>
          (case decode_request payload of
             Inl RequestNotJson \<Rightarrow> Inl (Failure [] ''invalid_request'' ''request must be valid JSON'' False)
           | Inl RequestNotOneObject \<Rightarrow>
               Inl (Failure [] ''invalid_request'' ''request must contain one object'' False)
           | Inr req \<Rightarrow>
               (case ValidateRequest req of
                  Inl e \<Rightarrow> Inl (Failure (rq_id req) (ve_code e) (ve_message e) False)
                | Inr _ \<Rightarrow> Inr req)))"

definition conn_reply :: "'w server \<Rightarrow> conn \<Rightarrow> 'w \<Rightarrow> reply option \<times> 'w" where
  "conn_reply s c w =
     (if \<not> cn_unix c then (Some (Failure [] ''internal_error'' ''invalid transport'' False), w)
      else (case cn_peer c of
          None \<Rightarrow> (Some (Failure [] ''peer_auth_failed'' ''could not authenticate peer'' False), w)
        | Some uid \<Rightarrow>
            if uid \<noteq> cf_client_uid (sv_cfg s)
            then (Some (Failure [] ''unauthorized_peer'' ''peer uid is not allowed'' False), w)
            else (case read_request (cn_input c) of
                Inl failure \<Rightarrow> (Some failure, w)
              | Inr req \<Rightarrow> dispatch s req w)))"

text \<open>\<open>None\<close> is a panic: the connection is closed without an answer.\<close>

definition handleConn ::
  "'w server \<Rightarrow> conn \<Rightarrow> 'w \<Rightarrow> (bytes \<times> (frame_error + unit) option \<times> write_result list) option \<times> 'w" where
  "handleConn s c w =
     (case conn_reply s c w of
        (None, w) \<Rightarrow> (None, w)
      | (Some resp, w) \<Rightarrow> (Some (writeResponse resp (cn_answers c)), w))"

section \<open>Who is served\<close>

definition authenticated :: "'w server \<Rightarrow> conn \<Rightarrow> bool" where
  "authenticated s c \<longleftrightarrow> cn_unix c \<and> cn_peer c = Some (cf_client_uid (sv_cfg s))"

definition valid_request :: "request \<Rightarrow> bool" where
  "valid_request req \<longleftrightarrow> rq_v req = 1 \<and> trim_space (rq_id req) \<noteq> [] \<and> length (rq_id req) \<le> 64
     \<and> trim_space (rq_method req) \<noteq> [] \<and> length (rq_method req) \<le> 128
     \<and> (\<exists>ms. json_decode (rq_params req) = Some (JObj ms))"

lemma ValidateRequest_valid: "ValidateRequest req = Inr () \<Longrightarrow> valid_request req"
  using object_params [of "rq_params req"]
  by (auto simp: ValidateRequest_def Version1_def valid_request_def json_valid_def json_decode_def
      opens_object_read_value split: if_splits option.splits)

lemma read_request_Inr:
  assumes "read_request input = Inr req"
  shows "valid_request req"
    "\<exists>payload rest. concat input = put_uint32 (of_nat (length payload)) @ payload @ rest
       \<and> payload \<noteq> [] \<and> length payload \<le> 2 ^ 20 \<and> decode_request payload = Inr req"
proof -
  obtain r input' where f: "ReadFrame input RequestMaxBytes = (r, input')" by fastforce
  with assms obtain payload where p: "r = Inr payload" "decode_request payload = Inr req"
    "ValidateRequest req = Inr ()"
    by (auto simp: read_request_def split: sum.split_asm request_error.split_asm)
  from p(3) show "valid_request req" by (rule ValidateRequest_valid)
  note b = ReadFrame_bounds [OF f [unfolded p(1)]]
  from b(3) obtain header where h: "length header = 4" "concat input = header @ payload @ concat input'"
    "be_uint32 header = of_nat (length payload)" by blast
  have "header = put_uint32 (of_nat (length payload))" using put_be_uint32 [OF h(1)] h(3) by simp
  moreover have "length payload \<le> 2 ^ 20" using b(2) by (simp add: RequestMaxBytes_def)
  ultimately show "\<exists>payload rest. concat input = put_uint32 (of_nat (length payload)) @ payload @ rest
       \<and> payload \<noteq> [] \<and> length payload \<le> 2 ^ 20 \<and> decode_request payload = Inr req"
    using b(1) h(2) p(2) by blast
qed

lemma read_request_Inl: "read_request input = Inl f \<Longrightarrow> \<not> rs_ok f \<and> rs_result f = None"
  by (auto simp: read_request_def split: sum.split_asm request_error.split_asm)

lemma conn_reply_served:
  assumes "conn_reply s c w = (Some resp, w')" "rs_ok resp \<or> w' \<noteq> w"
  obtains req where "authenticated s c" "read_request (cn_input c) = Inr req" "dispatch s req w = (Some resp, w')"
  using assms
  by (auto simp: conn_reply_def authenticated_def split: if_split_asm option.split_asm sum.split_asm
      dest: read_request_Inl)

text \<open>The three answers of a connection that is not the client's.\<close>

definition refusals :: "reply set" where
  "refusals = {Failure [] ''internal_error'' ''invalid transport'' False,
     Failure [] ''peer_auth_failed'' ''could not authenticate peer'' False,
     Failure [] ''unauthorized_peer'' ''peer uid is not allowed'' False}"

lemma unauthenticated_reply:
  assumes "\<not> authenticated s c"
  shows "\<exists>resp \<in> refusals. \<forall>input w. conn_reply s (c\<lparr>cn_input := input\<rparr>) w = (Some resp, w)"
proof (cases "cn_unix c")
  case True
  then show ?thesis
    using assms by (cases "cn_peer c") (simp_all add: conn_reply_def authenticated_def refusals_def)
qed (simp add: conn_reply_def refusals_def)

lemma handleConn_total: "fst (handleConn s c w) \<noteq> None"
proof -
  have "fst (conn_reply s c w) \<noteq> None"
  proof (cases "authenticated s c")
    case True
    show ?thesis
    proof (cases "read_request (cn_input c)")
      case (Inl f)
      with True show ?thesis by (simp add: conn_reply_def authenticated_def)
    next
      case (Inr req)
      obtain r w1 where "handle s req w = (Some r, w1)"
        using handle_total [of s req w] by (cases "handle s req w") auto
      then have "fst (dispatch s req w) \<noteq> None"
        by (simp add: dispatch_def split: prod.split option.split)
      with True Inr show ?thesis by (simp add: conn_reply_def authenticated_def)
    qed
  next
    case False
    from unauthenticated_reply [OF this] obtain resp where
      "conn_reply s (c\<lparr>cn_input := cn_input c\<rparr>) w = (Some resp, w)" by blast
    then show ?thesis by simp
  qed
  then show ?thesis
    by (cases "conn_reply s c w") (auto simp: handleConn_def simp del: not_None_eq split: option.split)
qed

text \<open>C5: Only the configured user is served.  A connection whose kernel-reported user id is not the
  client's gets one of three fixed refusals, whatever it sends, and changes nothing; and whenever an
  answer is a success or anything happened to the world, the peer was the client and its input began
  with one frame of at most 1 MiB that holds exactly one valid request, which is what was dispatched.\<close>

theorem served_only_to_client:
  "(\<not> authenticated s c \<longrightarrow>
      (\<exists>resp \<in> refusals. \<forall>input w. conn_reply s (c\<lparr>cn_input := input\<rparr>) w = (Some resp, w)))
   \<and> (\<forall>resp w'. conn_reply s c w = (Some resp, w') \<longrightarrow> rs_ok resp \<or> w' \<noteq> w \<longrightarrow>
      authenticated s c \<and> (\<exists>payload rest req.
        concat (cn_input c) = put_uint32 (of_nat (length payload)) @ payload @ rest
        \<and> payload \<noteq> [] \<and> length payload \<le> 2 ^ 20 \<and> decode_request payload = Inr req
        \<and> valid_request req \<and> dispatch s req w = (Some resp, w')))"
proof (intro conjI allI impI)
  assume "\<not> authenticated s c"
  then show "\<exists>resp \<in> refusals. \<forall>input w. conn_reply s (c\<lparr>cn_input := input\<rparr>) w = (Some resp, w)"
    by (rule unauthenticated_reply)
next
  fix resp w'
  assume r: "conn_reply s c w = (Some resp, w')" "rs_ok resp \<or> w' \<noteq> w"
  show "authenticated s c" by (rule conn_reply_served [OF r])
  from conn_reply_served [OF r] obtain req where
    "read_request (cn_input c) = Inr req" "dispatch s req w = (Some resp, w')" by blast
  with read_request_Inr [of "cn_input c" req] show "\<exists>payload rest req.
        concat (cn_input c) = put_uint32 (of_nat (length payload)) @ payload @ rest
        \<and> payload \<noteq> [] \<and> length payload \<le> 2 ^ 20 \<and> decode_request payload = Inr req
        \<and> valid_request req \<and> dispatch s req w = (Some resp, w')" by blast
qed

lemma served_only_to_client_witness:
  "\<exists>resp \<in> refusals. conn_reply example_server
     \<lparr>cn_unix = True, cn_peer = Some 501, cn_input = [''x''], cn_answers = []\<rparr> [] = (Some resp, [])"
proof -
  let ?c = "\<lparr>cn_unix = True, cn_peer = Some 501, cn_input = [''x''], cn_answers = []\<rparr>"
  have a: "\<not> authenticated example_server ?c"
    by (simp add: authenticated_def example_server_def example_config_def)
  from served_only_to_client [of example_server ?c "[]", THEN conjunct1, rule_format, OF a]
  obtain resp where r: "resp \<in> refusals"
    "\<And>input w. conn_reply example_server (?c\<lparr>cn_input := input\<rparr>) w = (Some resp, w)" by blast
  from r(1) r(2) [of "[''x'']" "[]"] show ?thesis by auto
qed

section \<open>A call through the broker\<close>

text \<open>The reply as the client sees it, and the reply the transport carries.\<close>

definition client_view :: "reply \<Rightarrow> json response" where
  "client_view r = \<lparr>rs_v = rs_v r, rs_id = rs_id r, rs_ok = rs_ok r,
     rs_result = map_option result_json (rs_result r), rs_error = rs_error r\<rparr>"

definition transported :: "reply \<Rightarrow> reply" where
  "transported resp =
     (if length (marshal_response resp) > maxResponseBytes
      then Failure (rs_id resp) ''response_too_large'' ''response exceeds transport limit'' False
      else resp)"

lemma response_payload_transported: "response_payload resp = marshal_response (transported resp)"
  by (simp add: response_payload_def transported_def Let_def)

lemma decode_marshal:
  assumes "json_wf max_nesting (response_json result_json r)" "rs_v r = 1"
  shows "decode_response (marshal_response r) = Inr (client_view r)"
proof -
  have "json_decode (marshal_response r) = Some (response_json result_json r)"
    unfolding marshal_response_def by (rule json_decode_print [OF assms(1)])
  moreover obtain ms where "response_json result_json r = JObj ms"
      "decode_members response_step zero_response ms = Some (client_view r)"
    using assms(2) that
    by (cases "rs_result r"; cases "rs_error r")
      (simp_all add: response_json_def response_step_def response_keys dec_jint zero_response_def
        dec_pointer_def decode_error_body result_json_not_null error_body_json_not_null client_view_def)
  ultimately show ?thesis
    unfolding decode_response_def DecodeParams_iff by auto
qed

lemma failure_wf:
  assumes "valid_utf8 i"
  shows "json_wf max_nesting (response_json result_json (Failure i ''response_too_large''
      ''response exceeds transport limit'' False))"
proof -
  have "valid_utf8 ''response_too_large''" "valid_utf8 ''response exceeds transport limit''"
    "valid_utf8 ''v''" "valid_utf8 ''id''" "valid_utf8 ''ok''" "valid_utf8 ''error''"
    "valid_utf8 ''code''" "valid_utf8 ''message''" "valid_utf8 ''retryable''"
    by (rule ascii_valid, simp)+
  with assms show ?thesis
    by (simp add: Failure_def response_json_def error_body_json_def max_nesting_def)
qed

lemma length_too_large:
  assumes "length i \<le> 64"
  shows "length (marshal_response (Failure i ''response_too_large''
      ''response exceeds transport limit'' False)) \<le> 1000"
proof -
  have p: "length (print_string s) \<le> k" if "6 * length s + 2 \<le> k" for s k
    using length_print_string [of s] that by simp
  have "length (print_string ''v'') \<le> 8" "length (print_string ''id'') \<le> 14"
    "length (print_string i) \<le> 386" "length (print_string ''ok'') \<le> 14"
    "length (print_string ''error'') \<le> 32" "length (print_string ''code'') \<le> 26"
    "length (print_string ''response_too_large'') \<le> 110" "length (print_string ''message'') \<le> 44"
    "length (print_string ''response exceeds transport limit'') \<le> 194"
    "length (print_string ''retryable'') \<le> 56"
    using assms by (intro p; simp)+
  then show ?thesis
    by (simp add: marshal_response_def response_json_def Failure_def error_body_json_def jint_def
        Version1_def print_int_def print_nat.simps)
qed

lemma transported_small:
  assumes "length (rs_id resp) \<le> 64"
  shows "marshal_response (transported resp) \<noteq> []"
    "length (marshal_response (transported resp)) \<le> 8 * 2 ^ 20"
  using length_too_large [OF assms]
  by (auto simp: transported_def maxResponseBytes_def marshal_response_def response_json_def)

lemma well_formed_transported: "well_formed_reply i resp \<Longrightarrow> rs_id (transported resp) = i
    \<and> rs_v (transported resp) = 1
    \<and> (rs_ok (transported resp) \<longleftrightarrow> rs_result (transported resp) \<noteq> None)
    \<and> (rs_ok (transported resp) \<longleftrightarrow> rs_error (transported resp) = None)"
  by (auto simp: well_formed_reply_def transported_def Failure_def Version1_def split: if_splits)

lemma check_well_formed:
  "well_formed_reply (rq_id req) resp \<Longrightarrow> check_response req (client_view (transported resp)) =
     Inr (client_view (transported resp))"
  using well_formed_transported [of "rq_id req" resp]
  by (auto simp: check_response_def client_view_def Version1_def)

lemma receive_reply:
  assumes "well_formed_reply (rq_id req) resp" "valid_utf8 (rq_id req)" "length (rq_id req) \<le> 64"
    and "json_wf max_nesting (response_json result_json resp)"
    and "writeResponse resp answers = (sent, Some (Inr ()), rest)" "concat pieces = sent"
  shows "receive req pieces = Inr (client_view (transported resp))"
proof -
  let ?p = "marshal_response (transported resp)"
  note t = well_formed_transported [OF assms(1)]
  have i: "rs_id resp = rq_id req"
    using assms(1) by (auto simp: well_formed_reply_def split: if_split_asm)
  note small = transported_small [of resp, unfolded i, OF assms(3)]
  have wf: "json_wf max_nesting (response_json result_json (transported resp))"
    using assms(2,4) i by (simp add: transported_def failure_wf)
  from assms(5) have w: "WriteFrame ?p answers = (sent, Some (Inr ()), rest)"
    by (simp add: writeResponse_def response_payload_transported)
  let ?n = "of_nat (length ?p) :: 32 word"
  have n: "unat ?n = length ?p" using small(2) by (simp add: unat_of_nat)
  then have "?n \<noteq> 0" using small(1) by (metis length_0_conv unat_0)
  moreover have "?n \<le> responseMaxBytes"
    using n small(2) by (simp add: word_le_nat_alt responseMaxBytes_def)
  moreover have "concat pieces = put_uint32 ?n @ ?p @ []"
    using assms(6) WriteFrame_ok(3) [OF w] by simp
  ultimately have "\<exists>r'. ReadFrame pieces responseMaxBytes = (Inr (take (unat ?n) (?p @ [])), r')
      \<and> concat r' = drop (unat ?n) (?p @ [])"
    using n by (intro ReadFrame_split) auto
  then have "fst (ReadFrame pieces responseMaxBytes) = Inr ?p" using n by auto
  with decode_marshal [OF wf] check_well_formed [OF assms(1)] t show ?thesis
    by (simp add: receive_def)
qed

lemma read_written_request:
  assumes "printable_request req j" "ValidateRequest req = Inr ()"
    and "marshal_request req = Some payload" "length payload \<le> 2 ^ 20"
    and "WriteFrame payload answers = (sent, Some (Inr ()), rest)" "concat pieces = sent"
  shows "read_request pieces = Inr req"
proof -
  note w = WriteFrame_ok [OF assms(5)]
  let ?n = "of_nat (length payload) :: 32 word"
  have n: "unat ?n = length payload" using w(2) by (simp add: unat_of_nat)
  then have "?n \<noteq> 0" using w(1) by (metis length_0_conv unat_0)
  moreover have "?n \<le> RequestMaxBytes"
    using n assms(4) by (simp add: word_le_nat_alt RequestMaxBytes_def)
  ultimately have "\<exists>r'. ReadFrame pieces RequestMaxBytes = (Inr (take (unat ?n) (payload @ [])), r')
      \<and> concat r' = drop (unat ?n) (payload @ [])"
    using assms(6) w(3) n by (intro ReadFrame_split) auto
  then have "fst (ReadFrame pieces RequestMaxBytes) = Inr payload" using n by auto
  moreover have "decode_request payload = Inr req"
    using marshal_request_decode [OF assms(1)] assms(3) by auto
  ultimately show ?thesis using assms(2) by (simp add: read_request_def)
qed

lemma dispatch_reply_well_formed:
  assumes "dispatch s req w = (Some resp, w')"
  shows "well_formed_reply (rq_id req) resp"
proof -
  from assms obtain r w1 where h: "handle s req w = (Some r, w1)" "resp = r \<or> (\<exists>e. resp = backendFailure (rq_id req) [e])"
    by (auto simp: dispatch_def split: prod.split_asm option.split_asm)
  then show ?thesis using handle_well_formed [of s req w r] by auto
qed

lemma call_reply:
  assumes "printable_request req j" "ValidateRequest req = Inr ()"
    and "marshal_request req = Some payload" "length payload \<le> 2 ^ 20"
    and "WriteFrame payload answers = (sent, Some (Inr ()), rest)"
    and "authenticated s c" "concat (cn_input c) = sent"
    and "handleConn s c w = (Some (back, Some (Inr ()), rest'), w')" "concat (peer sent) = back"
  shows "\<exists>resp. dispatch s req w = (Some resp, w')
     \<and> (json_wf max_nesting (response_json result_json resp) \<longrightarrow>
          Call req True answers peer = (sent, Some (Inr (client_view (transported resp)))))"
proof -
  have rr: "read_request (cn_input c) = Inr req"
    by (rule read_written_request [OF assms(1-5,7)])
  then have cr: "conn_reply s c w = dispatch s req w"
    using assms(6) by (simp add: conn_reply_def authenticated_def)
  with assms(8) obtain resp where d: "dispatch s req w = (Some resp, w')"
    "writeResponse resp (cn_answers c) = (back, Some (Inr ()), rest')"
    by (auto simp: handleConn_def split: prod.split_asm option.split_asm)
  have u: "valid_utf8 (rq_id req)" using assms(1) by (simp add: printable_request_def)
  have l: "length (rq_id req) \<le> 64" using ValidateRequest_valid [OF assms(2)] by (simp add: valid_request_def)
  note wf = dispatch_reply_well_formed [OF d(1)]
  have "Call req True answers peer = (sent, Some (Inr (client_view (transported resp))))"
    if "json_wf max_nesting (response_json result_json resp)"
    using receive_reply [OF wf u l that d(2) assms(9)] assms(3,5) by (simp add: Call_def)
  with d(1) show ?thesis by blast
qed

text \<open>C6: A call through the broker returns the broker's own reply.  Whatever way the connection cuts the
  bytes into pieces and accepts them: when the client's request was written completely and the
  broker's answer was, the client accepts the answer and sees exactly what \<open>dispatch\<close> answered to the
  client's own request (or \<open>response_too_large\<close> in place of an answer of more than 8 MiB).  The reply's
  strings must be valid UTF-8, for the encoder replaces other bytes.\<close>

theorem call_returns_reply:
  assumes "printable_request req j" "ValidateRequest req = Inr ()"
    and "marshal_request req = Some payload" "length payload \<le> 2 ^ 20"
    and "WriteFrame payload answers = (sent, Some (Inr ()), rest)"
    and "authenticated s c" "concat (cn_input c) = sent"
    and "handleConn s c w = (Some (back, Some (Inr ()), rest'), w')" "concat (peer sent) = back"
  shows "\<exists>resp. dispatch s req w = (Some resp, w')
     \<and> (json_wf max_nesting (response_json result_json resp) \<longrightarrow>
          Call req True answers peer = (sent, Some (Inr (client_view (transported resp)))))"
  using assms by (rule call_reply)

lemma WriteFrame_all:
  "p \<noteq> [] \<Longrightarrow> length p < 2 ^ 32 \<Longrightarrow> WriteFrame p [Wrote 4, Wrote (int (length p))] =
     (put_uint32 (of_nat (length p)) @ p, Some (Inr ()), [])"
  by (simp add: WriteFrame_def writeAll.simps)

definition example_ping :: request where
  "example_ping = \<lparr>rq_v = 1, rq_id = ''1'', rq_method = MethodSystemPing, rq_params = ''{}''\<rparr>"

lemma example_ping_ok:
  "printable_request example_ping (JObj [])" "ValidateRequest example_ping = Inr ()"
proof -
  have "valid_utf8 ''1''" "valid_utf8 MethodSystemPing"
    by (rule ascii_valid, simp add: MethodSystemPing_def)+
  then show "printable_request example_ping (JObj [])"
    by (simp add: printable_request_def example_ping_def max_nesting_def)
  have "json_decode ''{}'' = Some (JObj [])" by code_simp
  moreover have "trim_space ''1'' = ''1''" "trim_space MethodSystemPing = MethodSystemPing"
    by (rule trim_space_graphic; simp add: MethodSystemPing_def graphic_def)+
  ultimately show "ValidateRequest example_ping = Inr ()"
    using object_params [of "''{}''"]
    by (simp add: ValidateRequest_def example_ping_def Version1_def MethodSystemPing_def)
qed

lemma example_ping_short:
  assumes "marshal_request example_ping = Some payload"
  shows "payload \<noteq> []" "length payload \<le> 1000"
proof -
  have p: "length (print_string s) \<le> k" if "6 * length s + 2 \<le> k" for s k
    using length_print_string [of s] that by simp
  have "length (print_string ''v'') \<le> 8" "length (print_string ''id'') \<le> 14"
    "length (print_string ''1'') \<le> 8" "length (print_string ''method'') \<le> 38"
    "length (print_string MethodSystemPing) \<le> 68" "length (print_string ''params'') \<le> 38"
    by (intro p; simp add: MethodSystemPing_def)+
  moreover have "marshal_raw ''{}'' = Some ''{}''" by code_simp
  ultimately show "payload \<noteq> []" "length payload \<le> 1000"
    using assms by (auto simp: marshal_request_def example_ping_def jint_def print_int_def print_nat.simps)
qed

abbreviation example_pong :: reply where
  "example_pong \<equiv> Success ''1'' PongResult"

lemma example_pong_small:
  "json_wf max_nesting (response_json result_json example_pong)" "transported example_pong = example_pong"
proof -
  have "valid_utf8 ''v''" "valid_utf8 ''id''" "valid_utf8 ''1''" "valid_utf8 ''ok''" "valid_utf8 ''result''" "valid_utf8 ''pong''"
    by (rule ascii_valid, simp)+
  then show "json_wf max_nesting (response_json result_json example_pong)"
    by (simp add: Success_def response_json_def max_nesting_def)
  have p: "length (print_string s) \<le> k" if "6 * length s + 2 \<le> k" for s k
    using length_print_string [of s] that by simp
  have "length (print_string ''v'') \<le> 8" "length (print_string ''id'') \<le> 14"
    "length (print_string ''1'') \<le> 8" "length (print_string ''ok'') \<le> 14"
    "length (print_string ''result'') \<le> 38" "length (print_string ''pong'') \<le> 26"
    by (intro p; simp)+
  then have "length (marshal_response example_pong) \<le> 1000"
    by (simp add: marshal_response_def response_json_def Success_def jint_def Version1_def
        print_int_def print_nat.simps)
  then show "transported example_pong = example_pong" by (simp add: transported_def maxResponseBytes_def)
qed

lemma example_dispatch: "dispatch example_server example_ping [] = (Some example_pong, [])"
proof -
  have "json_decode ''{}'' = Some (JObj [])" by code_simp
  then have "decodeEmpty ''{}'' = Inr ()" by (simp add: decodeEmpty_def DecodeParams_iff)
  then show ?thesis
    by (simp add: dispatch_def handle_def ping_def example_ping_def)
      (simp add: example_server_def example_deps_def)
qed

text \<open>One exchange over a connection that takes every write whole.\<close>

lemma example_exchange:
  obtains payload c sent echo where "marshal_request example_ping = Some payload" "length payload \<le> 2 ^ 20"
    "WriteFrame payload [Wrote 4, Wrote (int (length payload))] = (sent, Some (Inr ()), [])"
    "authenticated example_server c" "concat (cn_input c) = sent"
    "handleConn example_server c [] = (Some (echo, Some (Inr ()), []), [])"
proof -
  obtain payload where m: "marshal_request example_ping = Some payload"
    using marshal_request_decode [OF example_ping_ok(1)] by blast
  note short = example_ping_short [OF m]
  let ?sent = "put_uint32 (of_nat (length payload)) @ payload"
  have l: "length payload \<le> 2 ^ 20" "length payload < 2 ^ 32" using short(2) by simp_all
  have sw: "WriteFrame payload [Wrote 4, Wrote (int (length payload))] = (?sent, Some (Inr ()), [])"
    using l(2) short(1) by (rule WriteFrame_all [rotated])
  let ?reply = "response_payload example_pong"
  have r: "?reply \<noteq> []" "length ?reply < 2 ^ 32"
    using transported_small [of example_pong] by (auto simp: response_payload_transported Success_def)
  let ?echo = "put_uint32 (of_nat (length ?reply)) @ ?reply"
  let ?c = "\<lparr>cn_unix = True, cn_peer = Some (cf_client_uid (sv_cfg example_server)), cn_input = [?sent],
      cn_answers = [Wrote 4, Wrote (int (length ?reply))]\<rparr>"
  have a: "authenticated example_server ?c" by (simp add: authenticated_def)
  have i: "concat (cn_input ?c) = ?sent" by simp
  have cr: "conn_reply example_server ?c [] = (Some example_pong, [])"
    using read_written_request [OF example_ping_ok m l(1) sw i] example_dispatch by (simp add: conn_reply_def)
  have "handleConn example_server ?c [] = (Some (?echo, Some (Inr ()), []), [])"
    using WriteFrame_all [OF r] by (simp add: handleConn_def cr writeResponse_def)
  from that [OF m l(1) sw a i this] show ?thesis .
qed

lemma call_returns_reply_witness:
  "\<exists>sent answers peer. Call example_ping True answers peer = (sent, Some (Inr (client_view example_pong)))"
proof -
  obtain payload c sent echo where e: "marshal_request example_ping = Some payload" "length payload \<le> 2 ^ 20"
    "WriteFrame payload [Wrote 4, Wrote (int (length payload))] = (sent, Some (Inr ()), [])"
    "authenticated example_server c" "concat (cn_input c) = sent"
    "handleConn example_server c [] = (Some (echo, Some (Inr ()), []), [])" by (rule example_exchange)
  have b: "concat ((\<lambda>_. [echo]) sent) = echo" by simp
  from call_returns_reply [OF example_ping_ok e(1-6) b] example_dispatch example_pong_small show ?thesis
    by fastforce
qed

end
