(* ===== verification/Contacts.thy ===== *)
theory Contacts
  imports BrokerSafety
begin

text \<open>
  \<open>internal/contacts/source.go\<close>: deriving grants from a snapshot of the owner's contact lists
  (\<open>Identities\<close>), and the manager that keeps the last good snapshot (\<open>Refresh\<close>, \<open>Get\<close>, \<open>Status\<close>,
  \<open>Run\<close>).  A refresh publishes its outcome in one critical section, so a reader sees the state after
  a whole number of refreshes.  The clock is read where the code reads it; an instant is a number of
  nanoseconds since the zero \<open>time.Time\<close>, the beginning of the year 1.  The locale \<open>grant_source\<close> is
  what the broker's \<open>loadPolicy\<close> relies on; it is interpreted on the manager.
\<close>

section \<open>Errors\<close>

text \<open>A \<open>contacts.Error\<close> is a string; any other error is only known not to be one.\<close>

datatype contacts_error = Code string | OtherError

definition Unavailable :: string where "Unavailable = ''contacts_unavailable''"
definition Invalid :: string where "Invalid = ''contacts_invalid_response''"
definition PermissionRequired :: string where "PermissionRequired = ''contacts_permission_required''"
definition PermissionDenied :: string where "PermissionDenied = ''contacts_permission_denied''"
definition SelectionMissing :: string where "SelectionMissing = ''contacts_selection_missing''"
definition Overflow :: string where "Overflow = ''contacts_overflow''"
definition StoreChanged :: string where "StoreChanged = ''contacts_store_changed''"
definition Timeout :: string where "Timeout = ''contacts_timeout''"
definition UnsafeHelper :: string where "UnsafeHelper = ''contacts_unsafe_helper''"
definition Unsupported :: string where "Unsupported = ''contacts_unsupported_platform''"
definition InvalidConfig :: string where "InvalidConfig = ''contacts_invalid_config''"

definition known_codes :: "string list" where
  "known_codes = [Unavailable, Invalid, PermissionRequired, PermissionDenied, SelectionMissing, Overflow,
     StoreChanged, Timeout, UnsafeHelper, Unsupported, InvalidConfig]"

lemmas code_defs = Unavailable_def Invalid_def PermissionRequired_def PermissionDenied_def
  SelectionMissing_def Overflow_def StoreChanged_def Timeout_def UnsafeHelper_def Unsupported_def
  InvalidConfig_def

definition ErrorCode :: "contacts_error \<Rightarrow> string" where
  "ErrorCode e = (case e of Code code \<Rightarrow> if code \<in> set known_codes then code else Unavailable
     | OtherError \<Rightarrow> Unavailable)"

section \<open>Snapshots\<close>

record contact =
  ct_id :: string
  ct_phones :: "string list option"
  ct_emails :: "string list option"

record snapshot =
  sn_container_id :: string
  sn_group_ids :: "string list option"
  sn_contacts :: "contact list option"
  sn_complete :: bool

text \<open>The digits of a national number; the loop over runes meets the \<open>default\<close> branch at the first
  byte of a non-ASCII rune.\<close>

fun national_digits :: "string \<Rightarrow> string option" where
  "national_digits [] = Some []"
| "national_digits (c # cs) =
     (if ascii_digit c then map_option ((#) c) (national_digits cs)
      else if c \<in> {CHR '' '', CHR ''('', CHR '')'', CHR ''-'', CHR ''.''} then national_digits cs
      else None)"

datatype phone_error = NotNational | NotIdentity identity_error

definition national_number :: "string \<Rightarrow> string option" where
  "national_number digits =
     (let digits = (if length digits = 10 then CHR ''1'' # digits else digits) in
      if length digits \<noteq> 11 \<or> digits ! 0 \<noteq> CHR ''1'' \<or> byte (digits ! 1) < byte CHR ''2''
         \<or> byte (digits ! 4) < byte CHR ''2''
      then None else Some (CHR ''+'' # digits))"

definition NormalizePhone :: "string \<Rightarrow> string \<Rightarrow> phone_error + string" where
  "NormalizePhone raw region =
     (let value = trim_space raw in
      case (if \<not> has_prefix ''+'' value \<and> (region = ''US'' \<or> region = ''CA'')
            then Option.bind (national_digits value) national_number else Some value) of
        None \<Rightarrow> Inl NotNational
      | Some value \<Rightarrow> map_sum NotIdentity id (NormalizeIdentity value))"

text \<open>The loops over the groups and the contacts; \<open>None\<close> when the snapshot is invalid.\<close>

fun check_groups :: "string set option \<Rightarrow> string set \<Rightarrow> string list \<Rightarrow> bool" where
  "check_groups want seen [] = True"
| "check_groups want seen (g # gs) =
     (if g = [] \<or> length g > 512 \<or> g \<in> seen \<or> (case want of None \<Rightarrow> False | Some w \<Rightarrow> g \<notin> w) then False
      else check_groups (map_option (\<lambda>w. w - {g}) want) (insert g seen) gs)"

definition phone_grant :: "string \<Rightarrow> string \<Rightarrow> string option" where
  "phone_grant region phone =
     (case NormalizePhone phone region of
        Inl _ \<Rightarrow> None
      | Inr normalized \<Rightarrow> if has_prefix ''+'' normalized then Some normalized else None)"

definition email_grant :: "string \<Rightarrow> string option" where
  "email_grant email =
     (case NormalizeIdentity email of
        Inl _ \<Rightarrow> None
      | Inr normalized \<Rightarrow> if contains_char CHR ''@'' normalized then Some normalized else None)"

text \<open>The loop over the phones of a contact, and over its emails: the identities so far and the
  number of fields skipped.\<close>

fun grant_fields ::
  "(string \<Rightarrow> string option) \<Rightarrow> string list \<Rightarrow> string set \<times> nat \<Rightarrow> (string set \<times> nat) option" where
  "grant_fields grant [] acc = Some acc"
| "grant_fields grant (raw # raws) (ids, skipped) =
     (if length raw > 512 then None
      else grant_fields grant raws
        (case grant raw of None \<Rightarrow> (ids, Suc skipped) | Some i \<Rightarrow> (insert i ids, skipped)))"

fun contact_loop ::
  "string \<Rightarrow> string set \<Rightarrow> contact list \<Rightarrow> string set \<times> nat \<Rightarrow> (string set \<times> nat) option" where
  "contact_loop region seen [] acc = Some acc"
| "contact_loop region seen (c # cs) acc =
     (if ct_id c = [] \<or> length (ct_id c) > 512 \<or> ct_id c \<in> seen then None
      else (case (ct_phones c, ct_emails c) of
          (Some phones, Some emails) \<Rightarrow>
            if length phones > 100 \<or> length emails > 100 then None
            else Option.bind (grant_fields (phone_grant region) phones acc) (\<lambda>acc.
              Option.bind (grant_fields email_grant emails acc)
                (contact_loop region (insert (ct_id c) seen) cs))
        | _ \<Rightarrow> None))"

definition Identities :: "contacts_source \<Rightarrow> snapshot \<Rightarrow> contacts_error + string list \<times> nat" where
  "Identities cfg snap =
     (case (sn_contacts snap, sn_group_ids snap) of
        (Some contacts, Some groups) \<Rightarrow>
          if \<not> sn_complete snap \<or> sn_container_id snap \<noteq> cs_container_id cfg
             \<or> int (length contacts) > cs_max_contacts cfg \<or> length groups > 100
             \<or> (case cs_group_ids cfg of None \<Rightarrow> False | Some ids \<Rightarrow> length groups \<noteq> length ids)
          then Inl (Code Invalid)
          else if \<not> check_groups (map_option set (cs_group_ids cfg)) {} groups then Inl (Code Invalid)
          else if groups = [] \<and> contacts \<noteq> [] then Inl (Code Invalid)
          else (case contact_loop (cs_default_phone_region cfg) {} contacts ({}, 0) of
              None \<Rightarrow> Inl (Code Invalid)
            | Some (ids, skipped) \<Rightarrow> Inr (sorted_list_of_set ids, skipped))
      | _ \<Rightarrow> Inl (Code Invalid))"

section \<open>What a snapshot grants\<close>

definition contact_ok :: "contact \<Rightarrow> bool" where
  "contact_ok c \<longleftrightarrow> ct_id c \<noteq> [] \<and> length (ct_id c) \<le> 512
     \<and> (\<exists>phones emails. ct_phones c = Some phones \<and> ct_emails c = Some emails
         \<and> length phones \<le> 100 \<and> length emails \<le> 100
         \<and> (\<forall>f \<in> set phones \<union> set emails. length f \<le> 512))"

definition snapshot_ok :: "contacts_source \<Rightarrow> snapshot \<Rightarrow> bool" where
  "snapshot_ok cfg snap \<longleftrightarrow> sn_complete snap \<and> sn_container_id snap = cs_container_id cfg
     \<and> (\<exists>contacts groups. sn_contacts snap = Some contacts \<and> sn_group_ids snap = Some groups
         \<and> int (length contacts) \<le> cs_max_contacts cfg \<and> length groups \<le> 100
         \<and> distinct groups \<and> (\<forall>g \<in> set groups. g \<noteq> [] \<and> length g \<le> 512)
         \<and> (\<forall>ids. cs_group_ids cfg = Some ids \<longrightarrow> length groups = length ids \<and> set groups \<subseteq> set ids)
         \<and> (groups = [] \<longrightarrow> contacts = [])
         \<and> distinct (map ct_id contacts) \<and> (\<forall>c \<in> set contacts. contact_ok c))"

text \<open>The fields of a contact with what each grants.\<close>

definition contact_fields :: "string \<Rightarrow> contact \<Rightarrow> string option list" where
  "contact_fields region c = map (phone_grant region) (case ct_phones c of None \<Rightarrow> [] | Some ps \<Rightarrow> ps)
     @ map email_grant (case ct_emails c of None \<Rightarrow> [] | Some es \<Rightarrow> es)"

definition snapshot_fields :: "contacts_source \<Rightarrow> snapshot \<Rightarrow> string option list" where
  "snapshot_fields cfg snap =
     concat (map (contact_fields (cs_default_phone_region cfg)) (case sn_contacts snap of None \<Rightarrow> [] | Some cs \<Rightarrow> cs))"

definition granted :: "contacts_source \<Rightarrow> snapshot \<Rightarrow> string set" where
  "granted cfg snap = {i. Some i \<in> set (snapshot_fields cfg snap)}"

definition omitted :: "contacts_source \<Rightarrow> snapshot \<Rightarrow> nat" where
  "omitted cfg snap = count_list (snapshot_fields cfg snap) None"

lemma check_groups_iff:
  "check_groups want seen gs \<longleftrightarrow> distinct gs \<and> set gs \<inter> seen = {}
     \<and> (\<forall>g \<in> set gs. g \<noteq> [] \<and> length g \<le> 512) \<and> (\<forall>w. want = Some w \<longrightarrow> set gs \<subseteq> w)"
  by (induction want seen gs rule: check_groups.induct) (auto split: option.splits)

lemma grant_fields_iff:
  "grant_fields grant fs (ids, k) = Some r \<longleftrightarrow> (\<forall>f \<in> set fs. length f \<le> 512)
     \<and> r = (ids \<union> {i. Some i \<in> set (map grant fs)}, k + count_list (map grant fs) None)"
proof (induction fs arbitrary: ids k)
  case Nil
  then show ?case by auto
next
  case (Cons f fs)
  show ?case
    by (cases "grant f") (auto simp: Cons.IH)
qed

lemma contact_fields_some:
  "ct_phones c = Some ps \<Longrightarrow> ct_emails c = Some es \<Longrightarrow>
     contact_fields region c = map (phone_grant region) ps @ map email_grant es"
  by (simp add: contact_fields_def)

lemma contact_loop_iff:
  "contact_loop region seen cs (ids, k) = Some r \<longleftrightarrow> distinct (map ct_id cs)
     \<and> ct_id ` set cs \<inter> seen = {} \<and> (\<forall>c \<in> set cs. contact_ok c)
     \<and> r = (ids \<union> {i. Some i \<in> set (concat (map (contact_fields region) cs))},
            k + count_list (concat (map (contact_fields region) cs)) None)"
proof (induction cs arbitrary: seen ids k)
  case Nil
  then show ?case by auto
next
  case (Cons c cs)
  show ?case
  proof (cases "contact_ok c \<and> ct_id c \<notin> seen")
    case True
    then obtain ps es where c: "ct_phones c = Some ps" "ct_emails c = Some es" "length ps \<le> 100"
      "length es \<le> 100" "\<forall>f \<in> set ps \<union> set es. length f \<le> 512" "ct_id c \<noteq> []" "length (ct_id c) \<le> 512"
      "ct_id c \<notin> seen" by (auto simp: contact_ok_def)
    let ?i = "ids \<union> {i. Some i \<in> set (contact_fields region c)}" and ?k = "k + count_list (contact_fields region c) None"
    have "grant_fields (phone_grant region) ps (ids, k) = Some (ids \<union> {i. Some i \<in> set (map (phone_grant region) ps)},
        k + count_list (map (phone_grant region) ps) None)"
      using c(5) by (simp only: grant_fields_iff) blast
    moreover have "grant_fields email_grant es (ids \<union> {i. Some i \<in> set (map (phone_grant region) ps)},
        k + count_list (map (phone_grant region) ps) None) = Some (?i, ?k)"
      using c(5) by (auto simp: grant_fields_iff contact_fields_some [OF c(1,2)] count_list_append)
    ultimately have "contact_loop region seen (c # cs) (ids, k) =
        contact_loop region (insert (ct_id c) seen) cs (?i, ?k)"
      using c by simp
    moreover have "{i. Some i \<in> set (concat (map (contact_fields region) (c # cs)))} =
        {i. Some i \<in> set (contact_fields region c)} \<union> {i. Some i \<in> set (concat (map (contact_fields region) cs))}"
      by auto
    ultimately show ?thesis
      using True by (auto simp: Cons.IH count_list_append)
  next
    case False
    have "contact_loop region seen (c # cs) (ids, k) = None"
    proof (cases "ct_id c = [] \<or> length (ct_id c) > 512 \<or> ct_id c \<in> seen")
      case True
      then show ?thesis by auto
    next
      case g: False
      show ?thesis
      proof (cases "\<exists>ps es. ct_phones c = Some ps \<and> ct_emails c = Some es \<and> length ps \<le> 100 \<and> length es \<le> 100")
        case True
        then obtain ps es where c: "ct_phones c = Some ps" "ct_emails c = Some es" "length ps \<le> 100" "length es \<le> 100"
          by blast
        with False g have "\<not> (\<forall>f \<in> set ps. length f \<le> 512) \<or> \<not> (\<forall>f \<in> set es. length f \<le> 512)"
          by (auto simp: contact_ok_def)
        then have "grant_fields (phone_grant region) ps (ids, k) = None \<or> (\<forall>acc. grant_fields email_grant es acc = None)"
          using grant_fields_iff [of "phone_grant region" ps ids k] grant_fields_iff [of email_grant es]
          by (metis option.exhaust surj_pair)
        with c g show ?thesis by (auto split: bind_split)
      next
        case False
        with g show ?thesis by (cases "ct_phones c"; cases "ct_emails c") auto
      qed
    qed
    with False show ?thesis by auto
  qed
qed

lemma Identities_iff:
  "Identities cfg snap = Inr (ids, k) \<longleftrightarrow>
     snapshot_ok cfg snap \<and> ids = sorted_list_of_set (granted cfg snap) \<and> k = omitted cfg snap"
proof (cases "\<exists>contacts groups. sn_contacts snap = Some contacts \<and> sn_group_ids snap = Some groups")
  case True
  then obtain contacts groups where s: "sn_contacts snap = Some contacts" "sn_group_ids snap = Some groups" by blast
  let ?region = "cs_default_phone_region cfg"
  have f: "granted cfg snap = {i. Some i \<in> set (concat (map (contact_fields ?region) contacts))}"
    "omitted cfg snap = count_list (concat (map (contact_fields ?region) contacts)) None"
    by (simp_all add: granted_def omitted_def snapshot_fields_def s)
  show ?thesis
  proof (cases "contact_loop ?region {} contacts ({}, 0)")
    case None
    then have "\<not> (distinct (map ct_id contacts) \<and> (\<forall>c \<in> set contacts. contact_ok c))"
      using contact_loop_iff [of ?region "{}" contacts "{}" 0] by auto
    then have "\<not> snapshot_ok cfg snap" using s by (simp add: snapshot_ok_def)
    moreover have "Identities cfg snap = Inl (Code Invalid)" by (simp add: Identities_def s None)
    ultimately show ?thesis by simp
  next
    case (Some r)
    then have r: "distinct (map ct_id contacts)" "\<forall>c \<in> set contacts. contact_ok c"
      "r = (granted cfg snap, omitted cfg snap)"
      by (auto simp: contact_loop_iff f)
    let ?guards = "sn_complete snap \<and> sn_container_id snap = cs_container_id cfg
      \<and> int (length contacts) \<le> cs_max_contacts cfg \<and> length groups \<le> 100
      \<and> \<not> (case cs_group_ids cfg of None \<Rightarrow> False | Some ids \<Rightarrow> length groups \<noteq> length ids)
      \<and> check_groups (map_option set (cs_group_ids cfg)) {} groups \<and> (groups = [] \<longrightarrow> contacts = [])"
    have "Identities cfg snap = (if ?guards
        then Inr (sorted_list_of_set (granted cfg snap), omitted cfg snap) else Inl (Code Invalid))"
      by (simp add: Identities_def s Some r(3) not_less)
    moreover have "snapshot_ok cfg snap \<longleftrightarrow> ?guards"
      using r(1,2) by (cases "cs_group_ids cfg") (auto simp: snapshot_ok_def s check_groups_iff)
    ultimately show ?thesis by auto
  qed
next
  case False
  then have "Identities cfg snap = Inl (Code Invalid)"
    by (cases "sn_contacts snap"; cases "sn_group_ids snap") (simp_all add: Identities_def)
  moreover have "\<not> snapshot_ok cfg snap" using False unfolding snapshot_ok_def by blast
  ultimately show ?thesis by simp
qed

lemma NormalizePhone_normal: "NormalizePhone raw region = Inr i \<Longrightarrow> identity.normal i"
  by (auto simp: NormalizePhone_def Let_def map_sum_def intro: identity.normal_norm
      split: option.split_asm sum.split_asm)

lemma granted_normal: "i \<in> granted cfg snap \<Longrightarrow> identity.normal i"
  by (auto simp: granted_def snapshot_fields_def contact_fields_def phone_grant_def email_grant_def
      intro: NormalizePhone_normal identity.normal_norm split: sum.split_asm if_split_asm)

lemma finite_granted: "finite (granted cfg snap)"
proof -
  have "granted cfg snap = Some -` set (snapshot_fields cfg snap)" by (auto simp: granted_def)
  then show ?thesis by (simp add: finite_vimageI)
qed

section \<open>The manager\<close>

type_synonym instant = int

definition seconds :: "int \<Rightarrow> instant" where "seconds n = n * 10 ^ 9"

record manager =
  mg_identities :: "string list option"
  mg_last_attempt :: instant
  mg_last_success :: instant
  mg_last_error :: string

definition NewManager :: manager where
  "NewManager = \<lparr>mg_identities = None, mg_last_attempt = 0, mg_last_success = 0, mg_last_error = []\<rparr>"

text \<open>What a refresh meets: the clock before and after, what \<open>fetch\<close> returned, whether the refresh's
  context had ended by then; and whether the broker was told to stop while \<open>Run\<close> waited after it.\<close>

record refresh =
  rf_started :: instant
  rf_fetched :: "contacts_error + snapshot"
  rf_ctx_ended :: bool
  rf_finished :: instant
  rf_stop :: bool

definition refresh_result :: "contacts_source \<Rightarrow> refresh \<Rightarrow> contacts_error + string list" where
  "refresh_result cfg e =
     (if rf_ctx_ended e then Inl (Code Timeout)
      else (case rf_fetched e of
          Inl err \<Rightarrow> Inl err
        | Inr snap \<Rightarrow> map_sum id fst (Identities cfg snap)))"

definition Refresh :: "contacts_source \<Rightarrow> refresh \<Rightarrow> manager \<Rightarrow> manager" where
  "Refresh cfg e m =
     (case refresh_result cfg e of
        Inr ids \<Rightarrow> m\<lparr>mg_last_attempt := rf_started e, mg_identities := Some ids,
                    mg_last_success := rf_finished e, mg_last_error := []\<rparr>
      | Inl err \<Rightarrow>
          (let code = ErrorCode err; m = m\<lparr>mg_last_attempt := rf_started e, mg_last_error := code\<rparr> in
           if code \<noteq> Unavailable \<and> code \<noteq> Timeout \<and> code \<noteq> StoreChanged
           then m\<lparr>mg_identities := None\<rparr> else m))"

text \<open>The loop of \<open>Run\<close>: a refresh at once and after every tick, until the broker stops.\<close>

fun Run :: "contacts_source \<Rightarrow> refresh list \<Rightarrow> manager \<Rightarrow> manager" where
  "Run cfg [] m = m"
| "Run cfg (e # es) m = (if rf_stop e then Refresh cfg e m else Run cfg es (Refresh cfg e m))"

definition available :: "contacts_source \<Rightarrow> instant \<Rightarrow> manager \<Rightarrow> bool" where
  "available cfg now m \<longleftrightarrow> mg_identities m \<noteq> None \<and> \<not> now < mg_last_success m
     \<and> now < mg_last_success m + seconds (cs_max_age_seconds cfg)"

definition Get :: "contacts_source \<Rightarrow> instant \<Rightarrow> manager \<Rightarrow> contacts_error + string list" where
  "Get cfg now m =
     (if \<not> available cfg now m then Inl (Code Unavailable)
      else (case mg_identities m of None \<Rightarrow> Inr [] | Some ids \<Rightarrow> Inr ids))"

text \<open>\<open>t.UTC().Format(time.RFC3339)\<close>: the civil date is counted in days from 0001-01-01.\<close>

definition civil_of :: "instant \<Rightarrow> civil" where
  "civil_of t =
     (let s = t div 10 ^ 9; d = nat (s mod 86400) in
      case shift_days (s div 86400) (1, 1, 1) of
        (y, mo, da) \<Rightarrow> \<lparr>year = y, month = mo, day = da, hour = d div 3600, minute = d div 60 mod 60,
          second = d mod 60, nano = nat (t mod 10 ^ 9)\<rparr>)"

definition format_instant :: "instant \<Rightarrow> string" where
  "format_instant t = format_rfc3339 (civil_of t)"

definition Status :: "contacts_source \<Rightarrow> instant \<Rightarrow> manager \<Rightarrow> contacts_policy_info" where
  "Status cfg now m =
     \<lparr>ci_state = (if available cfg now m then if mg_last_error m \<noteq> [] then ''degraded'' else ''ready''
                  else ''unavailable''),
      ci_last_attempt_at = (if mg_last_attempt m = 0 then [] else format_instant (mg_last_attempt m)),
      ci_last_success_at = (if mg_last_success m = 0 then [] else format_instant (mg_last_success m)),
      ci_expires_at = (if mg_last_success m = 0 then []
        else format_instant (mg_last_success m + seconds (cs_max_age_seconds cfg))),
      ci_last_error_code = mg_last_error m\<rparr>"

section \<open>Which refresh the grants come from\<close>

definition transient :: "contacts_source \<Rightarrow> refresh \<Rightarrow> bool" where
  "transient cfg e \<longleftrightarrow>
     (\<exists>err. refresh_result cfg e = Inl err \<and> ErrorCode err \<in> {Unavailable, Timeout, StoreChanged})"

text \<open>The last refresh that was not a transient failure.\<close>

definition decisive :: "contacts_source \<Rightarrow> refresh list \<Rightarrow> refresh option" where
  "decisive cfg es = find (\<lambda>e. \<not> transient cfg e) (rev es)"

definition running :: "refresh list \<Rightarrow> bool" where
  "running es \<longleftrightarrow> (\<forall>e \<in> set (butlast es). \<not> rf_stop e)"

lemma Run_snoc: "running (es @ [e]) \<Longrightarrow> Run cfg (es @ [e]) m = Refresh cfg e (Run cfg es m)"
  by (induction es arbitrary: m) (auto simp: running_def split: if_splits)

lemma running_prefix: "running (es @ [e]) \<Longrightarrow> running es"
  by (auto simp: running_def dest: in_set_butlastD)

lemma decisive_snoc: "decisive cfg (es @ [e]) = (if transient cfg e then decisive cfg es else Some e)"
  by (simp add: decisive_def)

lemma Refresh_transient:
  "transient cfg e \<Longrightarrow> mg_identities (Refresh cfg e m) = mg_identities m
     \<and> mg_last_success (Refresh cfg e m) = mg_last_success m"
  by (auto simp: transient_def Refresh_def Let_def)

lemma Refresh_decisive:
  "\<not> transient cfg e \<Longrightarrow> mg_identities (Refresh cfg e m) =
     (case refresh_result cfg e of Inl _ \<Rightarrow> None | Inr ids \<Rightarrow> Some ids)
     \<and> (is_ok (refresh_result cfg e) \<longrightarrow> mg_last_success (Refresh cfg e m) = rf_finished e)"
  by (auto simp: transient_def Refresh_def Let_def split: sum.split)

lemma Run_state:
  assumes "running es"
  shows "mg_identities (Run cfg es NewManager) =
      (case decisive cfg es of None \<Rightarrow> None
       | Some e \<Rightarrow> (case refresh_result cfg e of Inl _ \<Rightarrow> None | Inr ids \<Rightarrow> Some ids))
    \<and> (\<forall>e. decisive cfg es = Some e \<longrightarrow> is_ok (refresh_result cfg e) \<longrightarrow>
        mg_last_success (Run cfg es NewManager) = rf_finished e)"
  using assms
proof (induction es rule: rev_induct)
  case Nil
  then show ?case by (simp add: NewManager_def decisive_def)
next
  case (snoc e es)
  show ?case
    using snoc.IH [OF running_prefix [OF snoc.prems]] Refresh_transient [of cfg e] Refresh_decisive [of cfg e]
    by (auto simp: Run_snoc [OF snoc.prems] decisive_snoc)
qed

lemma refresh_result_ok:
  "refresh_result cfg e = Inr ids \<longleftrightarrow> \<not> rf_ctx_ended e \<and> (\<exists>snap. rf_fetched e = Inr snap
     \<and> snapshot_ok cfg snap \<and> ids = sorted_list_of_set (granted cfg snap))"
proof (cases "rf_fetched e")
  case (Inr snap)
  have "map_sum id fst (Identities cfg snap) = Inr ids \<longleftrightarrow> (\<exists>k. Identities cfg snap = Inr (ids, k))"
    by (cases "Identities cfg snap") auto
  with Inr show ?thesis by (auto simp: refresh_result_def Identities_iff)
qed (simp add: refresh_result_def)

lemma Get_iff:
  assumes "running es"
  shows "Get cfg now (Run cfg es NewManager) = Inr ids \<longleftrightarrow>
     (\<exists>e snap. decisive cfg es = Some e \<and> \<not> rf_ctx_ended e \<and> rf_fetched e = Inr snap
        \<and> snapshot_ok cfg snap \<and> ids = sorted_list_of_set (granted cfg snap)
        \<and> rf_finished e \<le> now \<and> now < rf_finished e + seconds (cs_max_age_seconds cfg))"
proof (cases "decisive cfg es")
  case None
  with Run_state [OF assms, of cfg] show ?thesis by (simp add: Get_def available_def)
next
  case (Some e)
  show ?thesis
  proof (cases "refresh_result cfg e")
    case (Inl err)
    with Run_state [OF assms, of cfg] Some refresh_result_ok [of cfg e] show ?thesis
      by (auto simp: Get_def available_def)
  next
    case (Inr ids')
    with Run_state [OF assms, of cfg] Some have
      "mg_identities (Run cfg es NewManager) = Some ids'" "mg_last_success (Run cfg es NewManager) = rf_finished e"
      by simp_all
    then have "Get cfg now (Run cfg es NewManager) = Inr ids \<longleftrightarrow> ids' = ids
        \<and> rf_finished e \<le> now \<and> now < rf_finished e + seconds (cs_max_age_seconds cfg)"
      by (auto simp: Get_def available_def)
    with Inr Some show ?thesis
      using refresh_result_ok [of cfg e ids] refresh_result_ok [of cfg e ids'] by auto
  qed
qed

section \<open>The grants in the broker\<close>

text \<open>What \<open>loadPolicy\<close> relies on: the source hands out identities in normal form, so that adding
  them to a policy cannot fail.\<close>

locale grant_source =
  fixes grants :: "'w \<Rightarrow> string list option \<times> 'w"
  assumes grants_normal: "grants w = (Some ids, w') \<Longrightarrow> i \<in> set ids \<Longrightarrow> identity.normal i"
begin

lemma grants_accepted:
  assumes "grants w = (Some ids, w')"
  shows "WithDirect p ids = Inr (p\<lparr>direct := direct p \<union> (set ids - owners p)\<rparr>)"
proof -
  have "map_sum_list NormalizeIdentity ids = Inr ids"
    using grants_normal [OF assms] identity.norm_all_normal by blast
  then show ?thesis by (auto simp: WithDirect_iff)
qed

lemma loadPolicy_grants:
  assumes "dp_contacts_get (sv_deps s) = grants" "cf_contacts (sv_cfg s) \<noteq> None"
  shows "loadPolicy s i w = (Inr q, w') \<longleftrightarrow>
     (\<exists>p w1 ids. dp_load_policy (sv_deps s) (cf_policy_path (sv_cfg s)) w = (Some p, w1)
        \<and> grants w1 = (Some ids, w') \<and> q = p\<lparr>direct := direct p \<union> (set ids - owners p)\<rparr>)"
proof -
  obtain r w1 where l: "dp_load_policy (sv_deps s) (cf_policy_path (sv_cfg s)) w = (r, w1)" by fastforce
  obtain g w2 where g: "grants w1 = (g, w2)" by fastforce
  show ?thesis
    using assms(2) grants_accepted [of w1 _ w2] g
    by (cases r; cases g) (auto simp: loadPolicy_def Let_def l assms(1) simp del: not_None_eq)
qed

end

text \<open>The manager as the broker's source; the world holds the refreshes so far and the clock.\<close>

definition manager_grants ::
  "contacts_source \<Rightarrow> refresh list \<times> instant \<Rightarrow> string list option \<times> (refresh list \<times> instant)" where
  "manager_grants cfg w = (case w of (es, now) \<Rightarrow>
     (case Get cfg now (Run cfg es NewManager) of Inl _ \<Rightarrow> None | Inr ids \<Rightarrow> Some ids, w))"

text \<open>After the broker has stopped the loop there is no further refresh.\<close>

fun until_stop :: "refresh list \<Rightarrow> refresh list" where
  "until_stop [] = []"
| "until_stop (e # es) = (if rf_stop e then [e] else e # until_stop es)"

lemma Run_until_stop: "Run cfg (until_stop es) m = Run cfg es m"
  by (induction es arbitrary: m) auto

lemma running_until_stop: "running (until_stop es)"
proof (induction es)
  case (Cons e es)
  then show ?case by (cases "until_stop es = []") (auto simp: running_def)
qed (simp add: running_def)

interpretation manager: grant_source "manager_grants cfg"
proof
  fix w ids w' i
  assume g: "manager_grants cfg w = (Some ids, w')" "i \<in> set ids"
  obtain es now where w: "w = (es, now)" by fastforce
  from g(1) have "Get cfg now (Run cfg (until_stop es) NewManager) = Inr ids"
    by (auto simp: manager_grants_def w Run_until_stop split: sum.split_asm)
  then obtain snap where "ids = sorted_list_of_set (granted cfg snap)"
    using Get_iff [OF running_until_stop] by blast
  with g(2) finite_granted have "i \<in> granted cfg snap" by simp
  then show "identity.normal i" by (rule granted_normal)
qed

section \<open>Properties\<close>

text \<open>C10: Contact lists grant all or nothing: \<open>Identities\<close> accepts a snapshot exactly when it is complete, is of
  the configured container and of exactly the configured groups (any groups if none are configured), and
  is within every bound; it then grants exactly the identities of the phone and email fields that
  normalise to a number or an address, sorted, and counts the fields it leaves out.\<close>

theorem identities_iff:
  "Identities cfg snap = Inr (ids, k) \<longleftrightarrow>
     snapshot_ok cfg snap \<and> ids = sorted_list_of_set (granted cfg snap) \<and> k = omitted cfg snap"
  by (rule Identities_iff)

text \<open>C11: Contact grants are never stale.  Whatever the refreshes so far were, the manager hands out identities
  exactly when the last refresh that was not a transient failure (the source unavailable, timed out or
  changing) succeeded with an acceptable snapshot, and the clock lies within the maximal age of that
  success; they are then the grants of that snapshot.  Any other failure revokes everything at once.\<close>

theorem grants_fresh:
  assumes "running es"
  shows "Get cfg now (Run cfg es NewManager) = Inr ids \<longleftrightarrow>
     (\<exists>e snap. decisive cfg es = Some e \<and> \<not> rf_ctx_ended e \<and> rf_fetched e = Inr snap
        \<and> snapshot_ok cfg snap \<and> ids = sorted_list_of_set (granted cfg snap)
        \<and> rf_finished e \<le> now \<and> now < rf_finished e + seconds (cs_max_age_seconds cfg))"
  using assms by (rule Get_iff)

definition example_source :: contacts_source where
  "example_source = \<lparr>cs_helper_path = ''/h'', cs_container_id = ''c'', cs_group_ids = None,
     cs_default_phone_region = [], cs_refresh_seconds = 900, cs_max_age_seconds = 3600,
     cs_timeout_ms = 10000, cs_max_contacts = 1000\<rparr>"

definition example_snapshot :: snapshot where
  "example_snapshot = \<lparr>sn_container_id = ''c'', sn_group_ids = Some [''friends''],
     sn_contacts = Some [\<lparr>ct_id = ''p'', ct_phones = Some [''+14155550100''], ct_emails = Some []\<rparr>],
     sn_complete = True\<rparr>"

definition example_refreshes :: "refresh list" where
  "example_refreshes = [\<lparr>rf_started = 0, rf_fetched = Inr example_snapshot, rf_ctx_ended = False,
       rf_finished = 1, rf_stop = False\<rparr>,
     \<lparr>rf_started = seconds 900, rf_fetched = Inl (Code StoreChanged), rf_ctx_ended = False,
       rf_finished = seconds 901, rf_stop = True\<rparr>]"

lemma example_snapshot_grants:
  "snapshot_ok example_source example_snapshot" "granted example_source example_snapshot = {''+14155550100''}"
proof -
  have "trim_space ''+14155550100'' = ''+14155550100''"
    by (rule trim_space_graphic) (simp_all add: graphic_def)
  then have "phone_grant [] ''+14155550100'' = Some ''+14155550100''"
    by (simp add: phone_grant_def NormalizePhone_def phone_examples has_prefix_def)
  then show "snapshot_ok example_source example_snapshot" "granted example_source example_snapshot = {''+14155550100''}"
    by (auto simp: snapshot_ok_def contact_ok_def granted_def snapshot_fields_def contact_fields_def
        example_source_def example_snapshot_def)
qed

lemma example_decisive:
  "running example_refreshes" "decisive example_source example_refreshes = Some (hd example_refreshes)"
proof -
  have "ErrorCode (Code StoreChanged) = StoreChanged"
    by (simp add: ErrorCode_def known_codes_def)
  moreover have "refresh_result example_source (hd example_refreshes) = Inr [''+14155550100'']"
    using refresh_result_ok [of example_source "hd example_refreshes"]
    by (auto simp: example_refreshes_def example_snapshot_grants)
  ultimately show "running example_refreshes" "decisive example_source example_refreshes = Some (hd example_refreshes)"
    by (auto simp: running_def decisive_def transient_def refresh_result_def example_refreshes_def)
qed

lemma grants_fresh_witness:
  "Get example_source (seconds 3600) (Run example_source example_refreshes NewManager) = Inr [''+14155550100'']
   \<and> Get example_source (seconds 3601) (Run example_source example_refreshes NewManager) \<noteq> Inr [''+14155550100'']"
  unfolding grants_fresh [OF example_decisive(1)] example_decisive(2)
  by (simp add: example_refreshes_def example_snapshot_grants seconds_def)
    (simp add: example_source_def)

text \<open>C9: Contacts add to the policy only what a fresh snapshot grants.  With a contacts source, every direct
  identity of the policy a request is decided under is in the owner's policy file as just loaded, or is
  granted by the snapshot of a completed refresh that is not older than the maximal age; the owner's own
  identities and exclusions stay those of the file.\<close>

theorem contact_grants_authorize_only_fresh:
  assumes "dp_contacts_get (sv_deps s) = manager_grants cfg" "cf_contacts (sv_cfg s) \<noteq> None"
    and "loadPolicy s i w = (Inr q, w')"
  shows "\<exists>p es now. dp_load_policy (sv_deps s) (cf_policy_path (sv_cfg s)) w = (Some p, (es, now))
     \<and> owners q = owners p \<and> excluded q = excluded p
     \<and> (\<forall>v \<in> direct q - direct p. v \<notin> owners p
          \<and> (\<exists>e \<in> set es. \<exists>snap. rf_fetched e = Inr snap \<and> \<not> rf_ctx_ended e \<and> snapshot_ok cfg snap
              \<and> v \<in> granted cfg snap
              \<and> rf_finished e \<le> now \<and> now < rf_finished e + seconds (cs_max_age_seconds cfg)))"
proof -
  from assms(3) manager.loadPolicy_grants [OF assms(1,2)] obtain p w1 ids where
    l: "dp_load_policy (sv_deps s) (cf_policy_path (sv_cfg s)) w = (Some p, w1)"
      "manager_grants cfg w1 = (Some ids, w')" "q = p\<lparr>direct := direct p \<union> (set ids - owners p)\<rparr>"
    by blast
  obtain es now where w1: "w1 = (es, now)" by fastforce
  from l(2) have "Get cfg now (Run cfg (until_stop es) NewManager) = Inr ids"
    by (auto simp: manager_grants_def w1 Run_until_stop split: sum.split_asm)
  then obtain e snap where e: "decisive cfg (until_stop es) = Some e" "\<not> rf_ctx_ended e" "rf_fetched e = Inr snap"
    "snapshot_ok cfg snap" "ids = sorted_list_of_set (granted cfg snap)" "rf_finished e \<le> now"
    "now < rf_finished e + seconds (cs_max_age_seconds cfg)"
    using Get_iff [OF running_until_stop] by blast
  from e(1) have "e \<in> set (until_stop es)" 
    by (metis decisive_def find_Some_iff length_rev nth_mem set_rev)
  then have "e \<in> set es" by (induction es) (auto split: if_splits)
  with e l(1,3) w1 finite_granted show ?thesis by auto
qed

lemma contact_grants_authorize_only_fresh_witness:
  "\<exists>e \<in> set example_refreshes. \<exists>snap. rf_fetched e = Inr snap
     \<and> ''+14155550100'' \<in> granted example_source snap \<and> rf_finished e \<le> seconds 60"
proof -
  let ?w = "(example_refreshes, seconds 60)"
  let ?deps = "\<lparr>dp_generation = ''g1'', dp_list_chats = \<lambda>n w. (Inr [], w), dp_chat = \<lambda>c w. (Inr example_chat, w),
     dp_history = \<lambda>c n w. (Inr [], w), dp_collect = \<lambda>after through n nb w. (Inr example_page, w),
     dp_load_policy = \<lambda>path w. (Some example_policy, w), dp_contacts_get = manager_grants example_source,
     dp_contacts_status = \<lambda>(es, now). (Status example_source now (Run example_source es NewManager), es, now),
     dp_nonce = \<lambda>w. ([], w), dp_ctx_err = \<lambda>w. (None, w), dp_json_error = \<lambda>raw. []\<rparr>"
  let ?s = "\<lparr>sv_cfg = example_config\<lparr>cf_contacts := Some example_source\<rparr>, sv_deps = ?deps, sv_cipher = plain_aead\<rparr>"
  have d: "dp_contacts_get (sv_deps ?s) = manager_grants example_source" "cf_contacts (sv_cfg ?s) \<noteq> None"
    by simp_all
  have "Get example_source (seconds 60) (Run example_source example_refreshes NewManager) = Inr [''+14155550100'']"
    unfolding Get_iff [OF example_decisive(1)] example_decisive(2)
    by (simp add: example_refreshes_def example_snapshot_grants seconds_def) (simp add: example_source_def)
  then have g: "manager_grants example_source ?w = (Some [''+14155550100''], ?w)"
    by (simp add: manager_grants_def)
  let ?q = "example_policy\<lparr>direct := direct example_policy \<union> (set [''+14155550100''] - owners example_policy)\<rparr>"
  have l: "loadPolicy ?s ''1'' ?w = (Inr ?q, ?w)"
    unfolding manager.loadPolicy_grants [OF d] using g by simp
  have v: "''+14155550100'' \<in> direct ?q - direct example_policy" by (simp add: example_policy_def)
  have load: "dp_load_policy (sv_deps ?s) path w = (Some example_policy, w)" for path w by simp
  from contact_grants_authorize_only_fresh [OF d l, unfolded load] obtain p es now where
    p: "(Some example_policy, ?w) = (Some p, es, now)"
      "\<forall>v \<in> direct ?q - direct p. v \<notin> owners p
         \<and> (\<exists>e \<in> set es. \<exists>snap. rf_fetched e = Inr snap \<and> \<not> rf_ctx_ended e
             \<and> snapshot_ok example_source snap \<and> v \<in> granted example_source snap
             \<and> rf_finished e \<le> now \<and> now < rf_finished e + seconds (cs_max_age_seconds example_source))"
    by (elim exE conjE)
  from p(1) have "p = example_policy" "es = example_refreshes" "now = seconds 60" by simp_all
  with p(2) v show ?thesis by blast
qed

text \<open>Recovery and expiry.  Whatever happened before, a refresh that obtains an acceptable snapshot makes
  the manager hand out its grants and report \<open>ready\<close> from the moment it finishes until its maximal age is
  reached, and from then on nothing is handed out and the state is \<open>unavailable\<close>.\<close>

theorem refresh_recovers:
  assumes "rf_fetched e = Inr snap" "\<not> rf_ctx_ended e" "snapshot_ok cfg snap" "rf_finished e \<le> now"
  shows "if now < rf_finished e + seconds (cs_max_age_seconds cfg)
     then Get cfg now (Refresh cfg e m) = Inr (sorted_list_of_set (granted cfg snap))
       \<and> ci_state (Status cfg now (Refresh cfg e m)) = ''ready''
     else Get cfg now (Refresh cfg e m) = Inl (Code Unavailable)
       \<and> ci_state (Status cfg now (Refresh cfg e m)) = ''unavailable''"
proof -
  have "refresh_result cfg e = Inr (sorted_list_of_set (granted cfg snap))"
    using assms by (simp add: refresh_result_ok)
  with assms(4) show ?thesis
    by (simp add: Refresh_def Get_def Status_def available_def)
qed

lemma refresh_recovers_witness:
  "ci_state (Status example_source (seconds 60) (Refresh example_source (hd example_refreshes) NewManager)) = ''ready''"
proof -
  have e: "rf_fetched (hd example_refreshes) = Inr example_snapshot" "\<not> rf_ctx_ended (hd example_refreshes)"
    "rf_finished (hd example_refreshes) \<le> seconds 60"
    by (simp_all add: example_refreshes_def seconds_def)
  have "seconds 60 < rf_finished (hd example_refreshes) + seconds (cs_max_age_seconds example_source)"
    by (simp add: example_refreshes_def seconds_def example_source_def)
  with refresh_recovers [OF e(1,2) example_snapshot_grants(1) e(3)] show ?thesis by simp
qed

end
