(* ===== verification/Helper.thy ===== *)
theory Helper
  imports Contacts Client SecureFile
begin

text \<open>
  \<open>internal/contacts/helper.go\<close> and \<open>desktop.go\<close>: the trusted native helper.  Its path and bundle are
  checked before every run; the exchange with it goes over a private socket, one frame each way; and its
  answer is decoded strictly.  What the operating system does on the way (the temporary directory, the
  listener, launching the app, the peer's user id, the bytes and whether the app closes the connection
  afterwards) is a record of observations.
\<close>

section \<open>The helper's files\<close>

text \<open>\<open>filepath.Ext\<close>: from the last dot of the last element.\<close>

definition Ext :: "string \<Rightarrow> string" where
  "Ext path =
     (let base = rev (takeWhile (\<lambda>c. c \<noteq> slash) (rev path)) in
      if CHR ''.'' \<in> set base
      then CHR ''.'' # rev (takeWhile (\<lambda>c. c \<noteq> CHR ''.'') (rev base)) else [])"

definition helperBundle :: "fs \<Rightarrow> open_env \<Rightarrow> string \<Rightarrow> string + string" where
  "helperBundle f env path =
     (let bundle = Dir (Dir (Dir path)) in
      if Ext bundle \<noteq> ''.app'' \<or> Clean (bundle @ ''/Contents/MacOS/safe-imsg-contacts'') \<noteq> path
      then Inl UnsafeHelper
      else (case CheckOwnerFile f env (Clean (bundle @ ''/Contents/Info.plist'')) False of
          Inl _ \<Rightarrow> Inl UnsafeHelper
        | Inr _ \<Rightarrow> Inr bundle))"

definition CheckHelper :: "string \<Rightarrow> fs \<Rightarrow> open_env \<Rightarrow> string \<Rightarrow> string + unit" where
  "CheckHelper goos f env path =
     (if goos \<noteq> ''darwin'' then Inl Unsupported
      else if \<not> IsAbs path \<or> Clean path \<noteq> path \<or> path = [slash] then Inl UnsafeHelper
      else (case CheckOwnerFile f env path True of
          Inl _ \<Rightarrow> Inl UnsafeHelper
        | Inr _ \<Rightarrow> map_sum id (\<lambda>_. ()) (helperBundle f env path)))"

section \<open>The helper's answer\<close>

record helper_envelope =
  he_v :: int
  he_ok :: bool
  he_result :: bytes
  he_code :: string

definition zero_envelope :: helper_envelope where
  "zero_envelope = \<lparr>he_v = 0, he_ok = False, he_result = [], he_code = []\<rparr>"

definition envelope_step :: "helper_envelope \<Rightarrow> string \<Rightarrow> json \<Rightarrow> string \<Rightarrow> helper_envelope option" where
  "envelope_step r k v raw =
     (if key_is ''v'' k then map_option (\<lambda>x. r\<lparr>he_v := x\<rparr>) (dec_int (he_v r) v)
      else if key_is ''ok'' k then map_option (\<lambda>x. r\<lparr>he_ok := x\<rparr>) (dec_bool (he_ok r) v)
      else if key_is ''result'' k then Some (r\<lparr>he_result := raw\<rparr>)
      else if key_is ''code'' k then map_option (\<lambda>x. r\<lparr>he_code := x\<rparr>) (dec_string (he_code r) v)
      else None)"

fun envelope_members :: "helper_envelope \<Rightarrow> (string \<times> json \<times> string) list \<Rightarrow> helper_envelope option" where
  "envelope_members r [] = Some r"
| "envelope_members r ((k, v, raw) # ms) =
     (case envelope_step r k v raw of None \<Rightarrow> None | Some r' \<Rightarrow> envelope_members r' ms)"

text \<open>\<open>DecodeParams(output, &envelope)\<close>; the result is kept as the text it is written in.\<close>

definition read_envelope :: "bytes \<Rightarrow> helper_envelope option" where
  "read_envelope output =
     (if \<not> opens_object output \<or> json_decode output = None then None
      else Option.bind (read_raw_object output) (\<lambda>(ms, _). envelope_members zero_envelope ms))"

definition decodeHelperResponse :: "('r \<Rightarrow> string \<Rightarrow> json \<Rightarrow> 'r option) \<Rightarrow> 'r \<Rightarrow> bytes \<Rightarrow> string + 'r" where
  "decodeHelperResponse step zero output =
     (case read_envelope output of
        None \<Rightarrow> Inl Invalid
      | Some env \<Rightarrow>
          if he_v env \<noteq> 1 then Inl Invalid
          else if \<not> he_ok env then
            (if length (he_result env) \<noteq> 0 then Inl Invalid
             else if ErrorCode (Code (he_code env)) \<noteq> he_code env then Inl Invalid
             else Inl (he_code env))
          else if he_code env \<noteq> [] then Inl Invalid
          else (case DecodeParams step zero (he_result env) of
              Inl _ \<Rightarrow> Inl Invalid
            | Inr result \<Rightarrow> Inr result))"

section \<open>The exchange\<close>

definition maxOutput :: "32 word" where "maxOutput = 0x400000"

record desktop_env =
  de_tempdir :: "string option"
  de_fs :: fs
  de_listens :: bool
  de_chmods :: bool
  de_launches :: bool
  de_ended_at_launch :: bool
  de_accepts :: bool
  de_ended_at_accept :: bool
  de_peer_uid :: "32 word option"
  de_answers :: "write_result list"
  de_output :: "bytes list"
  de_closes :: bool
  de_expired :: bool

definition sameOwnerPeer :: "desktop_env \<Rightarrow> bool" where
  "sameOwnerPeer env \<longleftrightarrow> de_peer_uid env = Some (fs_euid (de_fs env))"

definition transportError :: "desktop_env \<Rightarrow> string" where
  "transportError env = (if de_expired env then Timeout else Invalid)"

text \<open>After the connection is accepted; \<open>None\<close> while a write has not returned.\<close>

definition talk ::
  "('r \<Rightarrow> string \<Rightarrow> json \<Rightarrow> 'r option) \<Rightarrow> 'r \<Rightarrow> bytes \<Rightarrow> desktop_env \<Rightarrow> (string + 'r) option" where
  "talk step zero input env =
     (case WriteFrame input (de_answers env) of
        (_, None, _) \<Rightarrow> None
      | (_, Some (Inl _), _) \<Rightarrow> Some (Inl (transportError env))
      | (_, Some (Inr _), _) \<Rightarrow>
          (case ReadFrame (de_output env) maxOutput of
             (Inl _, _) \<Rightarrow> Some (Inl (transportError env))
           | (Inr output, rest) \<Rightarrow>
               if concat rest \<noteq> [] \<or> \<not> de_closes env then Some (Inl (transportError env))
               else Some (decodeHelperResponse step zero output)))"

definition exchangeDesktop ::
  "('r \<Rightarrow> string \<Rightarrow> json \<Rightarrow> 'r option) \<Rightarrow> 'r \<Rightarrow> json \<Rightarrow> desktop_env \<Rightarrow> (string + 'r) option" where
  "exchangeDesktop step zero req env =
     (let input = json_print req in
      if length input > 64 * 1024 then Some (Inl Invalid)
      else (case de_tempdir env of
          None \<Rightarrow> Some (Inl Unavailable)
        | Some dir \<Rightarrow>
            if CheckParents (de_fs env) (Join dir ''rpc.sock'') \<noteq> Inr () then Some (Inl UnsafeHelper)
            else if \<not> de_listens env \<or> \<not> de_chmods env then Some (Inl Unavailable)
            else if \<not> de_launches env
            then Some (Inl (if de_ended_at_launch env then Timeout else Unavailable))
            else if \<not> de_accepts env
            then Some (Inl (if de_ended_at_accept env then Timeout else Unavailable))
            else if \<not> sameOwnerPeer env then Some (Inl UnsafeHelper)
            else talk step zero input env))"

text \<open>\<open>executeDesktopHelper\<close> on macOS checks the bundle once more; every other system is refused by
  \<open>CheckHelper\<close>.\<close>

record helper_env =
  hp_goos :: string
  hp_fs :: fs
  hp_open :: open_env
  hp_fs_later :: fs
  hp_open_later :: open_env
  hp_desktop :: desktop_env

definition runHelper ::
  "('r \<Rightarrow> string \<Rightarrow> json \<Rightarrow> 'r option) \<Rightarrow> 'r \<Rightarrow> helper_env \<Rightarrow> string \<Rightarrow> json \<Rightarrow> (string + 'r) option" where
  "runHelper step zero env path req =
     (case CheckHelper (hp_goos env) (hp_fs env) (hp_open env) path of
        Inl e \<Rightarrow> Some (Inl e)
      | Inr _ \<Rightarrow>
          (case helperBundle (hp_fs_later env) (hp_open_later env) path of
             Inl e \<Rightarrow> Some (Inl e)
           | Inr bundle \<Rightarrow> exchangeDesktop step zero req (hp_desktop env)))"

section \<open>Snapshots\<close>

definition zero_contact :: contact where
  "zero_contact = \<lparr>ct_id = [], ct_phones = None, ct_emails = None\<rparr>"

definition contact_step :: "contact \<Rightarrow> string \<Rightarrow> json \<Rightarrow> contact option" where
  "contact_step r k v =
     (if key_is ''id'' k then map_option (\<lambda>x. r\<lparr>ct_id := x\<rparr>) (dec_string (ct_id r) v)
      else if key_is ''phones'' k
      then map_option (\<lambda>x. r\<lparr>ct_phones := x\<rparr>) (dec_slice dec_string [] (ct_phones r) v)
      else if key_is ''emails'' k
      then map_option (\<lambda>x. r\<lparr>ct_emails := x\<rparr>) (dec_slice dec_string [] (ct_emails r) v)
      else None)"

definition zero_snapshot :: snapshot where
  "zero_snapshot = \<lparr>sn_container_id = [], sn_group_ids = None, sn_contacts = None, sn_complete = False\<rparr>"

definition snapshot_step :: "snapshot \<Rightarrow> string \<Rightarrow> json \<Rightarrow> snapshot option" where
  "snapshot_step r k v =
     (if key_is ''container_id'' k
      then map_option (\<lambda>x. r\<lparr>sn_container_id := x\<rparr>) (dec_string (sn_container_id r) v)
      else if key_is ''group_ids'' k
      then map_option (\<lambda>x. r\<lparr>sn_group_ids := x\<rparr>) (dec_slice dec_string [] (sn_group_ids r) v)
      else if key_is ''contacts'' k
      then map_option (\<lambda>x. r\<lparr>sn_contacts := x\<rparr>)
             (dec_slice (decode_struct contact_step) zero_contact (sn_contacts r) v)
      else if key_is ''complete'' k
      then map_option (\<lambda>x. r\<lparr>sn_complete := x\<rparr>) (dec_bool (sn_complete r) v)
      else None)"

text \<open>The request is a map, which \<open>json.Marshal\<close> prints with sorted keys.\<close>

definition snapshot_request :: "contacts_source \<Rightarrow> json" where
  "snapshot_request cfg = JObj [(''container_id'', JStr (cs_container_id cfg)),
     (''group_ids'', case cs_group_ids cfg of None \<Rightarrow> JNull | Some ids \<Rightarrow> JArr (map JStr ids)),
     (''max_contacts'', jint (cs_max_contacts cfg)), (''operation'', JStr ''snapshot''), (''v'', jint 1)]"

definition Fetch :: "helper_env \<Rightarrow> contacts_source \<Rightarrow> (string + snapshot) option" where
  "Fetch env cfg = runHelper snapshot_step zero_snapshot env (cs_helper_path cfg) (snapshot_request cfg)"

section \<open>Discovery\<close>

record contact_group =
  cg_id :: string
  cg_name :: string

record container =
  ck_id :: string
  ck_name :: string
  ck_type :: string
  ck_groups :: "contact_group list option"

record discovery =
  dv_containers :: "container list option"

definition group_step :: "contact_group \<Rightarrow> string \<Rightarrow> json \<Rightarrow> contact_group option" where
  "group_step r k v =
     (if key_is ''id'' k then map_option (\<lambda>x. r\<lparr>cg_id := x\<rparr>) (dec_string (cg_id r) v)
      else if key_is ''name'' k then map_option (\<lambda>x. r\<lparr>cg_name := x\<rparr>) (dec_string (cg_name r) v)
      else None)"

definition container_step :: "container \<Rightarrow> string \<Rightarrow> json \<Rightarrow> container option" where
  "container_step r k v =
     (if key_is ''id'' k then map_option (\<lambda>x. r\<lparr>ck_id := x\<rparr>) (dec_string (ck_id r) v)
      else if key_is ''name'' k then map_option (\<lambda>x. r\<lparr>ck_name := x\<rparr>) (dec_string (ck_name r) v)
      else if key_is ''type'' k then map_option (\<lambda>x. r\<lparr>ck_type := x\<rparr>) (dec_string (ck_type r) v)
      else if key_is ''groups'' k
      then map_option (\<lambda>x. r\<lparr>ck_groups := x\<rparr>)
             (dec_slice (decode_struct group_step) \<lparr>cg_id = [], cg_name = []\<rparr> (ck_groups r) v)
      else None)"

definition discovery_step :: "discovery \<Rightarrow> string \<Rightarrow> json \<Rightarrow> discovery option" where
  "discovery_step r k v =
     (if key_is ''containers'' k
      then map_option (\<lambda>x. r\<lparr>dv_containers := x\<rparr>)
             (dec_slice (decode_struct container_step)
               \<lparr>ck_id = [], ck_name = [], ck_type = [], ck_groups = None\<rparr> (dv_containers r) v)
      else None)"

fun groups_ok :: "string set \<Rightarrow> contact_group list \<Rightarrow> bool" where
  "groups_ok seen [] = True"
| "groups_ok seen (g # gs) =
     (if cg_id g = [] \<or> length (cg_id g) > 512 \<or> length (cg_name g) > 512 \<or> cg_id g \<in> seen then False
      else groups_ok (insert (cg_id g) seen) gs)"

fun containers_ok :: "string set \<Rightarrow> container list \<Rightarrow> bool" where
  "containers_ok seen [] = True"
| "containers_ok seen (c # cs) =
     (if ck_id c = [] \<or> length (ck_id c) > 512 \<or> length (ck_name c) > 512 \<or> ck_id c \<in> seen then False
      else (case ck_groups c of
          None \<Rightarrow> False
        | Some groups \<Rightarrow>
            if length groups > 1000 \<or> \<not> groups_ok {} groups then False
            else containers_ok (insert (ck_id c) seen) cs))"

definition discover_request :: json where
  "discover_request = JObj [(''operation'', JStr ''discover''), (''v'', jint 1)]"

definition Discover :: "helper_env \<Rightarrow> string \<Rightarrow> (string + discovery) option" where
  "Discover env path =
     (case runHelper discovery_step \<lparr>dv_containers = None\<rparr> env path discover_request of
        None \<Rightarrow> None
      | Some (Inl e) \<Rightarrow> Some (Inl e)
      | Some (Inr result) \<Rightarrow>
          (case dv_containers result of
             None \<Rightarrow> Some (Inl Invalid)
           | Some containers \<Rightarrow>
               if length containers > 100 \<or> \<not> containers_ok {} containers then Some (Inl Invalid)
               else Some (Inr result)))"

section \<open>What an answer has passed\<close>

lemma known_codes_known:
  "Unavailable \<in> set known_codes" "Invalid \<in> set known_codes" "UnsafeHelper \<in> set known_codes"
  "Timeout \<in> set known_codes" "Unsupported \<in> set known_codes"
  by (simp_all add: known_codes_def)

lemma ErrorCode_known: "ErrorCode e \<in> set known_codes"
  by (auto simp: ErrorCode_def known_codes_known(1) split: contacts_error.split)

lemma decodeHelperResponse_Inl: "decodeHelperResponse step zero outp = Inl code \<Longrightarrow> code \<in> set known_codes"
  using ErrorCode_known
  by (auto simp: decodeHelperResponse_def known_codes_known split: option.split_asm if_split_asm sum.split_asm)
    (metis ErrorCode_known)

lemma decodeHelperResponse_Inr:
  "decodeHelperResponse step zero outp = Inr x \<longleftrightarrow> (\<exists>e ms. read_envelope outp = Some e \<and> he_v e = 1
     \<and> he_ok e \<and> he_code e = [] \<and> json_decode (he_result e) = Some (JObj ms)
     \<and> decode_members step zero ms = Some x)"
proof (cases "read_envelope outp")
  case (Some e)
  have "(case DecodeParams step zero (he_result e) of Inl _ \<Rightarrow> Inl Invalid | Inr r \<Rightarrow> Inr r) = Inr x
      \<longleftrightarrow> DecodeParams step zero (he_result e) = Inr x" by (auto split: sum.split)
  with Some show ?thesis by (auto simp: decodeHelperResponse_def DecodeParams_iff)
qed (simp add: decodeHelperResponse_def)

text \<open>The peer runs as the same user, its whole output is one frame of at most 4 MiB, and it has closed
  the connection.\<close>

definition one_frame :: "desktop_env \<Rightarrow> bytes \<Rightarrow> bool" where
  "one_frame env outp \<longleftrightarrow> sameOwnerPeer env \<and> de_closes env \<and> outp \<noteq> [] \<and> length outp \<le> 2 ^ 22
     \<and> concat (de_output env) = put_uint32 (of_nat (length outp)) @ outp"

lemma talk_result:
  assumes "talk step zero input env = Some r" "sameOwnerPeer env"
  shows "(\<exists>code \<in> set known_codes. r = Inl code)
     \<or> (\<exists>outp. one_frame env outp \<and> r = decodeHelperResponse step zero outp)"
proof -
  have t: "transportError env \<in> set known_codes" by (simp add: transportError_def known_codes_known)
  obtain f rest where f: "ReadFrame (de_output env) maxOutput = (f, rest)" by fastforce
  show ?thesis
  proof (cases "\<exists>outp. f = Inr outp \<and> concat rest = [] \<and> de_closes env")
    case True
    then obtain outp where o: "f = Inr outp" "concat rest = []" "de_closes env" by blast
    note b = ReadFrame_bounds [OF f [unfolded o(1)]]
    from b(3) obtain h where h: "length h = 4" "concat (de_output env) = h @ outp @ concat rest"
      "be_uint32 h = of_nat (length outp)" by blast
    have "h = put_uint32 (of_nat (length outp))" using put_be_uint32 [OF h(1)] h(3) by simp
    then have "one_frame env outp"
      using b(1,2) h(2) o assms(2) by (simp add: one_frame_def maxOutput_def)
    then show ?thesis
      using assms(1) t f o by (auto simp: talk_def split: prod.split_asm option.split_asm sum.split_asm)
  next
    case False
    then show ?thesis
      using assms(1) t f by (auto simp: talk_def split: prod.split_asm option.split_asm sum.split_asm if_split_asm)
  qed
qed

lemma exchangeDesktop_result:
  assumes "exchangeDesktop step zero req env = Some r"
  shows "(\<exists>code \<in> set known_codes. r = Inl code)
     \<or> (\<exists>outp. one_frame env outp \<and> r = decodeHelperResponse step zero outp)"
proof (cases "sameOwnerPeer env \<and> talk step zero (json_print req) env = Some r")
  case True
  show ?thesis by (rule talk_result) (use True in blast)+
next
  case False
  then show ?thesis
    using assms known_codes_known
    by (auto simp: exchangeDesktop_def Let_def split: if_split_asm option.split_asm)
qed

lemma CheckHelper_Inr:
  "CheckHelper goos f env path = Inr () \<Longrightarrow> goos = ''darwin'' \<and> CheckOwnerFile f env path True = Inr ()
     \<and> is_ok (helperBundle f env path)"
  by (auto simp: CheckHelper_def map_sum_def split: if_split_asm sum.split_asm)

lemma helperBundle_Inl: "helperBundle f env path = Inl e \<Longrightarrow> e = UnsafeHelper"
  by (auto simp: helperBundle_def Let_def split: if_split_asm sum.split_asm)

lemma CheckHelper_Inl: "CheckHelper goos f env path = Inl e \<Longrightarrow> e \<in> {Unsupported, UnsafeHelper}"
  by (auto simp: CheckHelper_def map_sum_def dest: helperBundle_Inl split: if_split_asm sum.split_asm)

text \<open>C35: What the contacts helper can make the broker believe.  A run of it ends in one of eleven fixed error
  codes, so nothing of its output is relayed as an error; or in a value, and then the platform is macOS,
  the executable and its bundle passed the owner checks on every look, the peer that answered runs as the
  broker's own user, its entire output was a single frame of at most 4 MiB after which it closed the
  connection, and the value is the strictly decoded result of a version 1 envelope that reports success
  and no error code.\<close>

theorem helper_run_sound:
  assumes "runHelper step zero env path req = Some r"
  shows "case r of
     Inl code \<Rightarrow> code \<in> set known_codes
   | Inr x \<Rightarrow> hp_goos env = ''darwin'' \<and> CheckOwnerFile (hp_fs env) (hp_open env) path True = Inr ()
       \<and> is_ok (helperBundle (hp_fs env) (hp_open env) path)
       \<and> is_ok (helperBundle (hp_fs_later env) (hp_open_later env) path)
       \<and> (\<exists>outp e ms. one_frame (hp_desktop env) outp \<and> read_envelope outp = Some e \<and> he_v e = 1
            \<and> he_ok e \<and> he_code e = [] \<and> json_decode (he_result e) = Some (JObj ms)
            \<and> decode_members step zero ms = Some x)"
proof (cases "CheckHelper (hp_goos env) (hp_fs env) (hp_open env) path")
  case (Inl e)
  with assms CheckHelper_Inl [OF Inl] known_codes_known show ?thesis
    by (auto simp: runHelper_def)
next
  case (Inr u)
  show ?thesis
  proof (cases "helperBundle (hp_fs_later env) (hp_open_later env) path")
    case (Inl e)
    with assms Inr helperBundle_Inl [OF Inl] known_codes_known show ?thesis
      by (auto simp: runHelper_def)
  next
    case b: (Inr app)
    with assms Inr have e: "exchangeDesktop step zero req (hp_desktop env) = Some r"
      by (simp add: runHelper_def)
    show ?thesis
    proof (cases r)
      case (Inl code)
      from exchangeDesktop_result [OF e] show ?thesis
      proof (elim disjE bexE exE conjE)
        fix outp assume "r = decodeHelperResponse step zero outp"
        with decodeHelperResponse_Inl [of step zero outp code] Inl show ?thesis by simp
      qed (simp add: Inl)
    next
      case x: (Inr x)
      with exchangeDesktop_result [OF e] obtain outp where
        o: "one_frame (hp_desktop env) outp" "decodeHelperResponse step zero outp = Inr x" by auto
      have h: "CheckHelper (hp_goos env) (hp_fs env) (hp_open env) path = Inr ()" using Inr by simp
      from o(2) obtain e ms where "read_envelope outp = Some e \<and> he_v e = 1
            \<and> he_ok e \<and> he_code e = [] \<and> json_decode (he_result e) = Some (JObj ms)
            \<and> decode_members step zero ms = Some x"
        unfolding decodeHelperResponse_Inr by blast
      with CheckHelper_Inr [OF h] o(1) b x show ?thesis by auto
    qed
  qed
qed

lemma groups_ok_iff:
  "groups_ok seen gs \<longleftrightarrow> distinct (map cg_id gs) \<and> cg_id ` set gs \<inter> seen = {}
     \<and> (\<forall>g \<in> set gs. cg_id g \<noteq> [] \<and> length (cg_id g) \<le> 512 \<and> length (cg_name g) \<le> 512)"
  by (induction seen gs rule: groups_ok.induct) auto

lemma containers_ok_iff:
  "containers_ok seen cs \<longleftrightarrow> distinct (map ck_id cs) \<and> ck_id ` set cs \<inter> seen = {}
     \<and> (\<forall>c \<in> set cs. ck_id c \<noteq> [] \<and> length (ck_id c) \<le> 512 \<and> length (ck_name c) \<le> 512
         \<and> (\<exists>gs. ck_groups c = Some gs \<and> length gs \<le> 1000 \<and> groups_ok {} gs))"
  by (induction seen cs rule: containers_ok.induct) (auto split: option.splits)

section \<open>A run of the helper, for evaluations\<close>

lemma plain_parents:
  assumes "\<And>path. protected_dir f path" "real_root f" "list_all proper (cs @ [x])"
  shows "CheckParents f (abs_path (cs @ [x])) = Inr ()"
proof -
  have p: "list_all proper cs" using assms(3) by simp
  have "walk f (abs_path []) cs 0 = Inr (abs_path ([] @ cs))"
    by (rule walk_plain) (use p in \<open>simp_all add: protected_chain_def assms(1,2)\<close>)
  then show ?thesis
    unfolding CheckParents_abs_path [OF assms(3)] checkDirectory_abs_path [OF p]
    by (cases "cs = []") (simp_all add: walk_root [OF assms(1)] del: walk.simps)
qed

lemmas example_parents_abs = plain_parents [OF example_fs_protected]

definition example_bundle :: "string list" where
  "example_bundle = [''A.app'', ''Contents'']"

definition example_helper :: string where
  "example_helper = ''/A.app/Contents/MacOS/safe-imsg-contacts''"

definition example_programs :: open_env where
  "example_programs = (\<lambda>_. Some \<lparr>op_stat = Some \<lparr>fi_mode = 0x1ED, fi_uid = Some 501\<rparr>, op_read = None\<rparr>)"

lemma example_owner_file:
  assumes "list_all proper (cs @ [x])"
  shows "CheckOwnerFile example_fs example_programs (abs_path (cs @ [x])) b = Inr ()"
proof -
  have "is_regular 0x1ED" "\<not> shared_writable 0x1ED" "some_executable 0x1ED" by code_simp+
  moreover have "fs_euid example_fs = 501" by (simp add: example_fs_def)
  ultimately show ?thesis
    by (simp add: CheckOwnerFile_def OpenOwnerFile_def example_parents_abs [OF assms] example_programs_def checkInfo_def)
qed

lemma example_helper_bundle:
  "helperBundle example_fs example_programs example_helper = Inr ''/A.app''"
proof -
  have h: "example_helper = abs_path ((example_bundle @ [''MacOS'']) @ [''safe-imsg-contacts''])"
    "''/A.app/Contents/Info.plist'' = abs_path (example_bundle @ [''Info.plist''])"
    "''/A.app'' = abs_path [''A.app'']"
    by (simp_all add: example_helper_def abs_path_def example_bundle_def)
  have p: "list_all proper ((example_bundle @ [''MacOS'']) @ [''safe-imsg-contacts''])"
    "list_all proper (example_bundle @ [''MacOS''])" "list_all proper (example_bundle @ [''Info.plist''])"
    "list_all proper ([''A.app''] @ [''Contents''])"
    by (simp_all add: proper_def example_bundle_def)
  have "Dir (abs_path example_bundle) = abs_path [''A.app'']"
    using Dir_abs_path [OF p(4)] by (simp add: example_bundle_def)
  then have d: "Dir (Dir (Dir example_helper)) = ''/A.app''"
    by (simp only: h(1) Dir_abs_path [OF p(1)] Dir_abs_path [OF p(2)] h(3))
  have c: "Clean example_helper = example_helper" "Clean ''/A.app/Contents/Info.plist'' = ''/A.app/Contents/Info.plist''"
    using Clean_abs_path [OF p(1)] Clean_abs_path [OF p(3)] by (simp_all only: h)
  have "Ext ''/A.app'' = ''.app''" by (simp add: Ext_def)
  moreover have "Clean (''/A.app'' @ ''/Contents/MacOS/safe-imsg-contacts'') = example_helper"
    "Clean (''/A.app'' @ ''/Contents/Info.plist'') = ''/A.app/Contents/Info.plist''"
    using c by (simp_all add: example_helper_def)
  moreover have "CheckOwnerFile example_fs example_programs ''/A.app/Contents/Info.plist'' False = Inr ()"
    unfolding h(2) by (rule example_owner_file [OF p(3)])
  ultimately show ?thesis
    by (simp only: helperBundle_def Let_def d) simp
qed

lemma example_helper_checked: "CheckHelper ''darwin'' example_fs example_programs example_helper = Inr ()"
proof -
  have h: "example_helper = abs_path ((example_bundle @ [''MacOS'']) @ [''safe-imsg-contacts''])"
    by (simp add: example_helper_def abs_path_def example_bundle_def)
  have p: "list_all proper ((example_bundle @ [''MacOS'']) @ [''safe-imsg-contacts''])"
    by (simp add: proper_def example_bundle_def)
  have "CheckOwnerFile example_fs example_programs example_helper True = Inr ()"
    unfolding h by (rule example_owner_file [OF p])
  moreover have "Clean example_helper = example_helper" "IsAbs example_helper"
    unfolding h using Clean_abs_path [OF p] by simp_all
  moreover have "example_helper \<noteq> [slash]" by (simp add: example_helper_def)
  ultimately show ?thesis by (simp add: CheckHelper_def example_helper_bundle)
qed

definition example_answer :: json where
  "example_answer = JObj [(''v'', jint 1), (''ok'', JBool True),
     (''result'', JObj [(''containers'', JArr [])])]"

lemma example_answer_wf: "json_wf max_nesting example_answer" "json_wf max_nesting (JObj [(''containers'', JArr [])])"
  by (simp_all add: example_answer_def max_nesting_def ascii_valid)

lemma example_decoded:
  "decodeHelperResponse discovery_step \<lparr>dv_containers = None\<rparr> (json_print example_answer)
     = Inr \<lparr>dv_containers = Some []\<rparr>"
proof -
  have d: "json_decode (json_print example_answer) = Some example_answer"
    by (rule json_decode_print [OF example_answer_wf(1)])
  then have o: "opens_object (json_print example_answer)"
    using object_params by (metis example_answer_def)
  have raw: "read_raw_object (json_print example_answer) = Some ([(''v'', jint 1, json_print (jint 1)),
      (''ok'', JBool True, json_print (JBool True)),
      (''result'', JObj [(''containers'', JArr [])], json_print (JObj [(''containers'', JArr [])]))], [])"
    unfolding example_answer_def by (subst read_raw_object_print)
      (use example_answer_wf(1) in \<open>simp_all add: example_answer_def\<close>)
  have "\<not> key_is ''v'' ''result''" "\<not> key_is ''ok'' ''result''" "key_is ''result'' ''result''"
    by (simp_all add: key_is_plain plain_key_def)
  then have e: "read_envelope (json_print example_answer) = Some \<lparr>he_v = 1, he_ok = True,
      he_result = json_print (JObj [(''containers'', JArr [])]), he_code = []\<rparr>"
    by (simp add: read_envelope_def o d raw envelope_step_def zero_envelope_def response_keys dec_jint)
  have "key_is ''containers'' ''containers''" by (simp add: key_is_plain plain_key_def)
  then have "decode_members discovery_step \<lparr>dv_containers = None\<rparr> [(''containers'', JArr [])]
      = Some \<lparr>dv_containers = Some []\<rparr>"
    by (simp add: discovery_step_def dec_slice_def)
  with e show ?thesis
    unfolding decodeHelperResponse_Inr using json_decode_print [OF example_answer_wf(2)]
    by (intro exI [of _ "\<lparr>he_v = 1, he_ok = True, he_result = json_print (JObj [(''containers'', JArr [])]),
        he_code = []\<rparr>"] exI [of _ "[(''containers'', JArr [])]"]) simp
qed

lemma helper_run_sound_witness:
  "\<exists>env r. runHelper discovery_step \<lparr>dv_containers = None\<rparr> env example_helper discover_request = Some (Inr r)
     \<and> hp_goos env = ''darwin''"
proof -
  let ?out = "json_print example_answer" and ?in = "json_print discover_request"
  have p: "length (print_string s) \<le> k" if "6 * length s + 2 \<le> k" for s k
    using length_print_string [of s] that by simp
  have "length (print_string ''v'') \<le> 8" "length (print_string ''ok'') \<le> 14"
    "length (print_string ''result'') \<le> 38" "length (print_string ''containers'') \<le> 62"
    "length (print_string ''operation'') \<le> 56" "length (print_string ''discover'') \<le> 50"
    by (intro p; simp)+
  then have l: "length ?out \<le> 1000" "length ?in \<le> 1000" "?out \<noteq> []" "?in \<noteq> []"
    by (simp_all add: example_answer_def discover_request_def jint_def print_int_def print_nat.simps)
  let ?desktop = "\<lparr>de_tempdir = Some (abs_path [''tmp'']), de_fs = example_fs, de_listens = True, de_chmods = True,
     de_launches = True, de_ended_at_launch = False, de_accepts = True, de_ended_at_accept = False,
     de_peer_uid = Some (fs_euid example_fs), de_answers = [Wrote 4, Wrote (int (length ?in))],
     de_output = [put_uint32 (of_nat (length ?out)) @ ?out], de_closes = True, de_expired = False\<rparr>"
  let ?env = "\<lparr>hp_goos = ''darwin'', hp_fs = example_fs, hp_open = example_programs,
     hp_fs_later = example_fs, hp_open_later = example_programs, hp_desktop = ?desktop\<rparr>"
  have w: "WriteFrame ?in [Wrote 4, Wrote (int (length ?in))] = (put_uint32 (of_nat (length ?in)) @ ?in, Some (Inr ()), [])"
    using l by (simp add: WriteFrame_def writeAll.simps)
  let ?n = "of_nat (length ?out) :: 32 word"
  have n: "unat ?n = length ?out" using l(1) by (simp add: unat_of_nat)
  then have "?n \<noteq> 0" using l(3) by (metis length_0_conv unat_0)
  moreover have "?n \<le> maxOutput" using n l(1) by (simp add: word_le_nat_alt maxOutput_def)
  ultimately have "\<exists>r'. ReadFrame [put_uint32 ?n @ ?out] maxOutput = (Inr (take (unat ?n) (?out @ [])), r')
      \<and> concat r' = drop (unat ?n) (?out @ [])"
    using n by (intro ReadFrame_split) auto
  then obtain r' where f: "ReadFrame [put_uint32 ?n @ ?out] maxOutput = (Inr ?out, r')" "concat r' = []"
    using n by auto
  have t: "talk discovery_step \<lparr>dv_containers = None\<rparr> ?in ?desktop = Some (Inr \<lparr>dv_containers = Some []\<rparr>)"
    by (simp add: talk_def w f(1) example_decoded) (use f(2) in simp)
  have "Join (abs_path [''tmp'']) ''rpc.sock'' = abs_path ([''tmp''] @ [''rpc.sock''])"
    by (subst Join_abs_path) (simp_all add: proper_def clean_comp_def)
  moreover have "CheckParents example_fs (abs_path ([''tmp''] @ [''rpc.sock''])) = Inr ()"
    by (rule example_parents_abs) (simp add: proper_def)
  ultimately have "exchangeDesktop discovery_step \<lparr>dv_containers = None\<rparr> discover_request ?desktop
      = Some (Inr \<lparr>dv_containers = Some []\<rparr>)"
    using l(2) t by (simp add: exchangeDesktop_def sameOwnerPeer_def)
  then have r: "runHelper discovery_step \<lparr>dv_containers = None\<rparr> ?env example_helper discover_request
      = Some (Inr \<lparr>dv_containers = Some []\<rparr>)"
    by (simp add: runHelper_def example_helper_checked example_helper_bundle)
  from helper_run_sound [OF r] r show ?thesis by auto
qed

end
