(* ===== verification/Locks.thy ===== *)
theory Locks
  imports SecureFile Cursor
begin

unbundle bit_operations_syntax

text \<open>
  The files the broker creates for itself: the lock beside its socket (\<open>lock_unix.go\<close>) and the cursor
  key (\<open>loadCursorCipher\<close> in \<open>cursor.go\<close>).  A disk maps names to inodes, and an inode may be locked by
  one process (\<open>flock\<close>).  Between any two system calls other processes may change the disk: \<open>others c\<close>
  is what they did just before the call \<open>c\<close>, and \<open>faults c\<close> says that the call fails for a reason of the
  system's own.  A name is a path as it is spelled; \<open>os_follow\<close> is what a symbolic link of that name leads
  to: a directory, something else, or nothing.
\<close>

section \<open>The disk\<close>

datatype kind = RegularFile | SocketFile | SymlinkFile | DirFile | OtherFile

record node =
  nd_kind :: kind
  nd_perm :: "32 word"
  nd_uid :: "32 word"
  nd_links :: nat
  nd_data :: bytes

record disk =
  dk_names :: "string \<Rightarrow> nat option"
  dk_nodes :: "nat \<Rightarrow> node"
  dk_next :: nat
  dk_locks :: "nat \<Rightarrow> nat option"

datatype syscall =
    OpenNew | OpenOld | FStat | ChMod | StatOpened | LStat | FLock
  | ReadKey | RandomKey | WriteKey | SyncKey | OpenDir | SyncDir
  | InspectSocket | DialSocket | InspectAgain | RemoveSocket
  | StatDir string | MakeDir string | LStatDir string
  | Listen | InspectListener | ChmodSocket | RemoveTemp

record osys =
  os_euid :: "32 word"
  os_umask :: "32 word"
  os_pid :: nat
  os_follow :: "string \<Rightarrow> bool option"
  os_faults :: "syscall \<Rightarrow> bool"
  os_others :: "syscall \<Rightarrow> disk \<Rightarrow> disk"

definition set_node :: "nat \<Rightarrow> node \<Rightarrow> disk \<Rightarrow> disk" where
  "set_node ino n d = d\<lparr>dk_nodes := (dk_nodes d)(ino := n)\<rparr>"

definition new_file :: "kind \<Rightarrow> 32 word \<Rightarrow> 32 word \<Rightarrow> string \<Rightarrow> disk \<Rightarrow> disk" where
  "new_file k p uid path d = d\<lparr>dk_names := (dk_names d)(path \<mapsto> dk_next d),
     dk_nodes := (dk_nodes d)(dk_next d := \<lparr>nd_kind = k, nd_perm = p, nd_uid = uid, nd_links = 1, nd_data = []\<rparr>),
     dk_next := Suc (dk_next d)\<rparr>"

definition release :: "nat \<Rightarrow> disk \<Rightarrow> disk" where
  "release ino d = d\<lparr>dk_locks := (dk_locks d)(ino := None)\<rparr>"

section \<open>The lock file\<close>

datatype lock_error = OpenLock | UnsafeLock | LockOwned

text \<open>Creating the file exclusively, or opening the one there (never through a final symlink; a socket
  cannot be opened, nor a directory for writing); the flag says that it was created.\<close>

definition open_lock :: "osys \<Rightarrow> string \<Rightarrow> disk \<Rightarrow> (lock_error + nat \<times> bool) \<times> disk" where
  "open_lock sys path d =
     (let d = os_others sys OpenNew d in
      if os_faults sys OpenNew then (Inl OpenLock, d)
      else if dk_names d path = None
      then (Inr (dk_next d, True),
            new_file RegularFile (0x180 AND NOT (os_umask sys)) (os_euid sys) path d)
      else
        let d = os_others sys OpenOld d in
        (case dk_names d path of
           None \<Rightarrow> (Inl OpenLock, d)
         | Some ino \<Rightarrow>
             if os_faults sys OpenOld \<or> nd_kind (dk_nodes d ino) \<in> {SymlinkFile, SocketFile, DirFile}
             then (Inl OpenLock, d) else (Inr (ino, False), d)))"

text \<open>The checks of the opened file, its mode, its name, and the lock.\<close>

definition safe_lock_node :: "osys \<Rightarrow> node \<Rightarrow> bool" where
  "safe_lock_node sys n \<longleftrightarrow> nd_kind n = RegularFile \<and> nd_uid n = os_euid sys \<and> nd_links n = 1
     \<and> nd_perm n AND 0x3F = 0"

definition lock_mode :: "osys \<Rightarrow> nat \<Rightarrow> bool \<Rightarrow> disk \<Rightarrow> (lock_error + unit) \<times> disk" where
  "lock_mode sys ino created d =
     (if \<not> created then (Inr (), d)
      else
        let d = os_others sys ChMod d in
        if os_faults sys ChMod then (Inl UnsafeLock, d)
        else (Inr (), set_node ino ((dk_nodes d ino)\<lparr>nd_perm := 0x180\<rparr>) d))"

definition lock_opened :: "osys \<Rightarrow> string \<Rightarrow> nat \<Rightarrow> bool \<Rightarrow> disk \<Rightarrow> (lock_error + nat) \<times> disk" where
  "lock_opened sys path ino created d =
     (let d = os_others sys FStat d in
      if os_faults sys FStat \<or> \<not> safe_lock_node sys (dk_nodes d ino) then (Inl UnsafeLock, d)
      else (case lock_mode sys ino created d of
          (Inl e, d) \<Rightarrow> (Inl e, d)
        | (Inr _, d) \<Rightarrow>
            let d = os_others sys LStat d in
            if os_faults sys StatOpened \<or> os_faults sys LStat \<or> dk_names d path \<noteq> Some ino
            then (Inl UnsafeLock, d)
            else
              let d = os_others sys FLock d in
              if os_faults sys FLock \<or> dk_locks d ino \<noteq> None then (Inl LockOwned, d)
              else (Inr ino, d\<lparr>dk_locks := (dk_locks d)(ino \<mapsto> os_pid sys)\<rparr>)))"

definition acquireLock :: "osys \<Rightarrow> string \<Rightarrow> disk \<Rightarrow> (lock_error + nat) \<times> disk" where
  "acquireLock sys path d =
     (case open_lock sys path d of
        (Inl e, d) \<Rightarrow> (Inl e, d)
      | (Inr (ino, created), d) \<Rightarrow> lock_opened sys path ino created d)"

section \<open>The cursor key\<close>

datatype key_error =
    KeyParents secure_error
  | OpenKey lock_error
  | ReadKeyError
  | GenerateKey
  | WriteKeyError
  | SyncKeyError
  | KeyDirectory
  | InvalidKey

text \<open>A new key is written and synced before it is used.  A failing write may have left a part of it.\<close>

definition create_key :: "osys \<Rightarrow> bytes \<Rightarrow> nat \<Rightarrow> nat \<Rightarrow> disk \<Rightarrow> (key_error + bytes) \<times> disk" where
  "create_key sys random written ino d =
     (if os_faults sys RandomKey then (Inl GenerateKey, d)
      else
        let d = os_others sys WriteKey d; n = dk_nodes d ino in
        if os_faults sys WriteKey
        then (Inl WriteKeyError, set_node ino (n\<lparr>nd_data := take written random\<rparr>) d)
        else
          let d = os_others sys SyncKey (set_node ino (n\<lparr>nd_data := random\<rparr>) d) in
          if os_faults sys SyncKey then (Inl SyncKeyError, d)
          else
            let d = os_others sys OpenDir d in
            if os_faults sys OpenDir then (Inl KeyDirectory, d)
            else
              let d = os_others sys SyncDir d in
              if os_faults sys SyncDir then (Inl KeyDirectory, d)
              else (Inr random, d))"

definition read_key :: "osys \<Rightarrow> bytes \<Rightarrow> nat \<Rightarrow> nat \<Rightarrow> disk \<Rightarrow> (key_error + bytes) \<times> disk" where
  "read_key sys random written ino d =
     (let d = os_others sys ReadKey d in
      if os_faults sys ReadKey then (Inl ReadKeyError, d)
      else
        let key = take 33 (nd_data (dk_nodes d ino)) in
        (case (if key = [] then create_key sys random written ino d else (Inr key, d)) of
           (Inl e, d) \<Rightarrow> (Inl e, d)
         | (Inr key, d) \<Rightarrow> if length key \<noteq> 32 then (Inl InvalidKey, d) else (Inr key, d)))"

text \<open>The key that the AEAD is built from; closing the file releases its lock.\<close>

definition load_key ::
  "fs \<Rightarrow> osys \<Rightarrow> bytes \<Rightarrow> nat \<Rightarrow> string \<Rightarrow> disk \<Rightarrow> (key_error + bytes) \<times> disk" where
  "load_key f sys random written path d =
     (case CheckParents f path of
        Inl e \<Rightarrow> (Inl (KeyParents e), d)
      | Inr _ \<Rightarrow>
          (case acquireLock sys path d of
             (Inl e, d) \<Rightarrow> (Inl (OpenKey e), d)
           | (Inr ino, d) \<Rightarrow>
               (case read_key sys random written ino d of (r, d) \<Rightarrow> (r, release ino d))))"

definition loadCursorCipher ::
  "(bytes \<Rightarrow> aead) \<Rightarrow> fs \<Rightarrow> osys \<Rightarrow> bytes \<Rightarrow> nat \<Rightarrow> string \<Rightarrow> disk \<Rightarrow> (key_error + aead) \<times> disk" where
  "loadCursorCipher gcm f sys random written path d =
     apfst (map_sum id gcm) (load_key f sys random written path d)"

section \<open>Acquiring\<close>

lemma acquireLock_ok:
  assumes "acquireLock sys path d = (Inr ino, d')"
  obtains d1 d2 :: disk where "safe_lock_node sys (dk_nodes d1 ino)" "dk_names d2 path = Some ino"
    "dk_locks (os_others sys FLock d2) ino = None"
    "d' = (os_others sys FLock d2)\<lparr>dk_locks := (dk_locks (os_others sys FLock d2))(ino \<mapsto> os_pid sys)\<rparr>"
proof -
  from assms obtain ino' created d0 where o: "lock_opened sys path ino' created d0 = (Inr ino, d')"
    by (auto simp: acquireLock_def split: prod.split_asm sum.split_asm)
  then have "ino' = ino"
    by (auto simp: lock_opened_def Let_def split: prod.split_asm sum.split_asm if_split_asm)
  with o obtain d1 where m: "safe_lock_node sys (dk_nodes (os_others sys FStat d0) ino)"
    "lock_mode sys ino created (os_others sys FStat d0) = (Inr (), d1)"
    "dk_names (os_others sys LStat d1) path = Some ino"
    "dk_locks (os_others sys FLock (os_others sys LStat d1)) ino = None"
    "d' = (os_others sys FLock (os_others sys LStat d1))\<lparr>dk_locks :=
       (dk_locks (os_others sys FLock (os_others sys LStat d1)))(ino \<mapsto> os_pid sys)\<rparr>"
    by (auto simp: lock_opened_def Let_def split: prod.split_asm sum.split_asm if_split_asm)
  from that [OF m(1,3,4,5)] show ?thesis .
qed

text \<open>A property of disks that every step of the caller and of the others keeps holds at the end.\<close>

lemma open_lock_keeps:
  assumes "\<And>c d. P d \<Longrightarrow> P (os_others sys c d)"
    and "\<And>k p u d. P d \<Longrightarrow> dk_names d path = None \<Longrightarrow> P (new_file k p u path d)"
    and "P d"
  shows "P (snd (open_lock sys path d))"
  using assms by (auto simp: open_lock_def Let_def split: option.split)

lemma lock_opened_keeps:
  assumes "\<And>c d. P d \<Longrightarrow> P (os_others sys c d)" "\<And>n d. P d \<Longrightarrow> P (set_node ino n d)"
    and "\<And>d. P d \<Longrightarrow> dk_locks d ino = None \<Longrightarrow> P (d\<lparr>dk_locks := (dk_locks d)(ino \<mapsto> os_pid sys)\<rparr>)"
    and "P d"
  shows "P (snd (lock_opened sys path ino created d))"
proof -
  obtain r d1 where m: "lock_mode sys ino created (os_others sys FStat d) = (r, d1)" by fastforce
  let ?d = "os_others sys FStat d"
  have "d1 \<in> {?d, os_others sys ChMod ?d, set_node ino ((dk_nodes (os_others sys ChMod ?d) ino)\<lparr>nd_perm := 0x180\<rparr>)
      (os_others sys ChMod ?d)}"
    using m by (auto simp: lock_mode_def Let_def split: if_split_asm)
  moreover have "P ?d" by (rule assms(1) [OF assms(4)])
  moreover from this have "P (os_others sys ChMod ?d)" by (rule assms(1))
  moreover from this have "P (set_node ino ((dk_nodes (os_others sys ChMod ?d) ino)\<lparr>nd_perm := 0x180\<rparr>)
      (os_others sys ChMod ?d))" by (rule assms(2))
  ultimately have "P d1" by blast
  note l1 = assms(1) [OF \<open>P d1\<close>, of LStat]
  note l2 = assms(1) [OF l1, of FLock]
  show ?thesis
  proof (cases "\<exists>u. r = Inr u \<and> \<not> (os_faults sys FStat \<or> \<not> safe_lock_node sys (dk_nodes ?d ino))
      \<and> \<not> (os_faults sys StatOpened \<or> os_faults sys LStat \<or> dk_names (os_others sys LStat d1) path \<noteq> Some ino)
      \<and> \<not> (os_faults sys FLock \<or> dk_locks (os_others sys FLock (os_others sys LStat d1)) ino \<noteq> None)")
    case True
    then have "snd (lock_opened sys path ino created d) = (os_others sys FLock (os_others sys LStat d1))\<lparr>dk_locks :=
        (dk_locks (os_others sys FLock (os_others sys LStat d1)))(ino \<mapsto> os_pid sys)\<rparr>"
      by (auto simp: lock_opened_def Let_def m)
    moreover have "P \<dots>" by (rule assms(3) [OF l2]) (use True in simp)
    ultimately show ?thesis by simp
  next
    case False
    then have "snd (lock_opened sys path ino created d) \<in> {?d, d1, os_others sys LStat d1,
        os_others sys FLock (os_others sys LStat d1)}"
      by (cases r) (auto simp: lock_opened_def Let_def m)
    with \<open>P d1\<close> \<open>P ?d\<close> l1 l2 show ?thesis by (elim insertE emptyE) (simp_all only:)
  qed
qed

lemma acquireLock_keeps:
  assumes "\<And>c d. P d \<Longrightarrow> P (os_others sys c d)"
    and "\<And>k p u d. P d \<Longrightarrow> dk_names d path = None \<Longrightarrow> P (new_file k p u path d)"
    and "\<And>ino n d. P d \<Longrightarrow> P (set_node ino n d)"
    and "\<And>ino d. P d \<Longrightarrow> dk_locks d ino = None \<Longrightarrow> P (d\<lparr>dk_locks := (dk_locks d)(ino \<mapsto> os_pid sys)\<rparr>)"
    and "P d"
  shows "P (snd (acquireLock sys path d))"
proof -
  obtain r d1 where o: "open_lock sys path d = (r, d1)" by fastforce
  have "P (snd (open_lock sys path d))"
  proof (rule open_lock_keeps)
    show "P (os_others sys c d)" if "P d" for c d by (rule assms(1) [OF that])
    show "P (new_file k p u path d)" if "P d" "dk_names d path = None" for k p u d by (rule assms(2) [OF that])
  qed (rule assms(5))
  then have d1: "P d1" by (simp add: o)
  show ?thesis
  proof (cases r)
    case (Inl e)
    with o d1 show ?thesis by (simp add: acquireLock_def)
  next
    case (Inr x)
    obtain ino created where x: "x = (ino, created)" by fastforce
    have "P (snd (lock_opened sys path ino created d1))"
    proof (rule lock_opened_keeps)
      show "P (os_others sys c d)" if "P d" for c d by (rule assms(1) [OF that])
      show "P (set_node ino n d)" if "P d" for n d by (rule assms(3) [OF that])
      show "P (d\<lparr>dk_locks := (dk_locks d)(ino \<mapsto> os_pid sys)\<rparr>)" if "P d" "dk_locks d ino = None" for d
        by (rule assms(4) [OF that])
    qed (rule d1)
    with o Inr x show ?thesis by (simp add: acquireLock_def)
  qed
qed

section \<open>Brokers that start and stop\<close>

text \<open>The system: the disk, and for each running broker its lock file's name and inode.  Nobody removes or
  renames a lock file that is there, and nobody but its holder gives up a lock.\<close>

record brokers =
  br_disk :: disk
  br_running :: "nat \<Rightarrow> (string \<times> nat) option"

definition lock_path :: "string \<Rightarrow> string" where
  "lock_path socket = socket @ ''.lock''"

definition civil_move :: "brokers \<Rightarrow> (disk \<Rightarrow> disk) \<Rightarrow> bool" where
  "civil_move s f \<longleftrightarrow> (\<forall>d ino.
     (\<forall>socket. dk_names d (lock_path socket) = Some ino \<longrightarrow> dk_names (f d) (lock_path socket) = Some ino)
     \<and> (\<forall>pid path. br_running s pid = Some (path, ino) \<longrightarrow> dk_locks d ino = Some pid \<longrightarrow>
          dk_locks (f d) ino = Some pid))"

inductive broker_step :: "brokers \<Rightarrow> brokers \<Rightarrow> bool" where
  start: "br_running s (os_pid sys) = None \<Longrightarrow> (\<And>c. civil_move s (os_others sys c)) \<Longrightarrow>
     acquireLock sys (lock_path socket) (br_disk s) = (Inr ino, d) \<Longrightarrow>
     broker_step s (s\<lparr>br_disk := d, br_running := (br_running s)(os_pid sys \<mapsto> (lock_path socket, ino))\<rparr>)"
| refused: "br_running s (os_pid sys) = None \<Longrightarrow> (\<And>c. civil_move s (os_others sys c)) \<Longrightarrow>
     acquireLock sys (lock_path socket) (br_disk s) = (Inl e, d) \<Longrightarrow> broker_step s (s\<lparr>br_disk := d\<rparr>)"
| stop: "br_running s pid = Some (path, ino) \<Longrightarrow>
     broker_step s (s\<lparr>br_disk := release ino (br_disk s), br_running := (br_running s)(pid := None)\<rparr>)"
| others: "civil_move s f \<Longrightarrow> broker_step s (s\<lparr>br_disk := f (br_disk s)\<rparr>)"

inductive brokers_from :: "brokers \<Rightarrow> brokers \<Rightarrow> bool" for s0 where
  init: "brokers_from s0 s0"
| step: "brokers_from s0 s \<Longrightarrow> broker_step s t \<Longrightarrow> brokers_from s0 t"

definition locks_held :: "brokers \<Rightarrow> disk \<Rightarrow> bool" where
  "locks_held s d \<longleftrightarrow> (\<forall>pid path ino. br_running s pid = Some (path, ino) \<longrightarrow>
     dk_locks d ino = Some pid \<and> dk_names d path = Some ino \<and> (\<exists>socket. path = lock_path socket))"

lemma civil_move_held: "civil_move s f \<Longrightarrow> locks_held s d \<Longrightarrow> locks_held s (f d)"
  unfolding civil_move_def locks_held_def by blast

lemma acquireLock_held:
  assumes "\<And>c. civil_move s (os_others sys c)" "locks_held s d"
  shows "locks_held s (snd (acquireLock sys path d))"
proof (rule acquireLock_keeps [of "locks_held s"])
  show "locks_held s (new_file k p u path d)" if "locks_held s d" "dk_names d path = None" for k p u d
    using that by (auto simp: locks_held_def new_file_def)
  show "locks_held s (set_node ino n d)" if "locks_held s d" for ino n d
    using that by (simp add: locks_held_def set_node_def)
  show "locks_held s (d\<lparr>dk_locks := (dk_locks d)(ino \<mapsto> os_pid sys)\<rparr>)"
    if "locks_held s d" "dk_locks d ino = None" for ino d
    using that by (fastforce simp: locks_held_def)
qed (use assms civil_move_held in blast)+

lemma broker_step_held: "broker_step s t \<Longrightarrow> locks_held s (br_disk s) \<Longrightarrow> locks_held t (br_disk t)"
proof (induction rule: broker_step.induct)
  case (start s sys socket ino d)
  have h: "locks_held s d"
    using acquireLock_held [of s sys "br_disk s" "lock_path socket"] start by simp
  from acquireLock_ok [OF start(3)] obtain d2 where d2: "dk_names d2 (lock_path socket) = Some ino"
    "d = (os_others sys FLock d2)\<lparr>dk_locks := (dk_locks (os_others sys FLock d2))(ino \<mapsto> os_pid sys)\<rparr>" .
  then have "dk_names d (lock_path socket) = Some ino"
    using start(2) [of FLock] by (auto simp: civil_move_def)
  with h d2(2) start(1) show ?case by (auto simp: locks_held_def)
next
  case (refused s sys socket e d)
  then show ?case
    using acquireLock_held [of s sys "br_disk s" "lock_path socket"] by (simp add: locks_held_def)
next
  case (stop s pid path ino)
  show ?case
    unfolding locks_held_def
  proof (intro allI impI)
    fix p q i
    assume "br_running (s\<lparr>br_disk := release ino (br_disk s), br_running := (br_running s)(pid := None)\<rparr>) p = Some (q, i)"
    then have p: "br_running s p = Some (q, i)" "p \<noteq> pid" by (auto split: if_splits)
    with stop have l: "dk_locks (br_disk s) ino = Some pid" "dk_locks (br_disk s) i = Some p"
      "dk_names (br_disk s) q = Some i" "\<exists>socket. q = lock_path socket"
      unfolding locks_held_def by blast+
    with p(2) have "i \<noteq> ino" by auto
    with l show "dk_locks (br_disk (s\<lparr>br_disk := release ino (br_disk s), br_running := (br_running s)(pid := None)\<rparr>)) i = Some p
        \<and> dk_names (br_disk (s\<lparr>br_disk := release ino (br_disk s), br_running := (br_running s)(pid := None)\<rparr>)) q = Some i
        \<and> (\<exists>socket. q = lock_path socket)"
      by (simp add: release_def)
  qed
next
  case (others s f)
  then show ?case using civil_move_held [of s f "br_disk s"] by (simp add: locks_held_def)
qed

lemma brokers_from_held: "brokers_from s0 s \<Longrightarrow> locks_held s0 (br_disk s0) \<Longrightarrow> locks_held s (br_disk s)"
  by (induction rule: brokers_from.induct) (auto intro: broker_step_held)

section \<open>Properties\<close>

text \<open>C26: One broker per socket.  However brokers start and stop and whatever else happens to the disk between
  any two of their system calls, as long as nobody removes a lock file or releases another's lock, two
  running brokers never share the lock of one socket path.\<close>

theorem one_broker_per_socket:
  assumes "brokers_from s0 s" "\<forall>pid. br_running s0 pid = None"
    and "br_running s p = Some (path, i)" "br_running s q = Some (path, j)"
  shows "p = q"
proof -
  have "locks_held s0 (br_disk s0)" using assms(2) by (simp add: locks_held_def)
  from brokers_from_held [OF assms(1) this] have "locks_held s (br_disk s)" .
  with assms(3,4) show ?thesis unfolding locks_held_def by (metis option.inject)
qed

section \<open>The key across restarts\<close>

definition calm :: "osys \<Rightarrow> bool" where
  "calm sys \<longleftrightarrow> (\<forall>c d. os_others sys c d = d)"

definition faultless :: "osys \<Rightarrow> bool" where
  "faultless sys \<longleftrightarrow> (\<forall>c. \<not> os_faults sys c)"

definition locked_by :: "osys \<Rightarrow> nat \<Rightarrow> disk \<Rightarrow> disk" where
  "locked_by sys ino d = d\<lparr>dk_locks := (dk_locks d)(ino \<mapsto> os_pid sys)\<rparr>"

lemma new_node [simp]: "dk_nodes (new_file k p u path d) (dk_next d) =
     \<lparr>nd_kind = k, nd_perm = p, nd_uid = u, nd_links = 1, nd_data = []\<rparr>"
  by (simp add: new_file_def)

lemma created_mode: "(0x180 AND NOT (m :: 32 word)) AND 0x3F = 0"
proof -
  have "(0x180 AND NOT m) AND 0x3F = (0x180 AND 0x3F) AND NOT m"
    by (simp only: and.assoc and.commute and.left_commute)
  also have "(0x180 AND 0x3F :: 32 word) = 0" by simp
  finally show ?thesis by simp
qed

lemma acquireLock_calm:
  assumes "calm sys" "acquireLock sys path d = (Inr ino, d')"
  shows "dk_locks d ino = None \<and> ((dk_names d path = Some ino \<and> safe_lock_node sys (dk_nodes d ino)
        \<and> d' = locked_by sys ino d)
     \<or> (dk_names d path = None \<and> ino = dk_next d
        \<and> d' = locked_by sys ino (new_file RegularFile 0x180 (os_euid sys) path d)))"
proof (cases "dk_names d path")
  case None
  let ?n = "new_file RegularFile (0x180 AND NOT (os_umask sys)) (os_euid sys) path d"
  have set: "set_node (dk_next d) ((dk_nodes ?n (dk_next d))\<lparr>nd_perm := 0x180\<rparr>) ?n
      = new_file RegularFile 0x180 (os_euid sys) path d"
    by (simp add: set_node_def new_file_def)
  from None assms have o: "open_lock sys path d = (Inr (dk_next d, True), ?n)"
    by (auto simp: acquireLock_def open_lock_def calm_def Let_def split: if_split_asm)
  with assms(2) have l: "lock_opened sys path (dk_next d) True ?n = (Inr ino, d')"
    by (simp add: acquireLock_def)
  then have "ino = dk_next d" "dk_locks d ino = None" "d' = locked_by sys ino (new_file RegularFile 0x180 (os_euid sys) path d)"
    using assms(1) set [symmetric]
    by (auto simp: lock_opened_def lock_mode_def calm_def Let_def locked_by_def split: if_split_asm sum.split_asm prod.split_asm)
      (auto simp: new_file_def set_node_def)
  with None show ?thesis by simp
next
  case (Some i)
  with assms have "open_lock sys path d = (Inr (i, False), d)"
    by (auto simp: acquireLock_def open_lock_def calm_def Let_def split: if_split_asm)
  with assms(2) have "lock_opened sys path i False d = (Inr ino, d')"
    by (simp add: acquireLock_def)
  with assms(1) Some show ?thesis
    by (auto simp: lock_opened_def lock_mode_def calm_def Let_def locked_by_def split: if_split_asm)
qed

lemma acquireLock_again:
  assumes "calm sys" "faultless sys" "dk_names d path = Some ino" "safe_lock_node sys (dk_nodes d ino)"
    "dk_locks d ino = None"
  shows "acquireLock sys path d = (Inr ino, locked_by sys ino d)"
proof -
  have "nd_kind (dk_nodes d ino) = RegularFile" using assms(4) by (simp add: safe_lock_node_def)
  then show ?thesis
    using assms by (simp add: acquireLock_def open_lock_def lock_opened_def lock_mode_def calm_def faultless_def
        locked_by_def Let_def)
qed

lemma read_key_calm:
  assumes "calm sys" "read_key sys random written ino d = (r, d')"
  shows "(nd_data (dk_nodes d ino) \<noteq> [] \<longrightarrow> d' = d \<and> (\<forall>k. r = Inr k \<longrightarrow> k = nd_data (dk_nodes d ino)))
     \<and> (\<forall>k. r = Inr k \<longrightarrow> length k = 32 \<and> d' = set_node ino ((dk_nodes d ino)\<lparr>nd_data := k\<rparr>) d)"
proof (cases "nd_data (dk_nodes d ino) = []")
  case True
  with assms show ?thesis
    by (auto simp: read_key_def create_key_def calm_def Let_def split: if_split_asm sum.split_asm prod.split_asm)
next
  case False
  let ?data = "nd_data (dk_nodes d ino)"
  have "set_node ino ((dk_nodes d ino)\<lparr>nd_data := ?data\<rparr>) d = d"
    by (simp add: set_node_def)
  moreover have "length (take 33 ?data) = 32 \<Longrightarrow> take 33 ?data = ?data" by simp
  ultimately show ?thesis
    using False assms by (auto simp: read_key_def calm_def Let_def split: if_split_asm)
qed

lemma load_key_ok:
  assumes "calm sys" "load_key f sys random written path d = (Inr k, d')"
  obtains ino where "dk_names d' path = Some ino" "nd_data (dk_nodes d' ino) = k" "length k = 32"
    "safe_lock_node sys (dk_nodes d' ino)" "dk_locks d' ino = None"
proof -
  from assms(2) obtain ino d1 d2 where l: "acquireLock sys path d = (Inr ino, d1)"
    "read_key sys random written ino d1 = (Inr k, d2)" "d' = release ino d2"
    by (auto simp: load_key_def split: sum.split_asm prod.split_asm)
  from read_key_calm [OF assms(1) l(2)] have k: "length k = 32" "d2 = set_node ino ((dk_nodes d1 ino)\<lparr>nd_data := k\<rparr>) d1"
    by auto
  from acquireLock_calm [OF assms(1) l(1)] have n: "dk_names d1 path = Some ino" "safe_lock_node sys (dk_nodes d1 ino)"
    by (auto simp: locked_by_def safe_lock_node_def) (auto simp: new_file_def)
  show ?thesis
    by (rule that [of ino]) (use n k l(3) in \<open>auto simp: release_def set_node_def safe_lock_node_def\<close>)
qed

text \<open>Starts of the broker one after the other, each with its own view of the system, its own random bytes,
  and what others have done to the disk since the one before.\<close>

record key_start =
  ks_before :: "disk \<Rightarrow> disk"
  ks_fs :: fs
  ks_sys :: osys
  ks_random :: bytes
  ks_written :: nat

fun later_starts :: "string \<Rightarrow> key_start list \<Rightarrow> disk \<Rightarrow> (key_error + bytes) list \<times> disk" where
  "later_starts path [] d = ([], d)"
| "later_starts path (s # ss) d =
     (let (r, d1) = load_key (ks_fs s) (ks_sys s) (ks_random s) (ks_written s) path (ks_before s d);
          (rs, d2) = later_starts path ss d1
      in (r # rs, d2))"

text \<open>Nobody else touches the key file: not its name, its contents and attributes, nor its lock.\<close>

definition leaves_file :: "string \<Rightarrow> (disk \<Rightarrow> disk) \<Rightarrow> bool" where
  "leaves_file path g \<longleftrightarrow> (\<forall>d ino. dk_names d path = Some ino \<longrightarrow> dk_names (g d) path = Some ino
     \<and> dk_nodes (g d) ino = dk_nodes d ino \<and> dk_locks (g d) ino = dk_locks d ino)"

definition key_there :: "string \<Rightarrow> nat \<Rightarrow> bytes \<Rightarrow> osys \<Rightarrow> disk \<Rightarrow> bool" where
  "key_there path ino k sys d \<longleftrightarrow> dk_names d path = Some ino \<and> nd_data (dk_nodes d ino) = k
     \<and> safe_lock_node sys (dk_nodes d ino) \<and> dk_locks d ino = None"

lemma leaves_file_key: "leaves_file path g \<Longrightarrow> key_there path ino k sys d \<Longrightarrow> key_there path ino k sys (g d)"
  by (simp add: leaves_file_def key_there_def)

lemma acquireLock_there:
  assumes "calm sys" "dk_names d path = Some i" "acquireLock sys path d = (Inl e, d')"
  shows "d' = d"
  using assms
  by (auto simp: acquireLock_def open_lock_def lock_opened_def lock_mode_def calm_def Let_def
      split: if_split_asm)

lemma release_locked: "dk_locks d ino = None \<Longrightarrow> release ino (locked_by sys ino d) = d"
  by (simp add: release_def locked_by_def fun_upd_idem)

lemma load_key_again:
  assumes "calm sys" "key_there path ino k sys0 d" "length k = 32"
    and "load_key f sys random written path d = (r, d')"
  shows "d' = d \<and> (\<forall>k'. r = Inr k' \<longrightarrow> k' = k)"
proof -
  from assms(2) have n: "dk_names d path = Some ino" "nd_data (dk_nodes d ino) = k" "dk_locks d ino = None"
    by (simp_all add: key_there_def)
  obtain a d1 where a: "acquireLock sys path d = (a, d1)" by fastforce
  show ?thesis
  proof (cases a)
    case (Inl e)
    with acquireLock_there [OF assms(1) n(1)] a assms(4) show ?thesis
      by (auto simp: load_key_def split: sum.split_asm)
  next
    case (Inr i)
    from acquireLock_calm [OF assms(1) a [unfolded Inr]] n(1) have i: "i = ino" "d1 = locked_by sys ino d" by auto
    obtain r1 d2 where k: "read_key sys random written ino d1 = (r1, d2)" by fastforce
    have "nd_data (dk_nodes d1 ino) = k" "k \<noteq> []" using n(2) assms(3) i by (auto simp: locked_by_def)
    with read_key_calm [OF assms(1) k] have "d2 = d1" "\<forall>k'. r1 = Inr k' \<longrightarrow> k' = k" by auto
    with assms(4) a Inr i k release_locked [OF n(3)] show ?thesis
      by (auto simp: load_key_def split: sum.split_asm)
  qed
qed

lemma load_key_gets:
  assumes "calm sys" "faultless sys" "key_there path ino k sys0 d" "length k = 32" "os_euid sys = os_euid sys0"
    and "CheckParents f path = Inr ()"
  shows "load_key f sys random written path d = (Inr k, d)"
proof -
  from assms(3,5) have n: "dk_names d path = Some ino" "nd_data (dk_nodes d ino) = k" "dk_locks d ino = None"
    "safe_lock_node sys (dk_nodes d ino)"
    by (simp_all add: key_there_def safe_lock_node_def)
  have "read_key sys random written ino (locked_by sys ino d) = (Inr k, locked_by sys ino d)"
    using n(2) assms(1,2,4) by (auto simp: read_key_def calm_def faultless_def Let_def locked_by_def)
  then show ?thesis
    using acquireLock_again [OF assms(1,2) n(1,4,3)] assms(6) release_locked [OF n(3)] by (simp add: load_key_def)
qed

lemma later_starts_key:
  assumes "later_starts path ss d = (rs, d')" "key_there path ino k sys d" "length k = 32"
    and "\<forall>s \<in> set ss. calm (ks_sys s) \<and> leaves_file path (ks_before s)"
  shows "key_there path ino k sys d'
     \<and> list_all2 (\<lambda>s r. (\<forall>k'. r = Inr k' \<longrightarrow> k' = k)
          \<and> (faultless (ks_sys s) \<longrightarrow> os_euid (ks_sys s) = os_euid sys \<longrightarrow>
               CheckParents (ks_fs s) path = Inr () \<longrightarrow> r = Inr k)) ss rs"
  using assms
proof (induction ss arbitrary: d rs)
  case Nil
  then show ?case by simp
next
  case (Cons s ss)
  obtain r d1 where r: "load_key (ks_fs s) (ks_sys s) (ks_random s) (ks_written s) path (ks_before s d) = (r, d1)"
    by fastforce
  obtain rs' d2 where l: "later_starts path ss d1 = (rs', d2)" by fastforce
  with r Cons.prems(1) have e: "rs = r # rs'" "d' = d2" by auto
  have c: "calm (ks_sys s)" and there: "key_there path ino k sys (ks_before s d)"
    using Cons.prems(2,4) leaves_file_key by auto
  note again = load_key_again [OF c there Cons.prems(3) r]
  then have "d1 = ks_before s d" by simp
  with Cons.IH [of d1 rs'] l e(2) there Cons.prems(3,4) have
    IH: "key_there path ino k sys d'
     \<and> list_all2 (\<lambda>s r. (\<forall>k'. r = Inr k' \<longrightarrow> k' = k)
          \<and> (faultless (ks_sys s) \<longrightarrow> os_euid (ks_sys s) = os_euid sys \<longrightarrow>
               CheckParents (ks_fs s) path = Inr () \<longrightarrow> r = Inr k)) ss rs'" by simp
  have "faultless (ks_sys s) \<Longrightarrow> os_euid (ks_sys s) = os_euid sys \<Longrightarrow> CheckParents (ks_fs s) path = Inr () \<Longrightarrow> r = Inr k"
    using load_key_gets [OF c _ there Cons.prems(3), of "ks_fs s" "ks_random s" "ks_written s"] unfolding r by blast
  with again have "(\<forall>k'. r = Inr k' \<longrightarrow> k' = k) \<and> (faultless (ks_sys s) \<longrightarrow> os_euid (ks_sys s) = os_euid sys \<longrightarrow>
      CheckParents (ks_fs s) path = Inr () \<longrightarrow> r = Inr k)" by blast
  with IH show ?case unfolding e(1) list_all2_Cons by (intro conjI) (elim conjE, assumption)+
qed

text \<open>C27: The cursor key survives restarts and is never replaced.  Once a start of the broker has the key, it
  is 32 bytes and is what the file holds.  Then follow any number of later starts, each with its own system
  (calm: nobody interferes during a start) and its own random bytes, and between them others may do
  anything that leaves the key file alone.  Afterwards the name still leads to the same file with the same
  key, unlocked; every start that got a key got that one, whatever random bytes it would have drawn; and every
  start of the same user in which no system call fails and whose path check passes got it, so cursors
  handed out before a restart still open after it.\<close>

theorem cursor_key_survives_restart:
  assumes "calm sys" "load_key f sys random written path d = (Inr k, d')"
    and "\<forall>s \<in> set ss. calm (ks_sys s) \<and> leaves_file path (ks_before s)"
    and "later_starts path ss d' = (rs, d'')"
  shows "length k = 32
     \<and> (\<exists>ino. dk_names d' path = Some ino \<and> nd_data (dk_nodes d' ino) = k
          \<and> dk_names d'' path = Some ino \<and> nd_data (dk_nodes d'' ino) = k
          \<and> safe_lock_node sys (dk_nodes d'' ino) \<and> dk_locks d'' ino = None)
     \<and> list_all2 (\<lambda>s r. (\<forall>k'. r = Inr k' \<longrightarrow> k' = k)
          \<and> (faultless (ks_sys s) \<longrightarrow> os_euid (ks_sys s) = os_euid sys \<longrightarrow>
               CheckParents (ks_fs s) path = Inr () \<longrightarrow> r = Inr k)) ss rs"
proof -
  from load_key_ok [OF assms(1,2)] obtain ino where n: "length k = 32" "key_there path ino k sys d'"
    unfolding key_there_def by metis
  from later_starts_key [OF assms(4) n(2,1) assms(3)] n show ?thesis
    unfolding key_there_def by blast
qed

definition example_sys :: osys where
  "example_sys = \<lparr>os_euid = 501, os_umask = 0x12, os_pid = 7, os_follow = \<lambda>_. None, os_faults = \<lambda>_. False, os_others = \<lambda>_ d. d\<rparr>"

definition empty_disk :: disk where
  "empty_disk = \<lparr>dk_names = \<lambda>_. None, dk_nodes = \<lambda>_. \<lparr>nd_kind = OtherFile, nd_perm = 0, nd_uid = 0, nd_links = 0,
     nd_data = []\<rparr>, dk_next = 1, dk_locks = \<lambda>_. None\<rparr>"

lemma example_sys_calm: "calm example_sys" "faultless example_sys"
  by (simp_all add: calm_def faultless_def example_sys_def)

lemma acquireLock_new:
  assumes "calm sys" "faultless sys" "dk_names d path = None" "dk_locks d (dk_next d) = None"
  shows "acquireLock sys path d =
     (Inr (dk_next d), locked_by sys (dk_next d) (new_file RegularFile 0x180 (os_euid sys) path d))"
proof -
  let ?n = "new_file RegularFile (0x180 AND NOT (os_umask sys)) (os_euid sys) path d"
  have o: "open_lock sys path d = (Inr (dk_next d, True), ?n)"
    using assms by (simp add: open_lock_def calm_def faultless_def Let_def)
  have "safe_lock_node sys (dk_nodes ?n (dk_next d))"
    by (simp add: safe_lock_node_def created_mode)
  moreover have "lock_mode sys (dk_next d) True ?n = (Inr (), new_file RegularFile 0x180 (os_euid sys) path d)"
    using assms by (simp add: lock_mode_def calm_def faultless_def Let_def) (simp add: set_node_def new_file_def)
  moreover have "dk_names (new_file RegularFile 0x180 (os_euid sys) path d) path = Some (dk_next d)"
    "dk_locks (new_file RegularFile 0x180 (os_euid sys) path d) (dk_next d) = None"
    using assms(4) by (simp_all add: new_file_def)
  ultimately show ?thesis
    using assms(1,2) o by (simp add: acquireLock_def lock_opened_def calm_def faultless_def Let_def locked_by_def)
qed

lemma one_broker_per_socket_witness:
  "\<exists>s :: brokers. br_running s 7 = Some (''/run/s.lock'', 1) \<and> (\<forall>q j. br_running s q = Some (''/run/s.lock'', j) \<longrightarrow> 7 = q)"
proof -
  let ?init = "\<lparr>br_disk = empty_disk, br_running = \<lambda>_. None\<rparr>"
  let ?d = "locked_by example_sys 1 (new_file RegularFile 0x180 501 ''/run/s.lock'' empty_disk)"
  let ?s = "?init\<lparr>br_disk := ?d, br_running := (br_running ?init)(7 \<mapsto> (''/run/s.lock'', 1))\<rparr>"
  have p: "lock_path ''/run/s'' = ''/run/s.lock''" by (simp add: lock_path_def)
  have sys: "os_pid example_sys = 7" "os_euid example_sys = 501" by (simp_all add: example_sys_def)
  have e: "dk_names empty_disk ''/run/s.lock'' = None" "dk_locks empty_disk (dk_next empty_disk) = None"
    "dk_next empty_disk = 1" by (simp_all add: empty_disk_def)
  have "acquireLock example_sys (lock_path ''/run/s'') (br_disk ?init) = (Inr 1, ?d)"
    using acquireLock_new [OF example_sys_calm e(1,2)] by (simp add: p e(3) sys)
  moreover have "\<And>c. civil_move ?init (os_others example_sys c)"
    by (simp add: civil_move_def example_sys_def)
  ultimately have "broker_step ?init ?s"
    using broker_step.start [of ?init example_sys "''/run/s''" 1 ?d] by (simp add: p sys)
  then have r: "brokers_from ?init ?s" by (rule brokers_from.step [OF brokers_from.init])
  have n: "\<forall>pid. br_running ?init pid = None" by simp
  have m: "br_running ?s 7 = Some (''/run/s.lock'', 1)" by simp
  have "7 = q" if "br_running ?s q = Some (''/run/s.lock'', j)" for q j
    by (rule one_broker_per_socket [OF r n m that])
  then have "\<forall>q j. br_running ?s q = Some (''/run/s.lock'', j) \<longrightarrow> 7 = q" by (intro allI impI)
  with m show ?thesis by (intro exI [of _ ?s] conjI)
qed

definition example_restart :: key_start where
  "example_restart = \<lparr>ks_before = \<lambda>d. d, ks_fs = example_fs, ks_sys = example_sys, ks_random = replicate 32 CHR ''x'',
     ks_written = 0\<rparr>"

lemma cursor_key_survives_restart_witness:
  "\<exists>d' d''. load_key example_fs example_sys (replicate 32 CHR ''k'') 0 ''/etc/p'' empty_disk = (Inr (replicate 32 CHR ''k''), d')
     \<and> later_starts ''/etc/p'' [example_restart, example_restart] d' =
         ([Inr (replicate 32 CHR ''k''), Inr (replicate 32 CHR ''k'')], d'')
     \<and> dk_names d'' ''/etc/p'' \<noteq> None"
proof -
  let ?k = "replicate 32 CHR ''k''" and ?ss = "[example_restart, example_restart]"
  have e: "dk_names empty_disk ''/etc/p'' = None" "dk_locks empty_disk (dk_next empty_disk) = None"
    by (simp_all add: empty_disk_def)
  let ?d1 = "locked_by example_sys (dk_next empty_disk) (new_file RegularFile 0x180 (os_euid example_sys) ''/etc/p'' empty_disk)"
  have "nd_data (dk_nodes ?d1 (dk_next empty_disk)) = []" by (simp add: locked_by_def)
  then have "fst (read_key example_sys ?k 0 (dk_next empty_disk) ?d1) = Inr ?k"
    using example_sys_calm by (simp add: read_key_def create_key_def calm_def faultless_def Let_def)
  then obtain d' where l: "load_key example_fs example_sys ?k 0 ''/etc/p'' empty_disk = (Inr ?k, d')"
    by (cases "read_key example_sys ?k 0 (dk_next empty_disk) ?d1")
      (simp add: load_key_def example_parents acquireLock_new [OF example_sys_calm e])
  obtain rs d'' where m: "later_starts ''/etc/p'' ?ss d' = (rs, d'')" by fastforce
  have r: "ks_sys example_restart = example_sys" "ks_fs example_restart = example_fs" "ks_before example_restart = (\<lambda>d. d)"
    by (simp_all add: example_restart_def)
  have "\<forall>s \<in> set ?ss. calm (ks_sys s) \<and> leaves_file ''/etc/p'' (ks_before s)"
    using example_sys_calm(1) by (simp add: r leaves_file_def)
  note key = cursor_key_survives_restart [OF example_sys_calm(1) l this m]
  then have "rs = [Inr ?k, Inr ?k]"
    using example_sys_calm(2) example_parents by (auto simp: r list_all2_Cons1)
  moreover from key have "dk_names d'' ''/etc/p'' \<noteq> None" by auto
  ultimately show ?thesis using l m by blast
qed

end
