(* ===== verification/Directories.thy ===== *)
theory Directories
  imports Locks
begin

unbundle bit_operations_syntax

text \<open>
  The directories the program makes: \<open>os.MkdirAll\<close> on the way to the socket (\<open>Run\<close> in
  \<open>server.go\<close>), one name at a time so that a failure keeps what was made before it.  The lemmas say
  which names it may add.  A disk only grows while the broker takes its place: inodes that are in use
  stay what they are.
\<close>

section \<open>os.MkdirAll\<close>

text \<open>A path without its trailing separators, and the part of it up to the separator before its last element.\<close>

definition dir_name :: "string \<Rightarrow> string" where
  "dir_name path = (let p = rev (dropWhile (\<lambda>c. c = slash) (rev path)) in if p = [] then [slash] else p)"

definition parent_prefix :: "string \<Rightarrow> string" where
  "parent_prefix path = rev (dropWhile (\<lambda>c. c \<noteq> slash) (dropWhile (\<lambda>c. c = slash) (rev path)))"

text \<open>\<open>os.Stat\<close>: whether the name leads to a directory, if it leads to anything.\<close>

definition stat_dir :: "osys \<Rightarrow> string \<Rightarrow> disk \<Rightarrow> bool option" where
  "stat_dir sys name d =
     (if os_faults sys (StatDir name) then None
      else (case dk_names d name of
          None \<Rightarrow> None
        | Some ino \<Rightarrow>
            (case nd_kind (dk_nodes d ino) of
               DirFile \<Rightarrow> Some True
             | SymlinkFile \<Rightarrow> os_follow sys name
             | _ \<Rightarrow> Some False)))"

definition names_dir :: "string \<Rightarrow> disk \<Rightarrow> bool" where
  "names_dir name d \<longleftrightarrow> (\<exists>ino. dk_names d name = Some ino \<and> nd_kind (dk_nodes d ino) = DirFile)"

text \<open>\<open>os.Mkdir\<close> with mode 0750; where it fails, a directory that is there after all is as good.\<close>

definition make_dir :: "osys \<Rightarrow> string \<Rightarrow> disk \<Rightarrow> bool \<times> disk" where
  "make_dir sys name d =
     (let d = os_others sys (MakeDir name) d in
      if os_faults sys (MakeDir name) \<or> dk_names d name \<noteq> None
      then
        let d = os_others sys (LStatDir name) d in
        (\<not> os_faults sys (LStatDir name) \<and> names_dir name d, d)
      else (True, new_file DirFile (0x1E8 AND NOT (os_umask sys)) (os_euid sys) name d))"

lemma dropWhile_head: "dropWhile P xs = y # ys \<Longrightarrow> \<not> P y"
  by (induction xs) (auto split: if_split_asm)

lemma parent_prefix_shorter: "parent_prefix path \<noteq> [] \<Longrightarrow> length (parent_prefix path) < length path"
proof -
  assume a: "parent_prefix path \<noteq> []"
  let ?p = "dropWhile (\<lambda>c. c = slash) (rev path)"
  have "?p \<noteq> []" using a unfolding parent_prefix_def by (metis dropWhile.simps(1) rev.simps(1))
  then obtain x xs where x: "?p = x # xs" unfolding neq_Nil_conv by blast
  from dropWhile_head [OF x] have "x \<noteq> slash" by simp
  have "length (dropWhile (\<lambda>c. c \<noteq> slash) ?p) \<le> length xs" using x \<open>x \<noteq> slash\<close> by (simp add: length_dropWhile_le)
  moreover have "length ?p \<le> length path" using length_dropWhile_le [of _ "rev path"] by simp
  ultimately show ?thesis using x(1) by (simp add: parent_prefix_def)
qed

text \<open>The flag says that the directory is there.\<close>

function mkdir_all :: "osys \<Rightarrow> string \<Rightarrow> disk \<Rightarrow> bool \<times> disk" where
  "mkdir_all sys path d =
     (let name = dir_name path; d = os_others sys (StatDir name) d in
      (case stat_dir sys name d of
         Some is_directory \<Rightarrow> (is_directory, d)
       | None \<Rightarrow>
           (case (if parent_prefix path = [] then (True, d) else mkdir_all sys (parent_prefix path) d) of
              (False, d) \<Rightarrow> (False, d)
            | (True, d) \<Rightarrow> make_dir sys name d)))"
  by pat_completeness auto
termination
  by (relation "measure (\<lambda>(sys, path, d). length path)") (simp_all add: parent_prefix_shorter)

declare mkdir_all.simps [simp del]

section \<open>What it may change\<close>

text \<open>A name on the way to a directory: the root, or a path that the directory's path continues.\<close>

definition on_the_way :: "string \<Rightarrow> string \<Rightarrow> bool" where
  "on_the_way dir q \<longleftrightarrow> q = [slash] \<or> (q \<noteq> [] \<and> last q \<noteq> slash \<and> (\<exists>rest. dir @ [slash] = q @ slash # rest))"

lemma dir_name_on_the_way: "on_the_way path (dir_name path)"
proof (cases "dropWhile (\<lambda>c. c = slash) (rev path) = []")
  case True
  then show ?thesis by (simp add: on_the_way_def dir_name_def)
next
  case False
  let ?p = "rev (dropWhile (\<lambda>c. c = slash) (rev path))" and ?t = "rev (takeWhile (\<lambda>c. c = slash) (rev path))"
  have "?p @ ?t = rev (rev path)" by (simp only: rev_append [symmetric] takeWhile_dropWhile_id)
  then have "path = ?p @ ?t" by simp
  moreover have "\<forall>c \<in> set (takeWhile (\<lambda>c. c = slash) (rev path)). c = slash" by (auto dest: set_takeWhileD)
  then have "takeWhile (\<lambda>c. c = slash) (rev path) = replicate (length (takeWhile (\<lambda>c. c = slash) (rev path))) slash"
    by (simp only: replicate_length_same)
  then have "?t @ [slash] = slash # ?t" by (metis replicate_append_same rev_replicate)
  ultimately have "path @ [slash] = ?p @ slash # ?t" by (metis append.assoc)
  moreover obtain x xs where x: "dropWhile (\<lambda>c. c = slash) (rev path) = x # xs"
    using False by (cases "dropWhile (\<lambda>c. c = slash) (rev path)") auto
  moreover from dropWhile_head [OF x] have "x \<noteq> slash" by simp
  ultimately show ?thesis unfolding on_the_way_def dir_name_def x by auto
qed

lemma parent_prefix_split:
  assumes "parent_prefix path \<noteq> []"
  obtains u v where "parent_prefix path = u @ [slash]" "path = u @ slash # v"
proof -
  let ?s = "dropWhile (\<lambda>c. c = slash) (rev path)"
  let ?r = "dropWhile (\<lambda>c. c \<noteq> slash) ?s"
  obtain x xs where r: "?r = x # xs"
    using assms by (cases ?r) (auto simp: parent_prefix_def)
  from dropWhile_head [OF r] have x: "x = slash" by simp
  have "path = rev (rev path)" by simp
  also have "rev path = takeWhile (\<lambda>c. c = slash) (rev path) @ takeWhile (\<lambda>c. c \<noteq> slash) ?s @ ?r"
    by (simp only: takeWhile_dropWhile_id)
  finally have "path = rev ?r @ rev (takeWhile (\<lambda>c. c \<noteq> slash) ?s) @ rev (takeWhile (\<lambda>c. c = slash) (rev path))"
    by (simp only: rev_append append.assoc)
  then show ?thesis using that [of "rev xs"] unfolding parent_prefix_def r x by simp
qed

lemma on_the_way_parent:
  assumes "parent_prefix path \<noteq> []" "on_the_way (parent_prefix path) q"
  shows "on_the_way path q"
proof (cases "q = [slash]")
  case True
  then show ?thesis by (simp add: on_the_way_def)
next
  case False
  obtain u v where u: "parent_prefix path = u @ [slash]" "path = u @ slash # v"
    by (rule parent_prefix_split [OF assms(1)])
  from False assms(2) obtain rest where q: "q \<noteq> []" "last q \<noteq> slash" "(u @ [slash]) @ [slash] = q @ slash # rest"
    by (auto simp: on_the_way_def u(1))
  have "rest \<noteq> []"
  proof
    assume "rest = []"
    with q(3) have "u @ [slash] = q" by simp
    with q(2) show False by auto
  qed
  then obtain rest' where "rest = rest' @ [slash]" using q(3) by (metis append_butlast_last_id last_ConsR last_append last_snoc list.discI)
  with q(3) have "u @ [slash] = q @ slash # rest'" by simp
  then have "path @ [slash] = q @ slash # (rest' @ v @ [slash])" by (simp add: u(2))
  with q(1,2) show ?thesis by (auto simp: on_the_way_def)
qed

text \<open>The disk only grows: inodes in use, names in use and locks stay, and a new name on the way to the
  directory is a directory of the caller's.\<close>

definition own_dir :: "osys \<Rightarrow> node \<Rightarrow> bool" where
  "own_dir sys n \<longleftrightarrow> nd_kind n = DirFile \<and> nd_uid n = os_euid sys \<and> nd_perm n = 0x1E8 AND NOT (os_umask sys)"

definition grows :: "disk \<Rightarrow> disk \<Rightarrow> bool" where
  "grows d d' \<longleftrightarrow> dk_next d \<le> dk_next d' \<and> (\<forall>ino < dk_next d. dk_nodes d' ino = dk_nodes d ino)"

definition made_dirs :: "osys \<Rightarrow> string \<Rightarrow> disk \<Rightarrow> disk \<Rightarrow> bool" where
  "made_dirs sys dir d d' \<longleftrightarrow> grows d d' \<and> dk_locks d' = dk_locks d
     \<and> (\<forall>ino. nd_kind (dk_nodes d' ino) = SocketFile \<longrightarrow> nd_kind (dk_nodes d ino) = SocketFile)
     \<and> (\<forall>q. dk_names d' q \<noteq> dk_names d q \<longrightarrow> dk_names d q = None \<and> on_the_way dir q
          \<and> (\<exists>ino < dk_next d'. dk_names d' q = Some ino \<and> own_dir sys (dk_nodes d' ino)))"

lemma grows_trans: "grows a b \<Longrightarrow> grows b c \<Longrightarrow> grows a c"
  by (simp add: grows_def)

lemma grows_refl [simp]: "grows d d"
  by (simp add: grows_def)

lemma made_dirs_refl [simp]: "made_dirs sys dir d d"
  by (simp add: made_dirs_def)

lemma made_dirs_keeps:
  assumes "made_dirs sys dir d d'"
  shows "dk_locks d' = dk_locks d" "dk_names d q = Some ino \<Longrightarrow> dk_names d' q = Some ino"
    "nd_kind (dk_nodes d' ino) = SocketFile \<Longrightarrow> nd_kind (dk_nodes d ino) = SocketFile"
  using assms unfolding made_dirs_def by (metis option.distinct(1))+

lemma made_dirs_new:
  assumes "made_dirs sys dir d d'" "dk_names d' q = None" "on_the_way dir q"
  shows "made_dirs sys dir d (new_file DirFile (0x1E8 AND NOT (os_umask sys)) (os_euid sys) q d')"
proof -
  have "dk_names d q = None" using assms(1,2) unfolding made_dirs_def by (metis option.distinct(1))
  let ?n = "new_file DirFile (0x1E8 AND NOT (os_umask sys)) (os_euid sys) q d'"
  have old: "\<forall>ino < dk_next d'. dk_nodes ?n ino = dk_nodes d' ino" "dk_next ?n = Suc (dk_next d')"
    by (simp_all add: new_file_def)
  have "\<exists>ino < dk_next ?n. dk_names ?n r = Some ino \<and> own_dir sys (dk_nodes ?n ino)"
    if "dk_names ?n r \<noteq> dk_names d r" for r
  proof (cases "r = q")
    case True
    then show ?thesis by (intro exI [of _ "dk_next d'"]) (simp add: new_file_def own_dir_def)
  next
    case False
    then have "dk_names ?n r = dk_names d' r" by (simp add: new_file_def)
    with that assms(1) obtain ino where "ino < dk_next d'" "dk_names d' r = Some ino" "own_dir sys (dk_nodes d' ino)"
      unfolding made_dirs_def by metis
    with old \<open>dk_names ?n r = dk_names d' r\<close> show ?thesis by (metis less_SucI)
  qed
  moreover have "dk_names d r = None \<and> on_the_way dir r" if "dk_names ?n r \<noteq> dk_names d r" for r
    using that assms \<open>dk_names d q = None\<close> by (cases "r = q") (auto simp: made_dirs_def new_file_def)
  moreover have "grows d ?n" "dk_locks ?n = dk_locks d"
    using assms(1) old by (auto simp: made_dirs_def grows_def new_file_def)
  moreover have "nd_kind (dk_nodes ?n ino) = SocketFile \<longrightarrow> nd_kind (dk_nodes d ino) = SocketFile" for ino
    using assms(1) by (simp add: made_dirs_def new_file_def)
  ultimately show ?thesis unfolding made_dirs_def by blast
qed

lemma made_dirs_parent:
  assumes "parent_prefix path \<noteq> []" "made_dirs sys (parent_prefix path) d d'"
  shows "made_dirs sys path d d'"
  using assms(2) on_the_way_parent [OF assms(1)] by (simp add: made_dirs_def)

lemma mkdir_all_made:
  assumes "calm sys" "mkdir_all sys path d = (ok, d')"
  shows "made_dirs sys path d d'"
  using assms
proof (induction sys path d arbitrary: ok d' rule: mkdir_all.induct)
  case (1 sys path d)
  let ?name = "dir_name path"
  have c: "os_others sys c d = d" for c d using "1.prems"(1) by (simp add: calm_def)
  show ?case
  proof (cases "stat_dir sys ?name d")
    case (Some b)
    with "1.prems"(2) show ?thesis by (simp add: mkdir_all.simps [of sys path d] Let_def c)
  next
    case None
    obtain b d1 where p: "(if parent_prefix path = [] then (True, d) else mkdir_all sys (parent_prefix path) d) = (b, d1)"
      by fastforce
    have "made_dirs sys path d d1"
    proof (cases "parent_prefix path = []")
      case True
      with p show ?thesis by simp
    next
      case False
      have n: "stat_dir sys ?name (os_others sys (StatDir ?name) d) = None" using None by (simp add: c)
      from p False have e: "mkdir_all sys (parent_prefix path) (os_others sys (StatDir ?name) d) = (b, d1)" by (simp add: c)
      have "made_dirs sys (parent_prefix path) (os_others sys (StatDir ?name) d) d1"
        by (rule "1.IH" [OF refl refl n False "1.prems"(1) e])
      then show ?thesis using made_dirs_parent [OF False] by (simp add: c)
    qed
    moreover have "(if b then make_dir sys ?name d1 else (False, d1)) = (ok, d')"
      using "1.prems"(2) None p by (simp add: mkdir_all.simps [of sys path d] Let_def c split: bool.splits)
    ultimately show ?thesis
      using made_dirs_new [OF _ _ dir_name_on_the_way [of path], of sys d d1]
      by (auto simp: make_dir_def Let_def c split: if_split_asm)
  qed
qed

text \<open>Where the directory is there, nothing happens.\<close>

lemma mkdir_all_there:
  assumes "calm sys" "faultless sys" "names_dir (dir_name path) d"
  shows "mkdir_all sys path d = (True, d)"
  using assms
  by (auto simp: mkdir_all.simps [of sys path d] Let_def calm_def faultless_def stat_dir_def names_dir_def)

text \<open>Where only the last directory is missing, it is made.\<close>

lemma mkdir_all_last:
  assumes "calm sys" "faultless sys" "dk_names d (dir_name path) = None" "parent_prefix path \<noteq> []"
    and "names_dir (dir_name (parent_prefix path)) d"
  shows "mkdir_all sys path d =
     (True, new_file DirFile (0x1E8 AND NOT (os_umask sys)) (os_euid sys) (dir_name path) d)"
  using assms mkdir_all_there [OF assms(1,2,5)]
  by (simp add: mkdir_all.simps [of sys path d] Let_def calm_def faultless_def stat_dir_def make_dir_def)

end
