(* ===== verification/Lifecycle.thy ===== *)
theory Lifecycle
  imports Directories Serving Helper
begin

text \<open>
  The broker's life in \<open>internal/broker/server.go\<close>: building it (\<open>New\<close>, \<open>NewWithDeps\<close>, and
  \<open>backend.New\<close>), taking its place on the file system (\<open>checkSocketDir\<close>, \<open>prepareSocketPath\<close>, the
  first half of \<open>Run\<close>), and the accept loop with its 32 slots up to the removal of the socket, the release
  of the lock and the end of the contacts goroutine, as a step relation in which connections come, handlers end and the context is cancelled in any order.
\<close>

section \<open>Building the broker\<close>

datatype new_error =
    ConfigInvalid config_error
  | BackendFile secure_error
  | BackendVersion
  | DatabaseFile secure_error
  | DatabaseIdentity
  | CursorKey key_error
  | ContactsHelper string

text \<open>\<open>backend.New\<close>: what \<open>imsg --version\<close> printed, whether it succeeded and whether the three seconds
  were over are observations; SHA-256 is a parameter.\<close>

record backend_env =
  be_fs :: fs
  be_open :: open_env
  be_version_output :: "bytes list"
  be_version_ok :: bool
  be_version_expired :: bool
  be_view :: fs_view

definition backend_New :: "(bytes \<Rightarrow> bytes) \<Rightarrow> backend_env \<Rightarrow> config \<Rightarrow> new_error + process" where
  "backend_New sha256 env cfg =
     (case CheckOwnerFile (be_fs env) (be_open env) (cf_backend_path cfg) True of
        Inl e \<Rightarrow> Inl (BackendFile e)
      | Inr _ \<Rightarrow>
          if \<not> checkVersion (be_version_output env) (be_version_ok env) (be_version_expired env)
                (cf_backend_version cfg)
          then Inl BackendVersion
          else (case CheckOwnerFile (be_fs env) (be_open env) (cf_database_path cfg) False of
              Inl e \<Rightarrow> Inl (DatabaseFile e)
            | Inr _ \<Rightarrow>
                (case databaseIdentity (be_view env) (cf_database_path cfg) of
                   None \<Rightarrow> Inl DatabaseIdentity
                 | Some identity \<Rightarrow>
                     Inr \<lparr>pr_path = cf_backend_path cfg, pr_database = cf_database_path cfg,
                       pr_generation = generation_of sha256 (cf_account_id cfg) (cf_backend_account_id cfg)
                         (cf_database_generation cfg) identity,
                       pr_identity = identity,
                       pr_bounded_collection = (cf_backend_version cfg = CollectionBackendVersion),
                       pr_account_id = cf_backend_account_id cfg\<rparr>)))"

text \<open>\<open>New\<close> without injected dependencies: the backend, the AEAD of the cursor key, and the contacts
  manager if a source is configured.\<close>

record built =
  bu_process :: process
  bu_cipher :: aead
  bu_contacts :: "manager option"

record boot_env =
  bo_backend :: backend_env
  bo_sys :: osys
  bo_random :: bytes
  bo_written :: nat
  bo_goos :: string

definition NewWithDeps ::
  "(bytes \<Rightarrow> bytes) \<Rightarrow> (bytes \<Rightarrow> aead) \<Rightarrow> boot_env \<Rightarrow> config \<Rightarrow> disk \<Rightarrow> (new_error + built) \<times> disk" where
  "NewWithDeps sha256 gcm env cfg d =
     (let f = be_fs (bo_backend env) in
      case Validate (unat (fs_euid f)) cfg of
        Inl e \<Rightarrow> (Inl (ConfigInvalid e), d)
      | Inr _ \<Rightarrow>
          (case backend_New sha256 (bo_backend env) cfg of
             Inl e \<Rightarrow> (Inl e, d)
           | Inr process \<Rightarrow>
               (case loadCursorCipher gcm f (bo_sys env) (bo_random env) (bo_written env)
                       (cf_policy_path cfg @ ''.cursor-key'') d of
                  (Inl e, d) \<Rightarrow> (Inl (CursorKey e), d)
                | (Inr cipher, d) \<Rightarrow>
                    (case cf_contacts cfg of
                       None \<Rightarrow> (Inr \<lparr>bu_process = process, bu_cipher = cipher, bu_contacts = None\<rparr>, d)
                     | Some source \<Rightarrow>
                         (case CheckHelper (bo_goos env) f (be_open (bo_backend env)) (cs_helper_path source) of
                            Inl e \<Rightarrow> (Inl (ContactsHelper e), d)
                          | Inr _ \<Rightarrow> (Inr \<lparr>bu_process = process, bu_cipher = cipher,
                              bu_contacts = Some NewManager\<rparr>, d))))))"

text \<open>\<open>peerUID\<close>: the raw connection, the control call, and the credentials the kernel reports.\<close>

definition peerUID :: "bool \<Rightarrow> bool \<Rightarrow> nat option \<Rightarrow> nat option" where
  "peerUID raw_ok control_ok credentials =
     (if \<not> raw_ok then None else if \<not> control_ok then None else credentials)"

text \<open>A new process starts with the identity that its later checks compare.\<close>

lemma backend_New_identity:
  assumes "backend_New sha256 env cfg = Inr p"
    and "\<And>path exe. fs_owner_ok (be_view env) path exe \<longleftrightarrow> CheckOwnerFile (be_fs env) (be_open env) path exe = Inr ()"
  shows "checkIdentity p (be_view env) = Inr ()"
  using assms
  by (auto simp: backend_New_def checkIdentity_def split: sum.split_asm if_split_asm option.split_asm)

section \<open>Taking the socket path\<close>

datatype run_error =
    CreateDirectory
  | SocketDirUnsafe secure_error
  | InspectDirectory
  | NotADirectory
  | DirectoryWritable
  | DirectoryNotOwned
  | LockFailed lock_error
  | InspectExisting
  | NotASocket
  | AlreadyActive
  | CouldBeActive
  | PathChanged
  | RemoveStale
  | ListenFailed
  | InspectCreated
  | SocketMode
  | AcceptFailed

definition checkSocketDir :: "fs \<Rightarrow> string \<Rightarrow> run_error + unit" where
  "checkSocketDir f path =
     (case CheckParents f path of
        Inl e \<Rightarrow> Inl (SocketDirUnsafe e)
      | Inr _ \<Rightarrow>
          (case fs_lstat f path of
             None \<Rightarrow> Inl InspectDirectory
           | Some st \<Rightarrow>
               if is_symlink (fi_mode st) \<or> \<not> is_dir (fi_mode st) then Inl NotADirectory
               else if shared_writable (fi_mode st) then Inl DirectoryWritable
               else if fi_uid st \<noteq> Some (fs_euid f) then Inl DirectoryNotOwned
               else Inr ()))"

datatype dial = DialConnected | DialRefused | DialNotExist | DialFailed

definition prepareSocketPath :: "osys \<Rightarrow> dial \<Rightarrow> string \<Rightarrow> disk \<Rightarrow> (run_error + unit) \<times> disk" where
  "prepareSocketPath sys dial path d =
     (let d = os_others sys InspectSocket d in
      if os_faults sys InspectSocket then (Inl InspectExisting, d)
      else (case dk_names d path of
          None \<Rightarrow> (Inr (), d)
        | Some ino \<Rightarrow>
            if nd_kind (dk_nodes d ino) \<noteq> SocketFile then (Inl NotASocket, d)
            else
              let d = os_others sys DialSocket d in
              if dial = DialConnected then (Inl AlreadyActive, d)
              else if dial = DialFailed then (Inl CouldBeActive, d)
              else
                let d = os_others sys InspectAgain d in
                if os_faults sys InspectAgain \<or> dk_names d path \<noteq> Some ino then (Inl PathChanged, d)
                else
                  let d = os_others sys RemoveSocket d in
                  if os_faults sys RemoveSocket then (Inl RemoveStale, d)
                  else (Inr (), d\<lparr>dk_names := (dk_names d)(path := None)\<rparr>)))"

text \<open>Removing the socket at the end, if the path still names the one that was created.\<close>

definition remove_created :: "string \<Rightarrow> nat \<Rightarrow> disk \<Rightarrow> disk" where
  "remove_created path created d =
     (if dk_names d path = Some created then d\<lparr>dk_names := (dk_names d)(path := None)\<rparr> else d)"

text \<open>Listening: the bind creates the socket, its identity is taken, its mode set.  The lock is
  held already; a failure releases it.\<close>

definition listen :: "osys \<Rightarrow> string \<Rightarrow> 32 word \<Rightarrow> disk \<Rightarrow> (run_error + nat) \<times> disk" where
  "listen sys path mode d =
     (let d = os_others sys Listen d in
      if os_faults sys Listen \<or> dk_names d path \<noteq> None then (Inl ListenFailed, d)
      else
        let d = os_others sys InspectListener
              (new_file SocketFile (0x1FF AND NOT (os_umask sys)) (os_euid sys) path d) in
        (case dk_names d path of
           None \<Rightarrow> (Inl InspectCreated, d)
         | Some created \<Rightarrow>
             if os_faults sys InspectListener then (Inl InspectCreated, d)
             else
               let d = os_others sys ChmodSocket d in
               (case dk_names d path of
                  None \<Rightarrow> (Inl SocketMode, d)
                | Some ino \<Rightarrow>
                    if os_faults sys ChmodSocket then (Inl SocketMode, remove_created path created d)
                    else (Inr created, set_node ino ((dk_nodes d ino)\<lparr>nd_perm := mode\<rparr>) d))))"

text \<open>The first half of \<open>Run\<close>: the directory is made, whatever of it was missing, and stays when a later step
  fails; \<open>f\<close> is how the file system looks when it is checked then.\<close>

definition take_place :: "fs \<Rightarrow> osys \<Rightarrow> dial \<Rightarrow> config \<Rightarrow> disk \<Rightarrow> (run_error + nat \<times> nat) \<times> disk" where
  "take_place f sys dial cfg d =
     (let socket = cf_socket_path cfg in
      (case mkdir_all sys (Dir socket) d of
         (False, d) \<Rightarrow> (Inl CreateDirectory, d)
       | (True, d) \<Rightarrow>
           (case checkSocketDir f (Dir socket) of
              Inl e \<Rightarrow> (Inl e, d)
            | Inr _ \<Rightarrow>
                (case acquireLock sys (lock_path socket) d of
                   (Inl e, d) \<Rightarrow> (Inl (LockFailed e), d)
                 | (Inr lock, d) \<Rightarrow>
                     (case prepareSocketPath sys dial socket d of
                        (Inl e, d) \<Rightarrow> (Inl e, release lock d)
                      | (Inr _, d) \<Rightarrow>
                          (case listen sys socket (case SocketFileMode cfg of None \<Rightarrow> 0 | Some mode \<Rightarrow> mode) d of
                             (Inl e, d) \<Rightarrow> (Inl e, release lock d)
                           | (Inr created, d) \<Rightarrow> (Inr (lock, created), d)))))))"

text \<open>A socket directory that is accepted is the broker's own and nobody else can write to it.\<close>

lemma checkSocketDir_iff:
  "checkSocketDir f path = Inr () \<longleftrightarrow> CheckParents f path = Inr () \<and>
     (\<exists>st. fs_lstat f path = Some st \<and> is_dir (fi_mode st) \<and> \<not> is_symlink (fi_mode st)
        \<and> \<not> shared_writable (fi_mode st) \<and> fi_uid st = Some (fs_euid f))"
  by (auto simp: checkSocketDir_def split: sum.split option.split)

lemma prepareSocketPath_calm:
  assumes "calm sys" "prepareSocketPath sys dial path d = (r, d')"
  shows "(\<forall>e. r = Inl e \<longrightarrow> d' = d)
     \<and> (r = Inr () \<longrightarrow> d' = d\<lparr>dk_names := (dk_names d)(path := None)\<rparr>
          \<and> (\<forall>ino. dk_names d path = Some ino \<longrightarrow>
               nd_kind (dk_nodes d ino) = SocketFile \<and> (dial = DialRefused \<or> dial = DialNotExist)))"
proof (cases "dk_names d path")
  case None
  then have "d\<lparr>dk_names := (dk_names d)(path := None)\<rparr> = d"
    by (metis (no_types, lifting) disk.surjective disk.update_convs(1) fun_upd_triv)
  with assms None show ?thesis
    by (auto simp: prepareSocketPath_def calm_def Let_def split: if_split_asm)
next
  case (Some ino)
  with assms show ?thesis
    by (cases dial) (auto simp: prepareSocketPath_def calm_def Let_def split: if_split_asm)
qed

section \<open>The accept loop\<close>

text \<open>Connections are numbered as they arrive.  \<open>sg_result\<close> is the value the loop leaves with; the deferred
  calls then run in this order: the handlers are waited for and the socket is removed, the lock is released,
  and the goroutine that refreshes the contacts (\<open>sg_refreshing\<close>) is joined before \<open>Run\<close> returns
  (a \<open>Run\<close> that fails before it serves cancels and joins it too).\<close>

text \<open>What ends a handler (its work, its deadline, the closing of its connection) is left open; the removal
  of the socket may fail, which \<open>Run\<close> ignores.\<close>

datatype stage = Accepting | SocketGone | LockGone | Returned

record serving =
  sg_ended :: bool
  sg_listening :: bool
  sg_next :: nat
  sg_active :: "nat list"
  sg_handled :: "nat list"
  sg_refused :: "nat list"
  sg_result :: "(run_error + unit) option"
  sg_refreshing :: bool
  sg_stage :: stage
  sg_disk :: disk

definition serving_start :: "bool \<Rightarrow> disk \<Rightarrow> serving" where
  "serving_start contacts d = \<lparr>sg_ended = False, sg_listening = True, sg_next = 0, sg_active = [], sg_handled = [],
     sg_refused = [], sg_result = None, sg_refreshing = contacts, sg_stage = Accepting, sg_disk = d\<rparr>"

definition slots :: nat where "slots = 32"

inductive serve_step :: "string \<Rightarrow> nat \<Rightarrow> nat \<Rightarrow> serving \<Rightarrow> serving \<Rightarrow> bool" for path lock created where
  accept: "sg_result s = None \<Longrightarrow> sg_listening s \<Longrightarrow> length (sg_active s) < slots \<Longrightarrow>
     serve_step path lock created s (s\<lparr>sg_active := sg_active s @ [sg_next s], sg_next := Suc (sg_next s)\<rparr>)"
| refuse: "sg_result s = None \<Longrightarrow> sg_listening s \<Longrightarrow> \<not> length (sg_active s) < slots \<Longrightarrow>
     serve_step path lock created s (s\<lparr>sg_refused := sg_refused s @ [sg_next s], sg_next := Suc (sg_next s)\<rparr>)"
| handled: "c \<in> set (sg_active s) \<Longrightarrow>
     serve_step path lock created s (s\<lparr>sg_active := remove1 c (sg_active s), sg_handled := sg_handled s @ [c]\<rparr>)"
| cancel: "\<not> sg_ended s \<Longrightarrow> serve_step path lock created s (s\<lparr>sg_ended := True\<rparr>)"
| close: "sg_ended s \<Longrightarrow> sg_listening s \<Longrightarrow> serve_step path lock created s (s\<lparr>sg_listening := False\<rparr>)"
| accept_error: "sg_result s = None \<Longrightarrow> serve_step path lock created s
     (s\<lparr>sg_result := Some (if sg_ended s then Inr () else Inl AcceptFailed), sg_ended := True, sg_listening := False\<rparr>)"
| unlink: "sg_result s \<noteq> None \<Longrightarrow> sg_active s = [] \<Longrightarrow> sg_stage s = Accepting \<Longrightarrow> serve_step path lock created s
     (s\<lparr>sg_stage := SocketGone, sg_disk := remove_created path created (sg_disk s)\<rparr>)"
| unlink_fails: "sg_result s \<noteq> None \<Longrightarrow> sg_active s = [] \<Longrightarrow> sg_stage s = Accepting \<Longrightarrow> serve_step path lock created s
     (s\<lparr>sg_stage := SocketGone\<rparr>)"
| unlock: "sg_stage s = SocketGone \<Longrightarrow> serve_step path lock created s
     (s\<lparr>sg_stage := LockGone, sg_disk := release lock (sg_disk s)\<rparr>)"
| refresher_stops: "sg_refreshing s \<Longrightarrow> sg_ended s \<Longrightarrow> serve_step path lock created s (s\<lparr>sg_refreshing := False\<rparr>)"
| return: "sg_stage s = LockGone \<Longrightarrow> \<not> sg_refreshing s \<Longrightarrow> serve_step path lock created s (s\<lparr>sg_stage := Returned\<rparr>)"
| others: "sg_stage s \<noteq> Returned \<Longrightarrow> serve_step path lock created s (s\<lparr>sg_disk := f (sg_disk s)\<rparr>)"

inductive serves :: "string \<Rightarrow> nat \<Rightarrow> nat \<Rightarrow> disk \<Rightarrow> serving \<Rightarrow> bool" for path lock created d where
  init: "serves path lock created d (serving_start contacts d)"
| step: "serves path lock created d s \<Longrightarrow> serve_step path lock created s t \<Longrightarrow> serves path lock created d t"

text \<open>Every connection is being handled, has been handled, or was refused, and only one of these; at most
  32 are being handled; \<open>Run\<close> returns only when none is and the contacts are no longer refreshed.\<close>

definition serving_ok :: "serving \<Rightarrow> bool" where
  "serving_ok s \<longleftrightarrow> length (sg_active s) \<le> 32
     \<and> distinct (sg_active s @ sg_handled s @ sg_refused s)
     \<and> set (sg_active s @ sg_handled s @ sg_refused s) = {..<sg_next s}
     \<and> (sg_result s \<noteq> None \<longrightarrow> \<not> sg_listening s) \<and> (\<not> sg_listening s \<longrightarrow> sg_ended s)
     \<and> (sg_stage s \<noteq> Accepting \<longrightarrow> sg_result s \<noteq> None \<and> sg_active s = [])
     \<and> (sg_stage s = Returned \<longrightarrow> \<not> sg_refreshing s)"

lemma serve_step_ok:
  assumes "serve_step path lock created s t" "serving_ok s"
  shows "serving_ok t"
proof -
  from assms(2) have l: "length (sg_active s) \<le> 32"
    and d: "distinct (sg_active s @ sg_handled s @ sg_refused s)"
    and n: "set (sg_active s @ sg_handled s @ sg_refused s) = {..<sg_next s}"
    and r: "sg_result s \<noteq> None \<longrightarrow> \<not> sg_listening s" "\<not> sg_listening s \<longrightarrow> sg_ended s"
    and f: "sg_stage s \<noteq> Accepting \<longrightarrow> sg_result s \<noteq> None \<and> sg_active s = []"
      "sg_stage s = Returned \<longrightarrow> \<not> sg_refreshing s"
    unfolding serving_ok_def by blast+
  have new: "sg_next s \<notin> set (sg_active s @ sg_handled s @ sg_refused s)" using n by simp
  have s: "{..<Suc (sg_next s)} = insert (sg_next s) {..<sg_next s}" by (rule lessThan_Suc)
  from assms(1) show ?thesis
  proof cases
    case accept
    with l d r f new s show ?thesis by (simp add: serving_ok_def slots_def n [symmetric])
  next
    case refuse
    with l d r f new s show ?thesis by (simp add: serving_ok_def slots_def n [symmetric])
  next
    case (handled c)
    let ?A = "sg_active s" and ?H = "sg_handled s" and ?R = "sg_refused s"
    have dA: "distinct ?A" and c: "c \<notin> set ?H" "c \<notin> set ?R" using d handled(2) by auto
    have A: "set (remove1 c ?A) = set ?A - {c}" by (rule set_remove1_eq [OF dA])
    have "length (remove1 c ?A) \<le> 32" using l by (auto simp: length_remove1)
    moreover have "distinct (remove1 c ?A @ (?H @ [c]) @ ?R)"
      using d dA c by (auto simp: A)
    moreover have "set (remove1 c ?A @ (?H @ [c]) @ ?R) = set (?A @ ?H @ ?R)"
      using A handled(2) by auto
    moreover have "sg_stage s \<noteq> Accepting \<longrightarrow> remove1 c ?A = []" using f by auto
    ultimately show ?thesis using handled(1) r f n by (simp add: serving_ok_def)
  next
    case cancel
    with l d n r f show ?thesis by (simp add: serving_ok_def)
  next
    case close
    with l d n r f show ?thesis by (simp add: serving_ok_def)
  next
    case accept_error
    with l d n f show ?thesis by (simp add: serving_ok_def)
  next
    case unlink
    with l d n r show ?thesis by (simp add: serving_ok_def)
  next
    case unlink_fails
    with l d n r show ?thesis by (simp add: serving_ok_def)
  next
    case unlock
    with l d n r f show ?thesis by (simp add: serving_ok_def)
  next
    case refresher_stops
    with l d n r f show ?thesis by (simp add: serving_ok_def)
  next
    case return
    with l d n r f show ?thesis by (simp add: serving_ok_def)
  next
    case (others g)
    with l d n r f show ?thesis by (simp add: serving_ok_def)
  qed
qed

lemma serves_ok: "serves path lock created d s \<Longrightarrow> serving_ok s"
proof (induction rule: serves.induct)
  case init
  then show ?case by (auto simp: serving_ok_def serving_start_def)
qed (rule serve_step_ok)

section \<open>Properties\<close>

text \<open>C29: The accept loop never handles more than 32 connections at a time and loses none: in every reachable
  state each connection that arrived is exactly one of being handled, handled, or refused; a refusal
  happens only while all 32 slots are taken; neither the socket is removed nor the lock released while a
  handler still runs, and \<open>Run\<close> does not return before the contacts are no longer refreshed.\<close>

theorem accept_loop_invariant:
  assumes "serves path lock created d s"
  shows "length (sg_active s) \<le> 32 \<and> distinct (sg_active s @ sg_handled s @ sg_refused s)
     \<and> set (sg_active s @ sg_handled s @ sg_refused s) = {..<sg_next s}
     \<and> (sg_stage s \<noteq> Accepting \<longrightarrow> sg_result s \<noteq> None \<and> sg_active s = [])
     \<and> (sg_stage s = Returned \<longrightarrow> \<not> sg_refreshing s)
     \<and> (\<forall>t. serve_step path lock created s t \<longrightarrow> sg_refused t \<noteq> sg_refused s \<longrightarrow> length (sg_active s) = 32)"
proof -
  have ok: "serving_ok s" by (rule serves_ok [OF assms])
  then have l: "length (sg_active s) \<le> 32" by (simp add: serving_ok_def)
  have "length (sg_active s) = 32" if "serve_step path lock created s t" "sg_refused t \<noteq> sg_refused s" for t
    using that l by cases (auto simp: slots_def)
  with ok show ?thesis unfolding serving_ok_def by blast
qed

text \<open>What is left to do once the listener is closed.\<close>

fun stage_work :: "stage \<Rightarrow> nat" where
  "stage_work Accepting = 3"
| "stage_work SocketGone = 2"
| "stage_work LockGone = 1"
| "stage_work Returned = 0"

definition shutdown_work :: "serving \<Rightarrow> nat" where
  "shutdown_work s = length (sg_active s) + (if sg_result s = None then 1 else 0) + stage_work (sg_stage s)
     + (if sg_refreshing s then 1 else 0)"

definition after_shutdown :: "string \<Rightarrow> nat \<Rightarrow> nat \<Rightarrow> serving \<Rightarrow> serving \<Rightarrow> bool" where
  "after_shutdown path lock created s t \<longleftrightarrow> sg_stage t = Returned \<and> \<not> sg_refreshing t
     \<and> sg_result t = (if sg_result s = None then Some (Inr ()) else sg_result s)
     \<and> dk_locks (sg_disk t) lock = None \<and> dk_names (sg_disk t) path \<noteq> Some created
     \<and> sg_next t = sg_next s"

lemma shutdown_shrinks:
  assumes "serve_step path lock created s t" "\<not> sg_listening s"
  shows "\<not> sg_listening t \<and> shutdown_work t \<le> shutdown_work s"
  using assms by cases (simp_all add: shutdown_work_def length_remove1)

lemma shutdown_next:
  assumes "serving_ok s" "\<not> sg_listening s" "sg_stage s = Accepting" "sg_result s = None \<or> sg_active s \<noteq> []"
  obtains t where "serve_step path lock created s t" "\<not> sg_listening t" "sg_stage t = Accepting"
      "shutdown_work t < shutdown_work s" "\<And>u. after_shutdown path lock created t u \<Longrightarrow> after_shutdown path lock created s u"
proof (cases "sg_result s = None")
  case True
  have e: "sg_ended s" using assms by (simp add: serving_ok_def)
  let ?t = "s\<lparr>sg_result := Some (if sg_ended s then Inr () else Inl AcceptFailed), sg_ended := True, sg_listening := False\<rparr>"
  show ?thesis
  proof (rule that [of ?t])
    show "serve_step path lock created s ?t" using True by (rule serve_step.accept_error)
  qed (use True e assms in \<open>simp_all add: shutdown_work_def after_shutdown_def\<close>)
next
  case False
  then obtain c cs where c: "sg_active s = c # cs" using assms(4) by (cases "sg_active s") auto
  let ?t = "s\<lparr>sg_active := remove1 c (sg_active s), sg_handled := sg_handled s @ [c]\<rparr>"
  show ?thesis
  proof (rule that [of ?t])
    show "serve_step path lock created s ?t" by (rule serve_step.handled) (simp add: c)
  qed (use assms in \<open>simp_all add: shutdown_work_def after_shutdown_def c\<close>)
qed

text \<open>The deferred calls, one after the other.\<close>

lemma shutdown_deferred:
  assumes "serving_ok s" "\<not> sg_listening s" "sg_stage s = Accepting" "sg_result s \<noteq> None" "sg_active s = []"
  shows "\<exists>t. (serve_step path lock created)\<^sup>*\<^sup>* s t \<and> after_shutdown path lock created s t"
proof -
  let ?R = "serve_step path lock created"
  let ?s1 = "s\<lparr>sg_stage := SocketGone, sg_disk := remove_created path created (sg_disk s)\<rparr>"
  let ?s2 = "?s1\<lparr>sg_stage := LockGone, sg_disk := release lock (sg_disk ?s1)\<rparr>"
  let ?s3 = "?s2\<lparr>sg_refreshing := False\<rparr>"
  let ?s4 = "?s3\<lparr>sg_stage := Returned\<rparr>"
  have e: "sg_ended s" using assms by (simp add: serving_ok_def)
  have "?R s ?s1" using assms(4,5,3) by (rule serve_step.unlink)
  moreover have "?R ?s1 ?s2" by (rule serve_step.unlock) simp
  moreover have "?R\<^sup>*\<^sup>* ?s2 ?s3"
  proof (cases "sg_refreshing s")
    case True
    then have "?R ?s2 ?s3" by (intro serve_step.refresher_stops) (simp_all add: e)
    then show ?thesis by blast
  next
    case False
    have "?s3 = ?s2" by (rule serving.equality) (simp_all add: False)
    then show ?thesis by simp
  qed
  moreover have "?R ?s3 ?s4" by (rule serve_step.return) simp_all
  ultimately have "?R\<^sup>*\<^sup>* s ?s4" by (meson converse_rtranclp_into_rtranclp rtranclp.rtrancl_into_rtrancl)
  moreover have "after_shutdown path lock created s ?s4"
    using assms(4) by (simp add: after_shutdown_def release_def remove_created_def)
  ultimately show ?thesis by blast
qed

lemma shutdown_run:
  assumes "serving_ok s" "\<not> sg_listening s" "sg_stage s = Accepting"
  shows "\<exists>t. (serve_step path lock created)\<^sup>*\<^sup>* s t \<and> after_shutdown path lock created s t"
  using assms
proof (induction "shutdown_work s" arbitrary: s rule: less_induct)
  case less
  show ?case
  proof (cases "sg_result s = None \<or> sg_active s \<noteq> []")
    case True
    from shutdown_next [OF less.prems True] obtain t where t: "serve_step path lock created s t" "\<not> sg_listening t"
      "sg_stage t = Accepting" "shutdown_work t < shutdown_work s"
      "\<And>u. after_shutdown path lock created t u \<Longrightarrow> after_shutdown path lock created s u" by blast
    have "serving_ok t" by (rule serve_step_ok [OF t(1) less.prems(1)])
    from less.hyps [OF t(4) this t(2,3)] obtain u where
      "(serve_step path lock created)\<^sup>*\<^sup>* t u" "after_shutdown path lock created t u" by blast
    with t(1,5) show ?thesis by (meson converse_rtranclp_into_rtranclp)
  next
    case False
    with shutdown_deferred [OF less.prems] show ?thesis by blast
  qed
qed

lemma shutdown_enabled:
  assumes "serving_ok s" "\<not> sg_listening s" "sg_stage s \<noteq> Returned"
  shows "\<exists>t. serve_step path lock created s t \<and> shutdown_work t < shutdown_work s"
proof (cases "sg_stage s")
  case Accepting
  show ?thesis
  proof (cases "sg_result s = None \<or> sg_active s \<noteq> []")
    case True
    from shutdown_next [OF assms(1,2) Accepting True] show ?thesis by blast
  next
    case False
    then have "serve_step path lock created s (s\<lparr>sg_stage := SocketGone, sg_disk := remove_created path created (sg_disk s)\<rparr>)"
      using Accepting by (intro serve_step.unlink) simp_all
    then show ?thesis by (intro exI conjI) (assumption, simp add: shutdown_work_def Accepting)
  qed
next
  case SocketGone
  show ?thesis
    by (intro exI conjI, rule serve_step.unlock [OF SocketGone]) (simp add: shutdown_work_def SocketGone)
next
  case LockGone
  show ?thesis
  proof (cases "sg_refreshing s")
    case True
    have e: "sg_ended s" using assms by (simp add: serving_ok_def)
    show ?thesis
      by (intro exI conjI, rule serve_step.refresher_stops [OF True e]) (simp add: shutdown_work_def True)
  next
    case False
    show ?thesis
      by (intro exI conjI, rule serve_step.return [OF LockGone False]) (simp add: shutdown_work_def LockGone)
  qed
qed (use assms in simp)


text \<open>A broker that accepts one connection and is then told to stop.\<close>

definition example_serving :: serving where
  "example_serving = (serving_start True empty_disk)\<lparr>sg_active := [0], sg_next := 1, sg_ended := True, sg_listening := False\<rparr>"

lemma example_serves: "serves ''/run/s'' 1 2 empty_disk example_serving"
proof -
  let ?p = "''/run/s''"
  let ?a = "(serving_start True empty_disk)\<lparr>sg_active := [0], sg_next := 1\<rparr>"
  have a: "serve_step ?p 1 2 (serving_start True empty_disk) ?a"
    using serve_step.accept [of "serving_start True empty_disk" ?p 1 2] by (simp add: serving_start_def slots_def)
  have b: "serve_step ?p 1 2 ?a (?a\<lparr>sg_ended := True\<rparr>)"
    by (rule serve_step.cancel) (simp add: serving_start_def)
  have c: "serve_step ?p 1 2 (?a\<lparr>sg_ended := True\<rparr>) ((?a\<lparr>sg_ended := True\<rparr>)\<lparr>sg_listening := False\<rparr>)"
    by (rule serve_step.close) (simp_all add: serving_start_def)
  have e: "(?a\<lparr>sg_ended := True\<rparr>)\<lparr>sg_listening := False\<rparr> = example_serving"
    by (simp add: example_serving_def)
  show ?thesis
    by (rule serves.step [OF serves.step [OF serves.step [OF serves.init a] b] c, unfolded e])
qed

lemma accept_loop_invariant_witness:
  "set (sg_active example_serving @ sg_handled example_serving @ sg_refused example_serving) = {..<1}"
  using accept_loop_invariant [OF example_serves] by (simp add: example_serving_def)


lemma listen_calm:
  assumes "calm sys" "listen sys path mode d = (r, d')" "dk_names d path = None"
  shows "dk_locks d' = dk_locks d \<and> (\<forall>q. q \<noteq> path \<longrightarrow> dk_names d' q = dk_names d q)
     \<and> (\<forall>created. r = Inr created \<longrightarrow> dk_names d' path = Some created \<and> dk_nodes d' created =
          \<lparr>nd_kind = SocketFile, nd_perm = mode, nd_uid = os_euid sys, nd_links = 1, nd_data = []\<rparr>)"
  using assms
  by (auto simp: listen_def calm_def Let_def remove_created_def set_node_def new_file_def split: if_split_asm option.split_asm)

lemma lock_path_other: "lock_path socket \<noteq> socket"
  by (simp add: lock_path_def)

lemma acquireLock_fails:
  assumes "calm sys" "acquireLock sys path d = (Inl e, d')"
  shows "dk_locks d' = dk_locks d \<and> (\<forall>q. q \<noteq> path \<longrightarrow> dk_names d' q = dk_names d q)"
  using assms
  by (auto simp: acquireLock_def open_lock_def lock_opened_def lock_mode_def calm_def Let_def new_file_def set_node_def
      split: if_split_asm option.split_asm sum.split_asm prod.split_asm)

lemma acquireLock_socket:
  assumes "calm sys" "acquireLock sys (lock_path socket) d = (Inr lock, d1)"
  shows "dk_locks d lock = None \<and> dk_locks d1 = (dk_locks d)(lock \<mapsto> os_pid sys)
     \<and> dk_names d1 = (dk_names d)(lock_path socket \<mapsto> lock)
     \<and> (\<forall>ino. nd_kind (dk_nodes d1 ino) = SocketFile \<longrightarrow> nd_kind (dk_nodes d ino) = SocketFile)"
  using acquireLock_calm [OF assms] by (auto simp: locked_by_def new_file_def split: if_split_asm)

lemma take_place_cases:
  assumes "take_place f sys dial cfg d = (r, d')"
  obtains (early) e ok where "r = Inl e" "mkdir_all sys (Dir (cf_socket_path cfg)) d = (ok, d')"
  | (lock) d0 e where "mkdir_all sys (Dir (cf_socket_path cfg)) d = (True, d0)" "r = Inl (LockFailed e)"
      "acquireLock sys (lock_path (cf_socket_path cfg)) d0 = (Inl e, d')"
  | (prepare) d0 lock d1 e d2 where "mkdir_all sys (Dir (cf_socket_path cfg)) d = (True, d0)"
      "acquireLock sys (lock_path (cf_socket_path cfg)) d0 = (Inr lock, d1)"
      "prepareSocketPath sys dial (cf_socket_path cfg) d1 = (Inl e, d2)" "r = Inl e" "d' = release lock d2"
  | (listen) d0 lock d1 d2 mode e d3 where "mkdir_all sys (Dir (cf_socket_path cfg)) d = (True, d0)"
      "acquireLock sys (lock_path (cf_socket_path cfg)) d0 = (Inr lock, d1)"
      "prepareSocketPath sys dial (cf_socket_path cfg) d1 = (Inr (), d2)"
      "listen sys (cf_socket_path cfg) mode d2 = (Inl e, d3)" "r = Inl e" "d' = release lock d3"
  | (placed) d0 lock d1 d2 mode created where "mkdir_all sys (Dir (cf_socket_path cfg)) d = (True, d0)"
      "checkSocketDir f (Dir (cf_socket_path cfg)) = Inr ()"
      "acquireLock sys (lock_path (cf_socket_path cfg)) d0 = (Inr lock, d1)"
      "prepareSocketPath sys dial (cf_socket_path cfg) d1 = (Inr (), d2)"
      "listen sys (cf_socket_path cfg) mode d2 = (Inr created, d')"
      "mode = (case SocketFileMode cfg of None \<Rightarrow> 0 | Some m \<Rightarrow> m)" "r = Inr (lock, created)"
  using assms unfolding take_place_def Let_def
  by (auto split: if_split_asm sum.split_asm prod.split_asm bool.split_asm)

text \<open>Once the directories are made, only the socket and its lock file change.\<close>

definition place_changes :: "string \<Rightarrow> disk \<Rightarrow> disk \<Rightarrow> bool" where
  "place_changes socket d d' \<longleftrightarrow> grows d d'
     \<and> (\<forall>q. q \<notin> {socket, lock_path socket} \<longrightarrow> dk_names d' q = dk_names d q)"

lemma place_changes_trans: "place_changes socket a b \<Longrightarrow> place_changes socket b c \<Longrightarrow> place_changes socket a c"
  unfolding place_changes_def using grows_trans by metis

lemma place_changes_release [simp]: "place_changes socket d (release lock d') \<longleftrightarrow> place_changes socket d d'"
  by (simp add: place_changes_def grows_def release_def)

lemma place_changes_refl [simp]: "place_changes socket d d"
  by (simp add: place_changes_def)

lemma acquireLock_place:
  assumes "calm sys" "acquireLock sys (lock_path socket) d = (r, d')"
  shows "place_changes socket d d'"
proof (cases r)
  case (Inl e)
  with assms show ?thesis
    by (auto simp: place_changes_def grows_def acquireLock_def open_lock_def lock_opened_def lock_mode_def calm_def Let_def
        new_file_def set_node_def split: if_split_asm option.split_asm sum.split_asm prod.split_asm)
next
  case (Inr lock)
  from acquireLock_calm [OF assms(1) assms(2) [unfolded Inr]] show ?thesis
    by (auto simp: place_changes_def grows_def locked_by_def new_file_def)
qed

lemma prepareSocketPath_place:
  assumes "calm sys" "prepareSocketPath sys dial socket d = (r, d')"
  shows "place_changes socket d d'"
  using prepareSocketPath_calm [OF assms] by (cases r) (auto simp: place_changes_def grows_def)

lemma listen_place:
  assumes "calm sys" "listen sys socket mode d = (r, d')" "dk_names d socket = None"
  shows "place_changes socket d d'"
  using assms
  by (auto simp: place_changes_def grows_def listen_def calm_def Let_def remove_created_def set_node_def new_file_def
      split: if_split_asm option.split_asm)

lemma take_place_changes:
  assumes "calm sys" "take_place f sys dial cfg d = (r, d')"
  shows "\<exists>ok d0. mkdir_all sys (Dir (cf_socket_path cfg)) d = (ok, d0) \<and> made_dirs sys (Dir (cf_socket_path cfg)) d d0
     \<and> place_changes (cf_socket_path cfg) d0 d'"
  using assms(2)
proof (cases rule: take_place_cases)
  case (early e ok)
  with mkdir_all_made [OF assms(1) early(2)] show ?thesis by auto
next
  case (lock d0 e)
  with mkdir_all_made [OF assms(1) lock(1)] acquireLock_place [OF assms(1) lock(3)] show ?thesis by auto
next
  case (prepare d0 lock d1 e d2)
  with mkdir_all_made [OF assms(1) prepare(1)] acquireLock_place [OF assms(1) prepare(2)]
    prepareSocketPath_place [OF assms(1) prepare(3)]
  show ?thesis by (auto intro: place_changes_trans)
next
  case (listen d0 lock d1 d2 mode e d3)
  have "dk_names d2 (cf_socket_path cfg) = None" using prepareSocketPath_calm [OF assms(1) listen(3)] by simp
  note l = listen_place [OF assms(1) listen(4) this]
  note p = place_changes_trans [OF prepareSocketPath_place [OF assms(1) listen(3)] l]
  from mkdir_all_made [OF assms(1) listen(1)] place_changes_trans [OF acquireLock_place [OF assms(1) listen(2)] p]
  show ?thesis using listen(1,6) by auto
next
  case (placed d0 lock d1 d2 mode created)
  have "dk_names d2 (cf_socket_path cfg) = None" using prepareSocketPath_calm [OF assms(1) placed(4)] by simp
  note l = listen_place [OF assms(1) placed(5) this]
  note p = place_changes_trans [OF prepareSocketPath_place [OF assms(1) placed(4)] l]
  from mkdir_all_made [OF assms(1) placed(1)] place_changes_trans [OF acquireLock_place [OF assms(1) placed(3)] p]
  show ?thesis using placed(1) by auto
qed

text \<open>A name that was missing and is now a directory of the broker's own, on the way to the socket.\<close>

definition new_dir_for :: "osys \<Rightarrow> string \<Rightarrow> string \<Rightarrow> disk \<Rightarrow> disk \<Rightarrow> bool" where
  "new_dir_for sys socket q d d' \<longleftrightarrow> dk_names d q = None \<and> on_the_way (Dir socket) q
     \<and> (\<exists>ino. dk_names d' q = Some ino \<and> own_dir sys (dk_nodes d' ino))"

lemma take_place_names:
  assumes "calm sys" "take_place f sys dial cfg d = (r, d')" "q \<notin> {cf_socket_path cfg, lock_path (cf_socket_path cfg)}"
  shows "dk_names d' q = dk_names d q \<or> new_dir_for sys (cf_socket_path cfg) q d d'"
proof -
  from take_place_changes [OF assms(1,2)] obtain d0 where m: "made_dirs sys (Dir (cf_socket_path cfg)) d d0"
    and p: "place_changes (cf_socket_path cfg) d0 d'" by blast
  from p assms(3) have same: "dk_names d' q = dk_names d0 q" by (simp add: place_changes_def)
  show ?thesis
  proof (cases "dk_names d0 q = dk_names d q")
    case True
    with same show ?thesis by simp
  next
    case False
    with m obtain ino where i: "dk_names d q = None" "on_the_way (Dir (cf_socket_path cfg)) q" "ino < dk_next d0"
      "dk_names d0 q = Some ino" "own_dir sys (dk_nodes d0 ino)" unfolding made_dirs_def by metis
    moreover from p i(3) have "dk_nodes d' ino = dk_nodes d0 ino" by (simp add: place_changes_def grows_def)
    ultimately show ?thesis using same unfolding new_dir_for_def by auto
  qed
qed

lemma replaced_dead:
  assumes "calm sys" "mkdir_all sys dir d = (True, d0)" "acquireLock sys (lock_path socket) d0 = (Inr lock, d1)"
    and "prepareSocketPath sys dial socket d1 = (Inr (), d2)" "dk_names d socket = Some ino"
  shows "nd_kind (dk_nodes d ino) = SocketFile \<and> (dial = DialRefused \<or> dial = DialNotExist)"
proof -
  note m = made_dirs_keeps [OF mkdir_all_made [OF assms(1,2)]]
  note a = acquireLock_socket [OF assms(1,3)]
  have "dk_names d1 socket = Some ino" using m(2) [OF assms(5)] a lock_path_other [of socket] by simp
  with prepareSocketPath_calm [OF assms(1,4)]
  have "nd_kind (dk_nodes d1 ino) = SocketFile" "dial = DialRefused \<or> dial = DialNotExist" by auto
  with a m(3) show ?thesis by blast
qed

lemma take_place_ok:
  assumes "calm sys" "take_place f sys dial cfg d = (r, d')"
  defines "socket \<equiv> cf_socket_path cfg"
  shows "(\<forall>e. r = Inl e \<longrightarrow> dk_locks d' = dk_locks d)
     \<and> (\<forall>lock created. r = Inr (lock, created) \<longrightarrow> checkSocketDir f (Dir socket) = Inr ()
        \<and> dk_locks d lock = None \<and> dk_locks d' = (dk_locks d)(lock \<mapsto> os_pid sys)
        \<and> dk_names d' (lock_path socket) = Some lock \<and> dk_names d' socket = Some created
        \<and> nd_kind (dk_nodes d' created) = SocketFile \<and> nd_uid (dk_nodes d' created) = os_euid sys
        \<and> (\<forall>mode. SocketFileMode cfg = Some mode \<longrightarrow> nd_perm (dk_nodes d' created) = mode))
     \<and> (\<forall>ino. dk_names d socket = Some ino \<longrightarrow> dk_names d' socket \<noteq> Some ino \<longrightarrow>
          nd_kind (dk_nodes d ino) = SocketFile \<and> (dial = DialRefused \<or> dial = DialNotExist))"
  using assms(2)
proof (cases rule: take_place_cases)
  case (early e ok)
  note m = made_dirs_keeps [OF mkdir_all_made [OF assms(1) early(2)]]
  from m(1,2) early(1) show ?thesis by auto
next
  case (lock d0 e)
  note m = made_dirs_keeps [OF mkdir_all_made [OF assms(1) lock(1)]]
  from acquireLock_fails [OF assms(1) lock(3)] lock_path_other [of socket]
  have "dk_locks d' = dk_locks d0" "dk_names d' socket = dk_names d0 socket" by (auto simp: socket_def)
  with m(1,2) lock(2) show ?thesis by auto
next
  case (prepare d0 lock d1 e d2)
  note m = made_dirs_keeps [OF mkdir_all_made [OF assms(1) prepare(1)]]
  note a = acquireLock_socket [OF assms(1) prepare(2)]
  have "d2 = d1" using prepareSocketPath_calm [OF assms(1) prepare(3)] by blast
  with a prepare(5) lock_path_other [of socket]
  have "dk_locks d' = dk_locks d0" "dk_names d' socket = dk_names d0 socket"
    unfolding socket_def by (auto simp: release_def)
  with m(1,2) prepare(4) show ?thesis by auto
next
  case (listen d0 lock d1 d2 mode e d3)
  note m = made_dirs_keeps [OF mkdir_all_made [OF assms(1) listen(1)]]
  note a = acquireLock_socket [OF assms(1) listen(2)]
  note p = prepareSocketPath_calm [OF assms(1) listen(3)]
  from p have n: "dk_names d2 socket = None" by (simp add: socket_def)
  note l = listen_calm [OF assms(1) listen(4) n [unfolded socket_def]]
  from a p l listen(6) have "dk_locks d' = dk_locks d0" by (auto simp: release_def)
  moreover have "nd_kind (dk_nodes d ino) = SocketFile \<and> (dial = DialRefused \<or> dial = DialNotExist)"
    if "dk_names d socket = Some ino" for ino
    by (rule replaced_dead [OF assms(1) listen(1) listen(2,3) [unfolded socket_def [symmetric]] that])
  ultimately show ?thesis using m(1) listen(5) by auto
next
  case (placed d0 lock d1 d2 mode created)
  note m = made_dirs_keeps [OF mkdir_all_made [OF assms(1) placed(1)]]
  note a = acquireLock_socket [OF assms(1) placed(3)]
  note p = prepareSocketPath_calm [OF assms(1) placed(4)]
  from p have n: "dk_names d2 socket = None" by (simp add: socket_def)
  note l = listen_calm [OF assms(1) placed(5) n [unfolded socket_def]]
  have "nd_kind (dk_nodes d ino) = SocketFile \<and> (dial = DialRefused \<or> dial = DialNotExist)"
    if "dk_names d socket = Some ino" for ino
    by (rule replaced_dead [OF assms(1) placed(1) placed(3,4) [unfolded socket_def [symmetric]] that])
  moreover have "dk_names d' (lock_path socket) = Some lock"
    using l p a lock_path_other [of socket] by (auto simp: socket_def)
  ultimately show ?thesis using a p l m(1) placed(2,6,7) by (auto simp: socket_def)
qed

text \<open>C28: How a broker takes its place.  When nobody interferes, either it fails, and then no lock has been
  taken; or its directory is its own, it holds the lock that nobody held, and its path names a new socket
  that belongs to it and has exactly the configured mode.  Either way, a name other than the socket's and
  the lock file's is as it was, or it was missing, is the root or a directory on the way to the socket, and is
  now a directory of the broker's user with mode 0750 less the umask; and what was at the socket's path is
  replaced only if it was a dead socket.\<close>

theorem take_place_safe:
  assumes "calm sys" "take_place f sys dial cfg d = (r, d')"
  defines "socket \<equiv> cf_socket_path cfg"
  shows "(\<forall>e. r = Inl e \<longrightarrow> dk_locks d' = dk_locks d)
     \<and> (\<forall>lock created. r = Inr (lock, created) \<longrightarrow> checkSocketDir f (Dir socket) = Inr ()
        \<and> dk_locks d lock = None \<and> dk_locks d' = (dk_locks d)(lock \<mapsto> os_pid sys)
        \<and> dk_names d' (lock_path socket) = Some lock \<and> dk_names d' socket = Some created
        \<and> nd_kind (dk_nodes d' created) = SocketFile \<and> nd_uid (dk_nodes d' created) = os_euid sys
        \<and> (\<forall>mode. SocketFileMode cfg = Some mode \<longrightarrow> nd_perm (dk_nodes d' created) = mode))
     \<and> (\<forall>q. q \<notin> {socket, lock_path socket} \<longrightarrow> dk_names d' q = dk_names d q \<or>
          dk_names d q = None \<and> on_the_way (Dir socket) q
          \<and> (\<exists>ino. dk_names d' q = Some ino \<and> nd_kind (dk_nodes d' ino) = DirFile
               \<and> nd_uid (dk_nodes d' ino) = os_euid sys \<and> nd_perm (dk_nodes d' ino) = 0x1E8 AND NOT (os_umask sys)))
     \<and> (\<forall>ino. dk_names d socket = Some ino \<longrightarrow> dk_names d' socket \<noteq> Some ino \<longrightarrow>
          nd_kind (dk_nodes d ino) = SocketFile \<and> (dial = DialRefused \<or> dial = DialNotExist))"
  using take_place_ok [OF assms(1,2)] take_place_names [OF assms(1,2)]
  unfolding socket_def new_dir_for_def own_dir_def by (intro conjI) blast+

text \<open>A directory of the broker's own with a dead socket in it.\<close>

definition socket_fs :: fs where
  "socket_fs = example_fs\<lparr>fs_lstat := \<lambda>path.
     Some \<lparr>fi_mode = 0x800001ED, fi_uid = Some (if path = ''/run/imsg'' then 501 else 0)\<rparr>\<rparr>"

definition socket_config :: config where
  "socket_config = example_config\<lparr>cf_socket_path := ''/run/imsg/s''\<rparr>"

definition socket_disk :: disk where
  "socket_disk = new_file SocketFile 0x1ED 501 ''/run/imsg/s'' (new_file DirFile 0x1ED 501 ''/run/imsg'' empty_disk)"

lemma socket_dir_path: "Dir ''/run/imsg/s'' = ''/run/imsg''"
proof -
  have paths: "''/run/imsg/s'' = abs_path ([''run'', ''imsg''] @ [''s''])" "''/run/imsg'' = abs_path [''run'', ''imsg'']"
    by (simp_all add: abs_path_def)
  have "list_all proper ([''run'', ''imsg''] @ [''s''])" by (simp add: proper_def)
  from Dir_abs_path [OF this] show ?thesis by (simp only: paths)
qed

lemma socket_dir: "checkSocketDir socket_fs (Dir (cf_socket_path socket_config)) = Inr ()"
proof -
  have path: "''/run/imsg'' = abs_path ([''run''] @ [''imsg''])" by (simp add: abs_path_def)
  have proper: "list_all proper ([''run''] @ [''imsg''])" by (simp add: proper_def)
  have "protected_dir socket_fs path" "real_root socket_fs" for path
    by (simp_all add: protected_dir_def real_root_def socket_fs_def example_fs_def trusted_owner_def example_modes)
  then have "CheckParents socket_fs ''/run/imsg'' = Inr ()"
    unfolding path by (intro plain_parents proper)
  then show ?thesis
    by (simp add: checkSocketDir_iff socket_config_def socket_fs_def example_fs_def example_modes socket_dir_path)
qed

lemma socket_mode: "SocketFileMode socket_config = Some 0x1B0"
proof -
  have "trim_space ''0660'' = ''0660''" by (rule trim_space_graphic) (auto simp: graphic_def)
  then show ?thesis
    by (simp add: SocketFileMode_def socket_config_def example_config_def parse_octal_def octal_digit_def octal_value_def)
qed

lemma socket_place:
  "\<exists>d'. take_place socket_fs example_sys DialRefused socket_config socket_disk = (Inr (3, 4), d')"
proof -
  have d: "dk_names socket_disk ''/run/imsg/s.lock'' = None" "dk_locks socket_disk (dk_next socket_disk) = None"
    "dk_next socket_disk = 3" "dk_names socket_disk ''/run/imsg/s'' = Some 2" "names_dir ''/run/imsg'' socket_disk"
    by (simp_all add: socket_disk_def new_file_def empty_disk_def names_dir_def)
  have p: "cf_socket_path socket_config = ''/run/imsg/s''" "lock_path ''/run/imsg/s'' = ''/run/imsg/s.lock''"
    by (simp_all add: socket_config_def lock_path_def)
  note a = acquireLock_new [OF example_sys_calm d(1,2)]
  let ?d = "locked_by example_sys 3 (new_file RegularFile 0x180 (os_euid example_sys) ''/run/imsg/s.lock'' socket_disk)"
  have q: "dk_names ?d ''/run/imsg/s'' = Some 2" "nd_kind (dk_nodes ?d 2) = SocketFile" "dk_next ?d = 4"
    by (simp_all add: socket_disk_def new_file_def empty_disk_def locked_by_def)
  have "prepareSocketPath example_sys DialRefused ''/run/imsg/s'' ?d =
      (Inr (), ?d\<lparr>dk_names := (dk_names ?d)(''/run/imsg/s'' := None)\<rparr>)"
    using q(1,2) by (simp add: prepareSocketPath_def example_sys_def Let_def)
  moreover have "\<exists>d'. listen example_sys ''/run/imsg/s'' 0x1B0 (?d\<lparr>dk_names := (dk_names ?d)(''/run/imsg/s'' := None)\<rparr>) = (Inr 4, d')"
    using q(3) by (simp add: listen_def example_sys_def Let_def) (simp add: new_file_def)
  moreover note dir = socket_dir [unfolded p]
  moreover have "mkdir_all example_sys (Dir ''/run/imsg/s'') socket_disk = (True, socket_disk)"
    by (rule mkdir_all_there [OF example_sys_calm]) (simp add: socket_dir_path dir_name_def d(5))
  ultimately show ?thesis
    unfolding take_place_def Let_def p dir by (auto simp: a d(3) socket_mode)
qed

lemma take_place_safe_witness:
  "\<exists>d'. take_place socket_fs example_sys DialRefused socket_config socket_disk = (Inr (3, 4), d')
     \<and> dk_names d' ''/run/imsg/s'' = Some 4 \<and> nd_perm (dk_nodes d' 4) = 0x1B0 \<and> dk_locks d' 3 = Some 7"
proof -
  from socket_place obtain d' where t: "take_place socket_fs example_sys DialRefused socket_config socket_disk = (Inr (3, 4), d')"
    by blast
  have p: "cf_socket_path socket_config = ''/run/imsg/s''" by (simp add: socket_config_def)
  from take_place_safe [OF example_sys_calm(1) t, unfolded p] t socket_mode
  show ?thesis by (intro exI [of _ d']) (simp add: example_sys_def)
qed

end
