(* ===== verification/GoFlag.thy ===== *)
theory GoFlag
  imports GoStrings Json
begin

text \<open>
  The parts of Go's \<open>flag\<close> and \<open>strconv\<close> packages the two command lines use: parsing arguments against a
  set of defined flags, and integers with base prefixes and digit separators.  Every parse error makes
  the commands exit with status 2, so errors are \<open>None\<close>.
\<close>

section \<open>Integers\<close>

definition digit_of :: "char \<Rightarrow> nat option" where
  "digit_of c =
     (if ascii_digit c then Some (byte c - 48)
      else let l = byte (to_lower_char c) in if 97 \<le> l \<and> l \<le> 122 then Some (l - 97 + 10) else None)"

text \<open>\<open>underscoreOK\<close>: the last thing seen is nothing, a digit (or base prefix), a separator, or something
  else.\<close>

datatype seen = NothingSeen | DigitSeen | SeparatorSeen | OtherSeen

fun separators_ok :: "bool \<Rightarrow> seen \<Rightarrow> string \<Rightarrow> bool" where
  "separators_ok hex saw [] = (saw \<noteq> SeparatorSeen)"
| "separators_ok hex saw (c # cs) =
     (if ascii_digit c \<or> hex \<and> 97 \<le> byte (to_lower_char c) \<and> byte (to_lower_char c) \<le> 102
      then separators_ok hex DigitSeen cs
      else if c = CHR ''_'' then saw = DigitSeen \<and> separators_ok hex SeparatorSeen cs
      else saw \<noteq> SeparatorSeen \<and> separators_ok hex OtherSeen cs)"

definition base_prefix :: "string \<Rightarrow> (nat \<times> string) option" where
  "base_prefix s = (case s of
      z # b # rest \<Rightarrow>
        if z \<noteq> CHR ''0'' then None
        else if to_lower_char b = CHR ''b'' then Some (2, rest)
        else if to_lower_char b = CHR ''o'' then Some (8, rest)
        else if to_lower_char b = CHR ''x'' then Some (16, rest)
        else None
    | _ \<Rightarrow> None)"

definition underscoreOK :: "string \<Rightarrow> bool" where
  "underscoreOK s =
     (case base_prefix s of
        Some (base, rest) \<Rightarrow> separators_ok (base = 16) DigitSeen rest
      | None \<Rightarrow> separators_ok False NothingSeen s)"

text \<open>The digits with their base: a prefix counts only if something follows it, and a leading zero
  alone means octal.\<close>

definition split_base :: "string \<Rightarrow> nat \<times> string" where
  "split_base s =
     (case base_prefix s of
        Some (base, rest) \<Rightarrow> if rest \<noteq> [] then (base, rest) else (8, drop 1 s)
      | None \<Rightarrow> if has_prefix ''0'' s then (8, drop 1 s) else (10, s))"

fun digits_in :: "nat \<Rightarrow> nat \<Rightarrow> string \<Rightarrow> nat option" where
  "digits_in base acc [] = Some acc"
| "digits_in base acc (c # cs) =
     (if c = CHR ''_'' then digits_in base acc cs
      else (case digit_of c of
          None \<Rightarrow> None
        | Some n \<Rightarrow> if base \<le> n then None else digits_in base (base * acc + n) cs))"

definition ParseUint0 :: "string \<Rightarrow> nat option" where
  "ParseUint0 s =
     (if s = [] then None
      else (case split_base s of
          (base, ds) \<Rightarrow>
            (case digits_in base 0 ds of
               None \<Rightarrow> None
             | Some n \<Rightarrow> if CHR ''_'' \<in> set ds \<and> \<not> underscoreOK s then None else Some n)))"

text \<open>\<open>strconv.ParseInt(s, 0, 64)\<close>.\<close>

definition ParseInt0 :: "string \<Rightarrow> int option" where
  "ParseInt0 s =
     (case s of
        [] \<Rightarrow> None
      | c # cs \<Rightarrow>
          let neg = (c = CHR ''-''); body = (if c = CHR ''-'' \<or> c = CHR ''+'' then cs else s) in
          (case ParseUint0 body of
             None \<Rightarrow> None
           | Some n \<Rightarrow>
               if \<not> neg \<and> 2 ^ 63 \<le> int n \<or> neg \<and> 2 ^ 63 < int n then None
               else Some (if neg then - int n else int n)))"

definition ParseBool :: "string \<Rightarrow> bool option" where
  "ParseBool s =
     (if s \<in> {''1'', ''t'', ''T'', ''true'', ''TRUE'', ''True''} then Some True
      else if s \<in> {''0'', ''f'', ''F'', ''false'', ''FALSE'', ''False''} then Some False
      else None)"

section \<open>Flags\<close>

datatype flag_value = StringFlag string | IntFlag int | BoolFlag bool

type_synonym flag_set = "string \<Rightarrow> flag_value option"

definition set_flag :: "flag_value \<Rightarrow> string \<Rightarrow> flag_value option" where
  "set_flag old s =
     (case old of
        StringFlag _ \<Rightarrow> Some (StringFlag s)
      | IntFlag _ \<Rightarrow> map_option IntFlag (ParseInt0 s)
      | BoolFlag _ \<Rightarrow> map_option BoolFlag (ParseBool s))"

text \<open>The name of an argument that is a flag, and the value after an equals sign that is not first.\<close>

definition split_equals :: "string \<Rightarrow> string \<times> string option" where
  "split_equals name =
     (let k = length (takeWhile (\<lambda>c. c \<noteq> CHR ''='') (drop 1 name)) + 1 in
      if length name \<le> k then (name, None) else (take k name, Some (drop (k + 1) name)))"

text \<open>One flag argument, with the arguments after it: the flags as set, and whether the next argument was
  taken as its value.\<close>

definition flag_step :: "flag_set \<Rightarrow> string \<Rightarrow> string list \<Rightarrow> (flag_set \<times> bool) option" where
  "flag_step fs s args =
     (let name = (if s ! 1 = CHR ''-'' then drop 2 s else drop 1 s) in
      if name = [] \<or> hd name = CHR ''-'' \<or> hd name = CHR ''='' then None
      else
        (case split_equals name of
           (name, given) \<Rightarrow>
             (case fs name of
                None \<Rightarrow> None
              | Some old \<Rightarrow>
                  (case given of
                     Some val \<Rightarrow> map_option (\<lambda>v. (fs(name \<mapsto> v), False)) (set_flag old val)
                   | None \<Rightarrow>
                       (case old of
                          BoolFlag _ \<Rightarrow> Some (fs(name \<mapsto> BoolFlag True), False)
                        | _ \<Rightarrow>
                            (case args of
                               [] \<Rightarrow> None
                             | val # _ \<Rightarrow> map_option (\<lambda>v. (fs(name \<mapsto> v), True)) (set_flag old val)))))))"

text \<open>\<open>FlagSet.Parse\<close>: the flags as set, and the remaining arguments.\<close>

fun parse_flags :: "flag_set \<Rightarrow> string list \<Rightarrow> (flag_set \<times> string list) option" where
  "parse_flags fs [] = Some (fs, [])"
| "parse_flags fs (s # args) =
     (if length s < 2 \<or> hd s \<noteq> CHR ''-'' then Some (fs, s # args)
      else if s = ''--'' then Some (fs, args)
      else (case flag_step fs s args of
          None \<Rightarrow> None
        | Some (fs, False) \<Rightarrow> parse_flags fs args
        | Some (fs, True) \<Rightarrow> parse_flags fs (drop 1 args)))"

definition string_flag :: "flag_set \<Rightarrow> string \<Rightarrow> string" where
  "string_flag fs name = (case fs name of Some (StringFlag s) \<Rightarrow> s | _ \<Rightarrow> [])"

definition int_flag :: "flag_set \<Rightarrow> string \<Rightarrow> int" where
  "int_flag fs name = (case fs name of Some (IntFlag i) \<Rightarrow> i | _ \<Rightarrow> 0)"

definition bool_flag :: "flag_set \<Rightarrow> string \<Rightarrow> bool" where
  "bool_flag fs name = (case fs name of Some (BoolFlag b) \<Rightarrow> b | _ \<Rightarrow> False)"

section \<open>What a parse establishes\<close>

lemma ParseInt0_range:
  assumes "ParseInt0 s = Some i"
  shows "- (2 ^ 63) \<le> i \<and> i < 2 ^ 63"
proof -
  have "\<exists>neg n. \<not> (\<not> neg \<and> 2 ^ 63 \<le> int n \<or> neg \<and> 2 ^ 63 < int n) \<and> i = (if neg then - int n else int n)"
    using assms unfolding ParseInt0_def Let_def
    by (cases s) (simp_all split: option.split_asm if_split_asm, blast+)
  then obtain neg n where n: "\<not> (\<not> neg \<and> 2 ^ 63 \<le> int n \<or> neg \<and> 2 ^ 63 < int n)"
    "i = (if neg then - int n else int n)" by blast
  show ?thesis by (cases neg) (use n in simp_all)
qed

text \<open>Parsing changes the values of flags, never which flags there are or of what kind they are, and an
  integer flag always holds a 64-bit value.\<close>

definition same_kind :: "flag_value \<Rightarrow> flag_value \<Rightarrow> bool" where
  "same_kind v w \<longleftrightarrow> (case (v, w) of
      (StringFlag _, StringFlag _) \<Rightarrow> True
    | (IntFlag _, IntFlag _) \<Rightarrow> True
    | (BoolFlag _, BoolFlag _) \<Rightarrow> True
    | _ \<Rightarrow> False)"

definition flag_ok :: "flag_value \<Rightarrow> bool" where
  "flag_ok v \<longleftrightarrow> (case v of IntFlag i \<Rightarrow> - (2 ^ 63) \<le> i \<and> i < 2 ^ 63 | _ \<Rightarrow> True)"

definition flags_from :: "flag_set \<Rightarrow> flag_set \<Rightarrow> bool" where
  "flags_from fs gs \<longleftrightarrow> (\<forall>name. rel_option same_kind (fs name) (gs name))
     \<and> ((\<forall>name v. fs name = Some v \<longrightarrow> flag_ok v) \<longrightarrow> (\<forall>name v. gs name = Some v \<longrightarrow> flag_ok v))"

lemma same_kind_refl [simp]: "same_kind v v"
  by (cases v) (simp_all add: same_kind_def)

lemma same_kind_trans: "same_kind u v \<Longrightarrow> same_kind v w \<Longrightarrow> same_kind u w"
  by (cases u; cases v; cases w) (simp_all add: same_kind_def)

lemma flags_from_refl [simp]: "flags_from fs fs"
  by (simp add: flags_from_def option.rel_refl)

lemma rel_option_trans: "rel_option same_kind x y \<Longrightarrow> rel_option same_kind y z \<Longrightarrow> rel_option same_kind x z"
  by (cases x; cases y; cases z) (auto intro: same_kind_trans)

lemma flags_from_trans: "flags_from f g \<Longrightarrow> flags_from g h \<Longrightarrow> flags_from f h"
  unfolding flags_from_def
  by (blast intro: rel_option_trans)

lemma flags_from_upd: "fs name = Some old \<Longrightarrow> same_kind old v \<Longrightarrow> flag_ok v \<Longrightarrow> flags_from fs (fs(name \<mapsto> v))"
  by (auto simp: flags_from_def option.rel_refl)

lemma set_flag_kind: "set_flag old s = Some v \<Longrightarrow> same_kind old v \<and> flag_ok v"
  using ParseInt0_range [of s]
  by (cases old) (auto simp: set_flag_def same_kind_def flag_ok_def)

lemma flag_step_from: "flag_step fs s args = Some (gs, b) \<Longrightarrow> flags_from fs gs"
  by (auto simp: flag_step_def Let_def split: if_split_asm prod.split_asm option.split_asm flag_value.split_asm list.split_asm
      dest!: set_flag_kind intro: flags_from_upd) (simp_all add: flags_from_upd same_kind_def flag_ok_def)

lemma parse_flags_from: "parse_flags fs args = Some (gs, rest) \<Longrightarrow> flags_from fs gs"
proof (induction fs args rule: parse_flags.induct)
  case (2 fs s args)
  show ?case
  proof (cases "flag_step fs s args")
    case None
    with "2.prems" show ?thesis by (auto split: if_split_asm)
  next
    case (Some r)
    obtain hs b where r: "r = (hs, b)" by fastforce
    have "flags_from fs hs" using flag_step_from Some r by blast
    with 2 Some r show ?thesis by (cases b) (auto split: if_split_asm intro: flags_from_trans)
  qed
qed simp

section \<open>Pairs of name and value\<close>

text \<open>Arguments of the form \<open>--name value\<close>, with names that are not empty and have no equals sign.\<close>

definition flag_args :: "(string \<times> string) list \<Rightarrow> string list" where
  "flag_args kvs = concat (map (\<lambda>(k, v). [''--'' @ k, v]) kvs)"

definition plain_names :: "(string \<times> string) list \<Rightarrow> bool" where
  "plain_names kvs \<longleftrightarrow> (\<forall>(k, v) \<in> set kvs. k \<noteq> [] \<and> CHR ''='' \<notin> set k)"

text \<open>The last value given for a name.\<close>

definition string_given :: "(string \<times> string) list \<Rightarrow> string \<Rightarrow> string" where
  "string_given kvs name = (case map_of (rev kvs) name of None \<Rightarrow> [] | Some v \<Rightarrow> v)"

definition int_given :: "(string \<times> string) list \<Rightarrow> string \<Rightarrow> int option" where
  "int_given kvs name = (case map_of (rev kvs) name of None \<Rightarrow> Some 0 | Some v \<Rightarrow> ParseInt0 v)"

lemma split_equals_plain: "k \<noteq> [] \<Longrightarrow> CHR ''='' \<notin> set k \<Longrightarrow> split_equals k = (k, None)"
proof -
  assume k: "k \<noteq> []" "CHR ''='' \<notin> set k"
  have t: "takeWhile (\<lambda>c. c \<noteq> CHR ''='') (drop 1 k) = drop 1 k"
    unfolding takeWhile_eq_all_conv using k(2) by (metis in_set_dropD)
  show ?thesis unfolding split_equals_def Let_def t using k(1) by simp
qed

lemma flag_step_pair:
  assumes "flag_step fs (''--'' @ k) (v # args) = Some (gs, b)" "k \<noteq> []" "CHR ''='' \<notin> set k"
    and "\<forall>name b. fs name \<noteq> Some (BoolFlag b)"
  obtains old new where "fs k = Some old" "set_flag old v = Some new" "gs = fs(k \<mapsto> new)" "b"
  using assms split_equals_plain [OF assms(2,3)]
  by (auto simp: flag_step_def Let_def split: if_split_asm option.split_asm flag_value.split_asm)

lemma set_flag_again: "set_flag old v = Some new \<Longrightarrow> set_flag new = set_flag old"
  by (cases old) (auto simp: set_flag_def)

text \<open>Parsing such pairs leaves nothing over and gives every flag the last value for its name.\<close>

lemma parse_flag_args:
  assumes "parse_flags fs (flag_args kvs) = Some (gs, rest)" "plain_names kvs"
    and "\<forall>name b. fs name \<noteq> Some (BoolFlag b)"
  shows "gs name = (case map_of (rev kvs) name of None \<Rightarrow> fs name | Some v \<Rightarrow> Option.bind (fs name) (\<lambda>old. set_flag old v))
     \<and> (\<forall>v. map_of (rev kvs) name = Some v \<longrightarrow> gs name \<noteq> None)"
  using assms
proof (induction kvs arbitrary: fs)
  case Nil
  then show ?case by (simp add: flag_args_def)
next
  case (Cons kv kvs)
  obtain k v where kv: "kv = (k, v)" by fastforce
  with Cons.prems(2) have k: "k \<noteq> []" "CHR ''='' \<notin> set k" and plain: "plain_names kvs"
    by (auto simp: plain_names_def)
  let ?s = "''--'' @ k"
  have a: "flag_args (kv # kvs) = ?s # v # flag_args kvs" by (simp add: flag_args_def kv)
  have s: "\<not> (length ?s < 2 \<or> hd ?s \<noteq> CHR ''-'')" "?s \<noteq> ''--''" using k(1) by simp_all
  obtain hs b where st: "flag_step fs ?s (v # flag_args kvs) = Some (hs, b)"
    using Cons.prems(1) s unfolding a parse_flags.simps by (auto split: option.split_asm)
  obtain old new where o: "fs k = Some old" "set_flag old v = Some new" "hs = fs(k \<mapsto> new)" "b"
    by (rule flag_step_pair [OF st k Cons.prems(3)])
  have p: "parse_flags hs (flag_args kvs) = Some (gs, rest)"
    using Cons.prems(1) s st o(4) unfolding a parse_flags.simps by simp
  have nb: "\<forall>name b. hs name \<noteq> Some (BoolFlag b)"
    using o Cons.prems(3) by (cases old) (auto simp: set_flag_def)
  note IH = Cons.IH [OF p plain nb]
  show ?case
  proof (cases "map_of (rev kvs) name")
    case None
    with IH o show ?thesis by (auto simp: kv map_add_def)
  next
    case (Some u)
    have e: "Option.bind (hs name) (\<lambda>old. set_flag old u) = Option.bind (fs name) (\<lambda>old. set_flag old u)"
      using o(1,3) set_flag_again [OF o(2)] by (cases "name = k") simp_all
    have m: "map_of (rev (kv # kvs)) name = Some u" using Some by (simp add: map_add_def)
    note g = IH [THEN conjunct1, unfolded Some option.case] IH [THEN conjunct2, rule_format, OF Some]
    show ?thesis unfolding m option.case e [symmetric] g(1) [symmetric] using g(2) by blast
  qed
qed

end
