(* ===== verification/Cli.thy ===== *)
theory Cli
  imports GoFlag Serving
begin

text \<open>
  The client's command line (\<open>cmd/safe-imsg/main.go\<close>): the arguments become one request, the request one
  call, and the response the exit status and what is printed.  The random bytes and the clock of the
  request id, and the connection of the call, are the environment.
\<close>

section \<open>Commands\<close>

datatype cli_params =
    EmptyParams
  | ListChatsParams list_chats_params
  | HistoryParams generation_params
  | MessageParams get_message_params
  | CollectParams collect_params

definition omit_int :: "string \<Rightarrow> int \<Rightarrow> (string \<times> json) list" where
  "omit_int k i = (if i = 0 then [] else [(k, jint i)])"

fun params_json :: "cli_params \<Rightarrow> json" where
  "params_json EmptyParams = JObj []"
| "params_json (ListChatsParams p) = JObj (omit_int ''limit'' (lc_limit p))"
| "params_json (HistoryParams p) = JObj ([(''chat_id'', jint (gp_chat_id p)),
     (''database_generation'', JStr (gp_database_generation p))] @ omit_int ''limit'' (gp_limit p))"
| "params_json (MessageParams p) = JObj [(''chat_id'', jint (gm_chat_id p)),
     (''database_generation'', JStr (gm_database_generation p)), (''guid'', JStr (gm_guid p))]"
| "params_json (CollectParams p) = JObj (omit_string ''cursor'' (cp_cursor p)
     @ omit_int ''after_row_id'' (cp_after_row_id p)
     @ omit_string ''database_generation'' (cp_database_generation p)
     @ omit_int ''limit'' (cp_limit p) @ omit_string ''not_before'' (cp_not_before p))"

definition parseFlags :: "flag_set \<Rightarrow> string list \<Rightarrow> flag_set option" where
  "parseFlags fs args = (case parse_flags fs args of
      None \<Rightarrow> None
    | Some (fs, rest) \<Rightarrow> if rest \<noteq> [] then None else Some fs)"

definition chats_flags :: flag_set where
  "chats_flags = [''limit'' \<mapsto> IntFlag 0]"

definition history_flags :: flag_set where
  "history_flags = [''chat-id'' \<mapsto> IntFlag 0, ''database-generation'' \<mapsto> StringFlag [], ''limit'' \<mapsto> IntFlag 0]"

definition message_flags :: flag_set where
  "message_flags = [''chat-id'' \<mapsto> IntFlag 0, ''database-generation'' \<mapsto> StringFlag [], ''guid'' \<mapsto> StringFlag []]"

definition collect_flags :: flag_set where
  "collect_flags = [''cursor'' \<mapsto> StringFlag [], ''after-row-id'' \<mapsto> IntFlag 0,
     ''database-generation'' \<mapsto> StringFlag [], ''limit'' \<mapsto> IntFlag 0, ''not-before'' \<mapsto> StringFlag []]"

text \<open>\<open>None\<close> when the command is refused; \<open>run\<close> never calls it without arguments.\<close>

fun parseCommand :: "string list \<Rightarrow> (string \<times> cli_params) option" where
  "parseCommand [] = None"
| "parseCommand (command # args) =
     (if command = ''ping'' then (if args \<noteq> [] then None else Some (MethodSystemPing, EmptyParams))
      else if command = ''info'' then (if args \<noteq> [] then None else Some (MethodSystemInfo, EmptyParams))
      else if command = ''chats'' then
        map_option (\<lambda>fs. (MethodListChats, ListChatsParams \<lparr>lc_limit = int_flag fs ''limit''\<rparr>))
          (parseFlags chats_flags args)
      else if command = ''history'' then
        map_option (\<lambda>fs. (MethodHistory, HistoryParams \<lparr>gp_chat_id = int_flag fs ''chat-id'',
            gp_database_generation = string_flag fs ''database-generation'', gp_limit = int_flag fs ''limit''\<rparr>))
          (parseFlags history_flags args)
      else if command = ''message'' then
        map_option (\<lambda>fs. (MethodGetMessage, MessageParams \<lparr>gm_chat_id = int_flag fs ''chat-id'',
            gm_database_generation = string_flag fs ''database-generation'', gm_guid = string_flag fs ''guid''\<rparr>))
          (parseFlags message_flags args)
      else if command = ''collect'' then
        map_option (\<lambda>fs. (MethodCollect, CollectParams \<lparr>cp_cursor = string_flag fs ''cursor'',
            cp_after_row_id = int_flag fs ''after-row-id'',
            cp_database_generation = string_flag fs ''database-generation'', cp_limit = int_flag fs ''limit'',
            cp_not_before = string_flag fs ''not-before''\<rparr>))
          (parseFlags collect_flags args)
      else None)"

section \<open>Running\<close>

text \<open>\<open>hex.EncodeToString\<close>, and the request id: twelve random bytes, or else the clock.\<close>

definition hex_encode :: "bytes \<Rightarrow> string" where
  "hex_encode bs = concat (map (\<lambda>c. [hex_digit (byte c div 16), hex_digit (byte c mod 16)]) bs)"

record cli_env =
  ce_random :: "bytes option"
  ce_nanos :: int
  ce_connects :: bool
  ce_answers :: "write_result list"
  ce_peer :: "bytes \<Rightarrow> bytes list"

definition requestID :: "cli_env \<Rightarrow> string" where
  "requestID env = (case ce_random env of Some value \<Rightarrow> hex_encode value | None \<Rightarrow> print_int (ce_nanos env))"

definition cli_request :: "cli_env \<Rightarrow> string \<Rightarrow> cli_params \<Rightarrow> request" where
  "cli_request env method params =
     \<lparr>rq_v = Version1, rq_id = requestID env, rq_method = method, rq_params = json_print (params_json params)\<rparr>"

text \<open>What was printed, to the standard output (\<open>VersionLine\<close>, \<open>Result\<close>) or as a diagnostic.  \<open>None\<close> while a
  write of the call has not returned.\<close>

datatype cli_outcome =
    VersionLine
  | BadArguments
  | CallError call_error
  | MissingError
  | BrokerError string string
  | Result json

fun exit_status :: "cli_outcome \<Rightarrow> nat" where
  "exit_status VersionLine = 0"
| "exit_status (Result v) = 0"
| "exit_status BadArguments = 2"
| "exit_status _ = 1"

text \<open>The result is kept as a value; how \<open>json.MarshalIndent\<close> sets it out on lines is not modelled.\<close>

definition print_response :: "json response \<Rightarrow> cli_outcome" where
  "print_response resp =
     (if \<not> rs_ok resp
      then (case rs_error resp of None \<Rightarrow> MissingError | Some e \<Rightarrow> BrokerError (eb_code e) (eb_message e))
      else Result (case rs_result resp of None \<Rightarrow> JNull | Some v \<Rightarrow> v))"

definition global_flags :: flag_set where
  "global_flags = [''socket'' \<mapsto> StringFlag []]"

definition run_client :: "cli_env \<Rightarrow> string list \<Rightarrow> cli_outcome option" where
  "run_client env args =
     (if args = [''version''] then Some VersionLine
      else (case parse_flags global_flags args of
          None \<Rightarrow> Some BadArguments
        | Some (fs, rest) \<Rightarrow>
            if string_flag fs ''socket'' = [] \<or> rest = [] then Some BadArguments
            else (case parseCommand rest of
                None \<Rightarrow> Some BadArguments
              | Some (method, params) \<Rightarrow>
                  (case snd (Call (cli_request env method params) (ce_connects env) (ce_answers env) (ce_peer env)) of
                     None \<Rightarrow> None
                   | Some (Inl e) \<Rightarrow> Some (CallError e)
                   | Some (Inr resp) \<Rightarrow> Some (print_response resp)))))"

section \<open>The request\<close>

fun params_utf8 :: "cli_params \<Rightarrow> bool" where
  "params_utf8 EmptyParams = True"
| "params_utf8 (ListChatsParams p) = True"
| "params_utf8 (HistoryParams p) = valid_utf8 (gp_database_generation p)"
| "params_utf8 (MessageParams p) = (valid_utf8 (gm_database_generation p) \<and> valid_utf8 (gm_guid p))"
| "params_utf8 (CollectParams p) = (valid_utf8 (cp_cursor p) \<and> valid_utf8 (cp_database_generation p)
     \<and> valid_utf8 (cp_not_before p))"

definition in_int64 :: "int \<Rightarrow> bool" where
  "in_int64 i \<longleftrightarrow> - (2 ^ 63) \<le> i \<and> i < 2 ^ 63"

fun params_int64 :: "cli_params \<Rightarrow> bool" where
  "params_int64 EmptyParams = True"
| "params_int64 (ListChatsParams p) = in_int64 (lc_limit p)"
| "params_int64 (HistoryParams p) = (in_int64 (gp_chat_id p) \<and> in_int64 (gp_limit p))"
| "params_int64 (MessageParams p) = in_int64 (gm_chat_id p)"
| "params_int64 (CollectParams p) = (in_int64 (cp_after_row_id p) \<and> in_int64 (cp_limit p))"

text \<open>What the broker makes of the parameters of a request, by the method it names.\<close>

fun received_as :: "cli_params \<Rightarrow> request \<Rightarrow> bool" where
  "received_as EmptyParams req = (rq_method req \<in> {MethodSystemPing, MethodSystemInfo}
     \<and> decodeEmpty (rq_params req) = Inr ())"
| "received_as (ListChatsParams p) req = (rq_method req = MethodListChats \<and> decode_list_chats (rq_params req) = Inr p)"
| "received_as (HistoryParams p) req = (rq_method req = MethodHistory \<and> decode_generation (rq_params req) = Inr p)"
| "received_as (MessageParams p) req = (rq_method req = MethodGetMessage \<and> decode_get_message (rq_params req) = Inr p)"
| "received_as (CollectParams p) req = (rq_method req = MethodCollect \<and> decode_collect (rq_params req) = Inr p)"

definition id_sources :: "cli_env \<Rightarrow> bool" where
  "id_sources env \<longleftrightarrow> (\<forall>v. ce_random env = Some v \<longrightarrow> length v = 12) \<and> in_int64 (ce_nanos env)"

lemma int_flag_range:
  assumes "parseFlags fs args = Some gs" "\<forall>v \<in> ran fs. flag_ok v"
  shows "in_int64 (int_flag gs name)"
proof -
  from assms(1) have "parse_flags fs args = Some (gs, [])"
    by (auto simp: parseFlags_def split: option.split_asm prod.split_asm if_split_asm)
  from parse_flags_from [OF this] have f: "flags_from fs gs" .
  have "\<forall>name v. fs name = Some v \<longrightarrow> flag_ok v" using assms(2) by (auto simp: ran_def)
  with f have "\<forall>v. gs name = Some v \<longrightarrow> flag_ok v" by (auto simp: flags_from_def)
  then show ?thesis
    by (auto simp: int_flag_def in_int64_def flag_ok_def split: option.split flag_value.split)
qed

lemma parseCommand_cases:
  assumes "parseCommand args = Some (method, params)"
  obtains (ping) "args = [''ping'']" "method = MethodSystemPing" "params = EmptyParams"
  | (info_cmd) "args = [''info'']" "method = MethodSystemInfo" "params = EmptyParams"
  | (chats) rest fs where "args = ''chats'' # rest" "parseFlags chats_flags rest = Some fs" "method = MethodListChats"
      "params = ListChatsParams \<lparr>lc_limit = int_flag fs ''limit''\<rparr>"
  | (history) rest fs where "args = ''history'' # rest" "parseFlags history_flags rest = Some fs" "method = MethodHistory"
      "params = HistoryParams \<lparr>gp_chat_id = int_flag fs ''chat-id'',
         gp_database_generation = string_flag fs ''database-generation'', gp_limit = int_flag fs ''limit''\<rparr>"
  | (message) rest fs where "args = ''message'' # rest" "parseFlags message_flags rest = Some fs" "method = MethodGetMessage"
      "params = MessageParams \<lparr>gm_chat_id = int_flag fs ''chat-id'',
         gm_database_generation = string_flag fs ''database-generation'', gm_guid = string_flag fs ''guid''\<rparr>"
  | (collect) rest fs where "args = ''collect'' # rest" "parseFlags collect_flags rest = Some fs" "method = MethodCollect"
      "params = CollectParams \<lparr>cp_cursor = string_flag fs ''cursor'', cp_after_row_id = int_flag fs ''after-row-id'',
         cp_database_generation = string_flag fs ''database-generation'', cp_limit = int_flag fs ''limit'',
         cp_not_before = string_flag fs ''not-before''\<rparr>"
proof (cases args)
  case Nil
  with assms show ?thesis by simp
next
  case (Cons command rest)
  note a = assms [unfolded Cons parseCommand.simps]
  consider "command = ''ping''" | "command = ''info''" | (c) "command = ''chats''" | (h) "command = ''history''"
    | (m) "command = ''message''" | (l) "command = ''collect''"
    | (other) "command \<noteq> ''ping''" "command \<noteq> ''info''" "command \<noteq> ''chats''" "command \<noteq> ''history''"
        "command \<noteq> ''message''" "command \<noteq> ''collect''" by metis
  then show ?thesis
  proof cases
    case c
    from a obtain fs where "parseFlags chats_flags rest = Some fs" "method = MethodListChats"
      "params = ListChatsParams \<lparr>lc_limit = int_flag fs ''limit''\<rparr>" by (auto simp: c)
    with Cons show ?thesis by (intro chats [of rest]) (simp_all add: c)
  next
    case h
    from a obtain fs where "parseFlags history_flags rest = Some fs" "method = MethodHistory"
      "params = HistoryParams \<lparr>gp_chat_id = int_flag fs ''chat-id'',
         gp_database_generation = string_flag fs ''database-generation'', gp_limit = int_flag fs ''limit''\<rparr>"
      by (auto simp: h)
    with Cons show ?thesis by (intro history [of rest]) (simp_all add: h)
  next
    case m
    from a obtain fs where "parseFlags message_flags rest = Some fs" "method = MethodGetMessage"
      "params = MessageParams \<lparr>gm_chat_id = int_flag fs ''chat-id'',
         gm_database_generation = string_flag fs ''database-generation'', gm_guid = string_flag fs ''guid''\<rparr>"
      by (auto simp: m)
    with Cons show ?thesis by (intro message [of rest]) (simp_all add: m)
  next
    case l
    from a obtain fs where "parseFlags collect_flags rest = Some fs" "method = MethodCollect"
      "params = CollectParams \<lparr>cp_cursor = string_flag fs ''cursor'', cp_after_row_id = int_flag fs ''after-row-id'',
         cp_database_generation = string_flag fs ''database-generation'', cp_limit = int_flag fs ''limit'',
         cp_not_before = string_flag fs ''not-before''\<rparr>" by (auto simp: l)
    with Cons show ?thesis by (intro collect [of rest]) (simp_all add: l)
  next
    case other
    with a show ?thesis by simp
  qed (use a Cons ping info_cmd in \<open>auto split: if_split_asm\<close>)
qed

lemma ran_upd: "P w \<Longrightarrow> \<forall>v \<in> ran m. P v \<Longrightarrow> \<forall>v \<in> ran (m(k \<mapsto> w)). P v"
  by (auto simp: ran_def)

lemma parseCommand_int64:
  assumes "parseCommand args = Some (method, params)"
  shows "params_int64 params"
proof -
  have f: "\<forall>v \<in> ran chats_flags. flag_ok v" "\<forall>v \<in> ran history_flags. flag_ok v"
    "\<forall>v \<in> ran message_flags. flag_ok v" "\<forall>v \<in> ran collect_flags. flag_ok v"
    unfolding chats_flags_def history_flags_def message_flags_def collect_flags_def
    by (intro ran_upd; simp add: flag_ok_def)+
  from assms show ?thesis
  proof (cases rule: parseCommand_cases)
    case chats
    then show ?thesis using int_flag_range [OF chats(2) f(1)] by simp
  next
    case history
    then show ?thesis using int_flag_range [OF history(2) f(2)] by simp
  next
    case message
    then show ?thesis using int_flag_range [OF message(2) f(3)] by simp
  next
    case collect
    then show ?thesis using int_flag_range [OF collect(2) f(4)] by simp
  qed simp_all
qed

lemma hex_encode_graphic: "list_all graphic (hex_encode bs)"
proof -
  have "list_all (\<lambda>n. graphic (hex_digit n)) [0..<16]" by code_simp
  then have "n < 16 \<Longrightarrow> graphic (hex_digit n)" for n by (auto simp: list_all_iff)
  moreover have "byte c div 16 < 16" for c
    using byte_less [of c] by (simp add: less_mult_imp_div_less)
  ultimately show ?thesis by (auto simp: hex_encode_def list_all_iff)
qed

lemma length_hex_encode: "length (hex_encode bs) = 2 * length bs"
  by (induction bs) (simp_all add: hex_encode_def)

lemma requestID_ok:
  assumes "id_sources env"
  shows "requestID env \<noteq> []" "length (requestID env) \<le> 64" "list_all graphic (requestID env)"
proof -
  have d: "graphic c" if "ascii_digit c" for c using that by (simp add: graphic_def ascii_digit_def)
  have "list_all graphic (print_int i)" for i
    using print_nat_digits d by (auto simp: print_int_def list_all_iff graphic_def)
  then show "list_all graphic (requestID env)"
    using hex_encode_graphic by (simp add: requestID_def split: option.split)
  have n: "print_int i \<noteq> []" for i using print_int_hd [of i] by auto
  have h: "length v = 12 \<Longrightarrow> hex_encode v \<noteq> []" for v using length_hex_encode [of v] by auto
  from assms n h show "requestID env \<noteq> []"
    by (auto simp: requestID_def id_sources_def split: option.split)
  have "length (print_int (ce_nanos env)) \<le> 20"
    using assms length_print_int by (simp add: id_sources_def in_int64_def)
  with assms show "length (requestID env) \<le> 64"
    by (auto simp: requestID_def id_sources_def length_hex_encode split: option.split)
qed

lemma graphic_text:
  assumes "s \<noteq> []" "list_all graphic s"
  shows "trim_space s = s" "valid_utf8 s"
proof -
  show "trim_space s = s"
    by (rule trim_space_graphic) (use assms in \<open>simp_all add: list_all_iff\<close>)
  show "valid_utf8 s"
    by (rule ascii_valid) (use assms(2) in \<open>auto simp: list_all_iff graphic_def\<close>)
qed

lemma method_text:
  assumes "m \<in> {MethodSystemPing, MethodSystemInfo, MethodListChats, MethodHistory, MethodGetMessage, MethodCollect}"
  shows "m \<noteq> []" "list_all graphic m" "length m \<le> 128"
proof -
  have "list_all (\<lambda>m. m \<noteq> [] \<and> list_all graphic m \<and> length m \<le> 128)
      [MethodSystemPing, MethodSystemInfo, MethodListChats, MethodHistory, MethodGetMessage, MethodCollect]"
    by code_simp
  with assms show "m \<noteq> []" "list_all graphic m" "length m \<le> 128" by auto
qed

lemma key_text:
  "valid_utf8 ''limit''" "valid_utf8 ''chat_id''" "valid_utf8 ''database_generation''" "valid_utf8 ''guid''"
  "valid_utf8 ''cursor''" "valid_utf8 ''after_row_id''" "valid_utf8 ''not_before''"
  by (rule ascii_valid, simp)+

lemma params_json_wf: "params_utf8 p \<Longrightarrow> json_wf (max_nesting - 1) (params_json p)"
  by (cases p) (auto simp: max_nesting_def omit_int_def omit_string_def key_text)

lemma params_json_object: "\<exists>ms. params_json p = JObj ms"
  by (cases p) simp_all

lemma param_keys:
  "key_is ''limit'' ''limit''" "key_is ''chat_id'' ''chat_id''" "key_is ''guid'' ''guid''"
  "key_is ''database_generation'' ''database_generation''" "key_is ''cursor'' ''cursor''"
  "key_is ''after_row_id'' ''after_row_id''" "key_is ''not_before'' ''not_before''"
  "\<not> key_is ''chat_id'' ''database_generation''" "\<not> key_is ''chat_id'' ''limit''" "\<not> key_is ''chat_id'' ''guid''"
  "\<not> key_is ''database_generation'' ''limit''" "\<not> key_is ''database_generation'' ''guid''"
  "\<not> key_is ''cursor'' ''after_row_id''" "\<not> key_is ''cursor'' ''database_generation''"
  "\<not> key_is ''cursor'' ''limit''" "\<not> key_is ''cursor'' ''not_before''"
  "\<not> key_is ''after_row_id'' ''database_generation''" "\<not> key_is ''after_row_id'' ''limit''"
  "\<not> key_is ''after_row_id'' ''not_before''" "\<not> key_is ''database_generation'' ''not_before''"
  "\<not> key_is ''limit'' ''not_before''"
  by (simp_all add: key_is_plain plain_key_def)

lemma decode_params_print:
  assumes "params_utf8 p" "case params_json p of JObj ms \<Rightarrow> decode_members step zero ms = Some r | _ \<Rightarrow> False"
  shows "DecodeParams step zero (json_print (params_json p)) = Inr r"
proof -
  obtain ms where ms: "params_json p = JObj ms" using params_json_object by blast
  have "json_wf max_nesting (params_json p)" by (rule json_wf_mono [OF params_json_wf [OF assms(1)]]) simp
  then show ?thesis
    using assms(2) unfolding ms by (intro DecodeParams_print) simp_all
qed

lemmas param_simps = in_int64_def omit_int_def omit_string_def list_chats_step_def generation_step_def
  get_message_step_def collect_step_def param_keys dec_jint

lemma received_params:
  assumes "params_utf8 p" "params_int64 p"
  shows "p = EmptyParams \<Longrightarrow> decodeEmpty (json_print (params_json p)) = Inr ()"
    "p = ListChatsParams lp \<Longrightarrow> decode_list_chats (json_print (params_json p)) = Inr lp"
    "p = HistoryParams gp \<Longrightarrow> decode_generation (json_print (params_json p)) = Inr gp"
    "p = MessageParams mp \<Longrightarrow> decode_get_message (json_print (params_json p)) = Inr mp"
    "p = CollectParams cp \<Longrightarrow> decode_collect (json_print (params_json p)) = Inr cp"
proof -
  show "p = EmptyParams \<Longrightarrow> decodeEmpty (json_print (params_json p)) = Inr ()"
    unfolding decodeEmpty_def by (rule decode_params_print [OF assms(1)]) simp
  show "p = ListChatsParams lp \<Longrightarrow> decode_list_chats (json_print (params_json p)) = Inr lp"
    unfolding decode_list_chats_def
    by (rule decode_params_print [OF assms(1)]) (use assms(2) in \<open>auto simp: param_simps\<close>)
  show "p = HistoryParams gp \<Longrightarrow> decode_generation (json_print (params_json p)) = Inr gp"
    unfolding decode_generation_def
    by (rule decode_params_print [OF assms(1)]) (use assms(2) in \<open>auto simp: param_simps\<close>)
  show "p = MessageParams mp \<Longrightarrow> decode_get_message (json_print (params_json p)) = Inr mp"
    unfolding decode_get_message_def
    by (rule decode_params_print [OF assms(1)]) (use assms(2) in \<open>auto simp: param_simps\<close>)
  show "p = CollectParams cp \<Longrightarrow> decode_collect (json_print (params_json p)) = Inr cp"
    unfolding decode_collect_def
    by (rule decode_params_print [OF assms(1)]) (use assms(2) in \<open>auto simp: param_simps\<close>)
qed

lemma cli_request_ok:
  assumes "parseCommand args = Some (method, params)" "params_utf8 params" "id_sources env"
  shows "printable_request (cli_request env method params) (params_json params)
     \<and> ValidateRequest (cli_request env method params) = Inr ()
     \<and> received_as params (cli_request env method params)"
proof (intro conjI)
  note i = requestID_ok [OF assms(3)]
  have m: "method \<in> {MethodSystemPing, MethodSystemInfo, MethodListChats, MethodHistory, MethodGetMessage, MethodCollect}"
    using assms(1) by (cases rule: parseCommand_cases) auto
  note t = method_text [OF m]
  show "printable_request (cli_request env method params) (params_json params)"
    using params_json_wf [OF assms(2)] graphic_text(2) [OF i(1,3)] graphic_text(2) [OF t(1,2)]
    by (simp add: printable_request_def cli_request_def Version1_def)
  obtain ms where ms: "params_json params = JObj ms" using params_json_object by blast
  have "json_wf max_nesting (params_json params)" by (rule json_wf_mono [OF params_json_wf [OF assms(2)]]) simp
  from object_params [OF json_decode_print [OF this, unfolded ms]]
  show "ValidateRequest (cli_request env method params) = Inr ()"
    using i t graphic_text(1) [OF i(1,3)] graphic_text(1) [OF t(1,2)]
    by (simp add: ValidateRequest_def cli_request_def ms del: json_print.simps)
  note r = received_params [OF assms(2) parseCommand_int64 [OF assms(1)]]
  show "received_as params (cli_request env method params)"
    using assms(1) by (cases rule: parseCommand_cases) (use r in \<open>auto simp: cli_request_def simp del: json_print.simps params_json.simps\<close>)
qed

section \<open>Properties\<close>

text \<open>What a command asks for, by its flags' values.\<close>

definition command_flags :: "string \<Rightarrow> flag_set" where
  "command_flags command =
     (if command = ''chats'' then chats_flags else if command = ''history'' then history_flags
      else if command = ''message'' then message_flags else if command = ''collect'' then collect_flags
      else Map.empty)"

definition asks_for :: "string \<Rightarrow> (string \<Rightarrow> int) \<Rightarrow> (string \<Rightarrow> string) \<Rightarrow> request \<Rightarrow> bool" where
  "asks_for command I S req \<longleftrightarrow>
     command = ''ping'' \<and> rq_method req = MethodSystemPing \<and> decodeEmpty (rq_params req) = Inr ()
   \<or> command = ''info'' \<and> rq_method req = MethodSystemInfo \<and> decodeEmpty (rq_params req) = Inr ()
   \<or> command = ''chats'' \<and> rq_method req = MethodListChats
       \<and> decode_list_chats (rq_params req) = Inr \<lparr>lc_limit = I ''limit''\<rparr>
   \<or> command = ''history'' \<and> rq_method req = MethodHistory
       \<and> decode_generation (rq_params req) = Inr \<lparr>gp_chat_id = I ''chat-id'',
           gp_database_generation = S ''database-generation'', gp_limit = I ''limit''\<rparr>
   \<or> command = ''message'' \<and> rq_method req = MethodGetMessage
       \<and> decode_get_message (rq_params req) = Inr \<lparr>gm_chat_id = I ''chat-id'',
           gm_database_generation = S ''database-generation'', gm_guid = S ''guid''\<rparr>
   \<or> command = ''collect'' \<and> rq_method req = MethodCollect
       \<and> decode_collect (rq_params req) = Inr \<lparr>cp_cursor = S ''cursor'', cp_after_row_id = I ''after-row-id'',
           cp_database_generation = S ''database-generation'', cp_limit = I ''limit'', cp_not_before = S ''not-before''\<rparr>"

lemma parsed_flags:
  assumes "parseFlags (command_flags command) (flag_args kvs) = Some fs" "plain_names kvs"
  shows "(command_flags command name = Some (IntFlag 0) \<longrightarrow> int_given kvs name = Some (int_flag fs name))
     \<and> (command_flags command name = Some (StringFlag []) \<longrightarrow> string_flag fs name = string_given kvs name)"
proof -
  have nb: "\<forall>name b. command_flags command name \<noteq> Some (BoolFlag b)"
    by (simp add: command_flags_def chats_flags_def history_flags_def message_flags_def collect_flags_def)
  from assms(1) have "parse_flags (command_flags command) (flag_args kvs) = Some (fs, [])"
    by (auto simp: parseFlags_def split: option.split_asm prod.split_asm if_split_asm)
  note f = parse_flag_args [OF this assms(2) nb, of name]
  show ?thesis
    using f by (auto simp: int_given_def string_given_def int_flag_def string_flag_def set_flag_def split: option.splits)
qed

lemma parse_no_flags: "parseFlags Map.empty rest = Some fs \<longleftrightarrow> rest = [] \<and> fs = Map.empty \<or> rest = [''--''] \<and> fs = Map.empty"
  by (cases rest) (auto simp: parseFlags_def flag_step_def Let_def split: if_split_asm option.split_asm prod.split_asm)

text \<open>C32: What the command line says is what the broker acts on.  Every command the client accepts, with text
  arguments in UTF-8 and twelve random bytes or a 64-bit clock for its id, becomes a request that the client can
  print and the broker accepts; it names the command's method, and the broker decodes its
  parameters, strictly, to exactly the values of the command's flags, each in its own field (\<open>asks_for\<close>).  Where
  the arguments are pairs of \<open>--name\<close> and value, an integer is what \<open>strconv\<close> reads in the last value given for its
  name, or zero when none is given, and a text is the last value given, or empty.  So no integer is out of
  range, no field unknown, and leaving out empty fields changes nothing.\<close>

theorem cli_request_served:
  assumes "parseCommand args = Some (method, params)" "params_utf8 params" "id_sources env"
  shows "printable_request (cli_request env method params) (params_json params)
     \<and> ValidateRequest (cli_request env method params) = Inr ()
     \<and> (\<exists>command rest fs. args = command # rest \<and> parseFlags (command_flags command) rest = Some fs
          \<and> asks_for command (int_flag fs) (string_flag fs) (cli_request env method params)
          \<and> (\<forall>kvs. rest = flag_args kvs \<and> plain_names kvs \<longrightarrow>
               (\<forall>name. command_flags command name = Some (IntFlag 0) \<longrightarrow> int_given kvs name = Some (int_flag fs name))
               \<and> (\<forall>name. command_flags command name = Some (StringFlag []) \<longrightarrow>
                    string_flag fs name = string_given kvs name)))"
proof -
  note ok = cli_request_ok [OF assms]
  have "\<exists>command rest fs. args = command # rest \<and> parseFlags (command_flags command) rest = Some fs
      \<and> asks_for command (int_flag fs) (string_flag fs) (cli_request env method params)"
    using assms(1)
  proof (cases rule: parseCommand_cases)
    case ping
    with ok show ?thesis by (auto simp: asks_for_def cli_request_def command_flags_def parse_no_flags)
  next
    case info_cmd
    with ok show ?thesis by (auto simp: asks_for_def cli_request_def command_flags_def parse_no_flags)
  next
    case chats
    with ok show ?thesis by (simp add: asks_for_def command_flags_def)
  next
    case history
    with ok show ?thesis by (simp add: asks_for_def command_flags_def)
  next
    case message
    with ok show ?thesis by (simp add: asks_for_def command_flags_def)
  next
    case collect
    with ok show ?thesis by (simp add: asks_for_def command_flags_def)
  qed
  then obtain command rest fs where c: "args = command # rest" "parseFlags (command_flags command) rest = Some fs"
    "asks_for command (int_flag fs) (string_flag fs) (cli_request env method params)" by blast
  have "int_given kvs name = Some (int_flag fs name)"
    if "rest = flag_args kvs" "plain_names kvs" "command_flags command name = Some (IntFlag 0)" for kvs name
    using parsed_flags [OF c(2) [unfolded that(1)] that(2), of name] that(3) by blast
  moreover have "string_flag fs name = string_given kvs name"
    if "rest = flag_args kvs" "plain_names kvs" "command_flags command name = Some (StringFlag [])" for kvs name
    using parsed_flags [OF c(2) [unfolded that(1)] that(2), of name] that(3) by blast
  ultimately show ?thesis using ok c by blast
qed

lemma example_command:
  "parseCommand [''history'', ''--chat-id'', ''7'', ''--limit'', ''0x10'', ''--database-generation'', ''g''] =
     Some (MethodHistory, HistoryParams \<lparr>gp_chat_id = 7, gp_database_generation = ''g'', gp_limit = 16\<rparr>)"
  by code_simp

lemma cli_request_served_witness:
  "decode_generation (rq_params (cli_request \<lparr>ce_random = None, ce_nanos = 1, ce_connects = True, ce_answers = [],
       ce_peer = \<lambda>_. []\<rparr> MethodHistory (HistoryParams \<lparr>gp_chat_id = 7, gp_database_generation = ''g'', gp_limit = 16\<rparr>))) =
     Inr \<lparr>gp_chat_id = 7, gp_database_generation = ''g'', gp_limit = 16\<rparr>"
proof -
  let ?p = "HistoryParams \<lparr>gp_chat_id = 7, gp_database_generation = ''g'', gp_limit = 16\<rparr>"
  let ?env = "\<lparr>ce_random = None, ce_nanos = 1, ce_connects = True, ce_answers = [], ce_peer = \<lambda>_. []\<rparr>"
  let ?kvs = "[(''chat-id'', ''7''), (''limit'', ''0x10''), (''database-generation'', ''g'')]"
  have "params_utf8 ?p" using ascii_valid [of "''g''"] by simp
  moreover have "id_sources ?env" by (simp add: id_sources_def in_int64_def)
  ultimately obtain fs where f: "asks_for ''history'' (int_flag fs) (string_flag fs) (cli_request ?env MethodHistory ?p)"
    and g: "\<forall>kvs. [''--chat-id'', ''7'', ''--limit'', ''0x10'', ''--database-generation'', ''g''] = flag_args kvs \<and> plain_names kvs \<longrightarrow>
       (\<forall>name. command_flags ''history'' name = Some (IntFlag 0) \<longrightarrow> int_given kvs name = Some (int_flag fs name))
       \<and> (\<forall>name. command_flags ''history'' name = Some (StringFlag []) \<longrightarrow> string_flag fs name = string_given kvs name)"
    using cli_request_served [OF example_command, of ?env] by auto
  have k: "[''--chat-id'', ''7'', ''--limit'', ''0x10'', ''--database-generation'', ''g''] = flag_args ?kvs" "plain_names ?kvs"
    by (simp_all add: flag_args_def plain_names_def)
  have n: "command_flags ''history'' ''chat-id'' = Some (IntFlag 0)" "command_flags ''history'' ''limit'' = Some (IntFlag 0)"
    "command_flags ''history'' ''database-generation'' = Some (StringFlag [])"
    by (simp_all add: command_flags_def history_flags_def)
  have i: "ParseInt0 ''7'' = Some 7" "ParseInt0 ''0x10'' = Some 16" by code_simp+
  have "int_flag fs ''chat-id'' = 7" "int_flag fs ''limit'' = 16" "string_flag fs ''database-generation'' = ''g''"
    using g [rule_format, OF conjI [OF k]] n i by (auto simp: int_given_def string_given_def)
  with f show ?thesis by (simp add: asks_for_def)
qed

text \<open>How the client prints the broker's reply to its request.\<close>

definition printed_reply :: "reply \<Rightarrow> cli_outcome" where
  "printed_reply resp =
     (case rs_result resp of
        Some r \<Rightarrow> Result (result_json r)
      | None \<Rightarrow> (case rs_error resp of None \<Rightarrow> MissingError | Some e \<Rightarrow> BrokerError (eb_code e) (eb_message e)))"

lemma print_client_view:
  "rs_ok r \<longleftrightarrow> rs_result r \<noteq> None \<Longrightarrow> print_response (client_view r) = printed_reply r"
  by (auto simp: print_response_def client_view_def printed_reply_def split: option.split)

text \<open>C31: The client end to end.  Its arguments name a socket and a command, with text arguments in UTF-8; it has twelve
  random bytes or a 64-bit clock for the id, and it connects, as the authenticated peer, to the broker.  Its request
  is written completely (and is no longer than the broker reads) and the broker's answer too.  Then \<open>dispatch\<close> has
  answered that request, and when the answer's strings are valid UTF-8 the client prints exactly this answer: its
  result, with status 0, or its error code and message, with status 1; or, where the encoded answer is longer than
  8 MiB, the error \<open>response_too_large\<close>, with status 1.  \<open>MissingError\<close> never happens.\<close>

theorem client_prints_reply:
  assumes "parse_flags global_flags args = Some (fs, rest)" "string_flag fs ''socket'' \<noteq> []"
    and "parseCommand rest = Some (method, params)" "params_utf8 params" "id_sources env" "ce_connects env"
    and "marshal_request (cli_request env method params) = Some payload" "length payload \<le> 2 ^ 20"
    and "WriteFrame payload (ce_answers env) = (sent, Some (Inr ()), unused)"
    and "authenticated s c" "concat (cn_input c) = sent"
    and "handleConn s c w = (Some (echo, Some (Inr ()), unused'), w')" "concat (ce_peer env sent) = echo"
  shows "\<exists>resp. dispatch s (cli_request env method params) w = (Some resp, w')
     \<and> (json_wf max_nesting (response_json result_json resp) \<longrightarrow>
          (let fits = length (marshal_response resp) \<le> 8 * 2 ^ 20;
               printed = (if fits then printed_reply resp
                 else BrokerError ''response_too_large'' ''response exceeds transport limit'')
           in run_client env args = Some printed \<and> printed \<noteq> MissingError
             \<and> exit_status printed = (if fits \<and> rs_ok resp then 0 else 1)))"
proof -
  let ?req = "cli_request env method params"
  from cli_request_ok [OF assms(3-5)] have r: "printable_request ?req (params_json params)"
    "ValidateRequest ?req = Inr ()" by blast+
  from call_reply [OF r assms(7-12), of "ce_peer env"] assms(13) obtain resp where d: "dispatch s ?req w = (Some resp, w')"
    "json_wf max_nesting (response_json result_json resp) \<Longrightarrow>
       Call ?req True (ce_answers env) (ce_peer env) = (sent, Some (Inr (client_view (transported resp))))" by blast
  have "well_formed_reply (rq_id ?req) resp" by (rule dispatch_reply_well_formed [OF d(1)])
  note t = well_formed_transported [OF this]
  have ok: "rs_ok (transported resp) \<longleftrightarrow> rs_result (transported resp) \<noteq> None"
    "rs_ok (transported resp) \<longleftrightarrow> rs_error (transported resp) = None" using t by blast+
  have v: "args \<noteq> [''version'']" using assms(1,2) by (auto simp: global_flags_def string_flag_def)
  have nr: "rest \<noteq> []" using assms(3) by auto
  have "run_client env args = Some (printed_reply (transported resp))"
    if "json_wf max_nesting (response_json result_json resp)"
    using assms(1-3,6) v nr d(2) [OF that] by (simp add: run_client_def print_client_view ok(1))
  moreover have "printed_reply (transported resp) \<noteq> MissingError
      \<and> exit_status (printed_reply (transported resp)) = (if rs_ok (transported resp) then 0 else 1)"
    using ok by (auto simp: printed_reply_def split: option.split)
  moreover have "printed_reply (transported resp) = (if length (marshal_response resp) \<le> 8 * 2 ^ 20 then printed_reply resp
      else BrokerError ''response_too_large'' ''response exceeds transport limit'')"
    "rs_ok (transported resp) \<longleftrightarrow> length (marshal_response resp) \<le> 8 * 2 ^ 20 \<and> rs_ok resp"
    by (simp_all add: transported_def maxResponseBytes_def printed_reply_def Failure_def)
  ultimately show ?thesis using d(1) by (intro exI [of _ resp] conjI impI) (simp_all add: Let_def)
qed

lemma print_one: "print_int 1 = ''1''"
  by code_simp

lemma client_prints_reply_witness:
  "\<exists>env. run_client env [''--socket'', ''/s'', ''ping''] = Some (Result (result_json PongResult))"
proof -
  obtain payload c sent echo where e: "marshal_request example_ping = Some payload" "length payload \<le> 2 ^ 20"
    "WriteFrame payload [Wrote 4, Wrote (int (length payload))] = (sent, Some (Inr ()), [])"
    "authenticated example_server c" "concat (cn_input c) = sent"
    "handleConn example_server c [] = (Some (echo, Some (Inr ()), []), [])" by (rule example_exchange)
  let ?env = "\<lparr>ce_random = None, ce_nanos = 1, ce_connects = True,
     ce_answers = [Wrote 4, Wrote (int (length payload))], ce_peer = \<lambda>_. [echo]\<rparr>"
  have f: "parse_flags global_flags [''--socket'', ''/s'', ''ping''] = Some (global_flags(''socket'' \<mapsto> StringFlag ''/s''), [''ping''])"
    by (simp add: flag_step_def split_equals_def global_flags_def set_flag_def)
  have s: "string_flag (global_flags(''socket'' \<mapsto> StringFlag ''/s'')) ''socket'' \<noteq> []" by (simp add: string_flag_def)
  have p: "parseCommand [''ping''] = Some (MethodSystemPing, EmptyParams)" by simp
  have i: "id_sources ?env" by (simp add: id_sources_def in_int64_def)
  have r: "cli_request ?env MethodSystemPing EmptyParams = example_ping"
    using print_one by (simp add: cli_request_def requestID_def example_ping_def Version1_def)
  have h: "params_utf8 EmptyParams" "ce_connects ?env" "concat (ce_peer ?env sent) = echo"
    "WriteFrame payload (ce_answers ?env) = (sent, Some (Inr ()), [])" using e(3) by simp_all
  have small: "length (marshal_response example_pong) \<le> 8 * 2 ^ 20"
    using example_pong_small(2) by (rule contrapos_pp) (simp add: transported_def maxResponseBytes_def Failure_def Success_def)
  from client_prints_reply [OF f s p h(1) i h(2) e(1) [folded r] e(2) h(4) e(4-6) h(3), unfolded r] example_dispatch example_pong_small
  have "run_client ?env [''--socket'', ''/s'', ''ping''] = Some (printed_reply example_pong)" using small by (auto simp: Let_def)
  then show ?thesis by (intro exI [of _ ?env]) (simp add: printed_reply_def Success_def)
qed

end
