(* ===== verification/Daemon.thy ===== *)
theory Daemon
  imports GoFlag Contacts Helper Lifecycle
begin

text \<open>
  The owner's command line (\<open>cmd/safe-imsgd\<close>): starting the broker or checking its configuration
  (\<open>main.go\<close>), and looking at the contact lists (\<open>contacts.go\<close>).  The files are read at different times,
  so each read has its own view of the file system.
\<close>

section \<open>Contacts\<close>

record contacts_env =
  cx_config_fs :: fs
  cx_config_open :: open_env
  cx_policy_fs :: fs
  cx_policy_open :: open_env
  cx_helper :: helper_env
  cx_sys :: osys
  cx_writes :: bool

definition preview_json :: "contacts_source \<Rightarrow> snapshot \<Rightarrow> policy \<Rightarrow> nat \<Rightarrow> bool \<Rightarrow> json" where
  "preview_json source snap effective skipped reveal = JObj (
     [(''activated'', JBool False), (''all_lists'', JBool (cs_group_ids source = None))]
     @ (if reveal then [(''allowed_direct'', JArr (map JStr (DirectIdentities effective)))] else [])
     @ [(''contact_count'', jint (case sn_contacts snap of None \<Rightarrow> 0 | Some cs \<Rightarrow> int (length cs))),
        (''container_id'', JStr (cs_container_id source)),
        (''effective_direct_identity_count'', jint (int (length (DirectIdentities effective)))),
        (''group_ids'', case sn_group_ids snap of None \<Rightarrow> JNull | Some ids \<Rightarrow> JArr (map JStr ids)),
        (''skipped_field_count'', jint (int skipped)), (''status'', JStr ''ok''),
        (''upstream_sync_freshness'', JStr ''unknown'')])"

definition preview_snapshot :: "contacts_source \<Rightarrow> policy \<Rightarrow> bool \<Rightarrow> snapshot \<Rightarrow> contacts_error + json" where
  "preview_snapshot source base reveal snap =
     (case Identities source snap of
        Inl e \<Rightarrow> Inl e
      | Inr (identities, skipped) \<Rightarrow>
          (case WithDirect base identities of
             Inl _ \<Rightarrow> Inl (Code Invalid)
           | Inr effective \<Rightarrow> Inr (preview_json source snap effective skipped reveal)))"

text \<open>\<open>None\<close> while the helper's connection has not taken the request.\<close>

definition previewContacts :: "contacts_env \<Rightarrow> string \<Rightarrow> bool \<Rightarrow> (contacts_error + json) option" where
  "previewContacts env path reveal =
     (case LoadConfig (cx_config_fs env) (cx_config_open env) path of
        Inl _ \<Rightarrow> Some (Inl (Code InvalidConfig))
      | Inr cfg \<Rightarrow>
          (case cf_contacts cfg of
             None \<Rightarrow> Some (Inl (Code InvalidConfig))
           | Some source \<Rightarrow>
               (case LoadPolicy (cx_policy_fs env) (cx_policy_open env) (cf_policy_path cfg) of
                  Inl _ \<Rightarrow> Some (Inl (Code InvalidConfig))
                | Inr base \<Rightarrow>
                    (case Fetch (cx_helper env) source of
                       None \<Rightarrow> None
                     | Some (Inl e) \<Rightarrow> Some (Inl (Code e))
                     | Some (Inr snap) \<Rightarrow> Some (preview_snapshot source base reveal snap)))))"

definition discovery_json :: "discovery \<Rightarrow> json" where
  "discovery_json d =
     (let group = \<lambda>g. JObj [(''id'', JStr (cg_id g)), (''name'', JStr (cg_name g))];
          container = \<lambda>c. JObj [(''id'', JStr (ck_id c)), (''name'', JStr (ck_name c)), (''type'', JStr (ck_type c)),
            (''groups'', case ck_groups c of None \<Rightarrow> JNull | Some gs \<Rightarrow> JArr (map group gs))]
      in JObj [(''containers'', case dv_containers d of None \<Rightarrow> JNull | Some cs \<Rightarrow> JArr (map container cs))])"

definition contacts_flags :: flag_set where
  "contacts_flags = [''helper'' \<mapsto> StringFlag [], ''config'' \<mapsto> StringFlag [], ''show-identities'' \<mapsto> BoolFlag False]"

text \<open>The arguments as a command: discovery by a helper, or a preview.\<close>

datatype contacts_command = Groups string | Preview string bool

definition parse_contacts :: "string list \<Rightarrow> contacts_command option" where
  "parse_contacts args =
     (case args of
        [] \<Rightarrow> None
      | command # rest \<Rightarrow>
          if command \<noteq> ''groups'' \<and> command \<noteq> ''preview'' then None
          else (case parse_flags contacts_flags rest of
              None \<Rightarrow> None
            | Some (fs, operands) \<Rightarrow>
                let helper = string_flag fs ''helper''; config = string_flag fs ''config'';
                    reveal = bool_flag fs ''show-identities''
                in
                if operands \<noteq> [] then None
                else if command = ''groups'' \<and> (helper = [] \<or> config \<noteq> [] \<or> reveal) then None
                else if command = ''preview'' \<and> (config = [] \<or> helper \<noteq> []) then None
                else Some (if command = ''groups'' then Groups helper else Preview config reveal)))"

definition contacts_failure :: "contacts_error \<Rightarrow> json" where
  "contacts_failure e = JObj [(''code'', JStr (ErrorCode e)), (''status'', JStr ''error'')]"

text \<open>The exit status, and what was printed on the standard output.\<close>

definition contactsCommand :: "contacts_env \<Rightarrow> string list \<Rightarrow> (nat \<times> json option) option" where
  "contactsCommand env args =
     (case parse_contacts args of
        None \<Rightarrow> Some (2, None)
      | Some command \<Rightarrow>
          map_option (\<lambda>result.
            if \<not> cx_writes env then (1, None)
            else (case result of Inl e \<Rightarrow> (1, Some (contacts_failure e)) | Inr v \<Rightarrow> (0, Some v)))
          (case command of
             Groups helper \<Rightarrow> map_option (map_sum Code discovery_json) (Discover (cx_helper env) helper)
           | Preview path reveal \<Rightarrow> previewContacts env path reveal))"

text \<open>What the exchange with the helper does to the disk (\<open>exchangeDesktop\<close>): a directory of the caller's
  that \<open>os.MkdirTemp\<close> makes, a socket in it, both removed when the exchange is over; that the directory
  cannot be removed is ignored.\<close>

definition unlink :: "string \<Rightarrow> disk \<Rightarrow> disk" where
  "unlink path d = d\<lparr>dk_names := (dk_names d)(path := None)\<rparr>"

definition temp_socket :: "string \<Rightarrow> string" where
  "temp_socket dir = Join dir ''rpc.sock''"

definition desktop_disk :: "osys \<Rightarrow> desktop_env \<Rightarrow> json \<Rightarrow> bool \<Rightarrow> disk \<Rightarrow> disk" where
  "desktop_disk sys env req returns d =
     (if length (json_print req) > 64 * 1024 then d
      else (case de_tempdir env of
          None \<Rightarrow> d
        | Some dir \<Rightarrow>
            let d = new_file DirFile (0x1C0 AND NOT (os_umask sys)) (os_euid sys) dir d;
                listens = (CheckParents (de_fs env) (temp_socket dir) = Inr () \<and> de_listens env);
                ino = dk_next d;
                d = (if listens
                     then new_file SocketFile (0x1FF AND NOT (os_umask sys)) (os_euid sys) (temp_socket dir) d else d);
                d = (if listens \<and> de_chmods env then set_node ino ((dk_nodes d ino)\<lparr>nd_perm := 0x180\<rparr>) d else d)
            in if \<not> returns then d
               else
                 let d = (if listens then unlink (temp_socket dir) d else d)
                 in if os_faults sys RemoveTemp then d else unlink dir d))"

definition runHelper_disk :: "osys \<Rightarrow> helper_env \<Rightarrow> string \<Rightarrow> json \<Rightarrow> bool \<Rightarrow> disk \<Rightarrow> disk" where
  "runHelper_disk sys env path req returns d =
     (case CheckHelper (hp_goos env) (hp_fs env) (hp_open env) path of
        Inl _ \<Rightarrow> d
      | Inr _ \<Rightarrow>
          (case helperBundle (hp_fs_later env) (hp_open_later env) path of
             Inl _ \<Rightarrow> d
           | Inr _ \<Rightarrow> desktop_disk sys (hp_desktop env) req returns d))"

definition contacts_disk :: "contacts_env \<Rightarrow> string list \<Rightarrow> disk \<Rightarrow> disk" where
  "contacts_disk env args d =
     (case parse_contacts args of
        None \<Rightarrow> d
      | Some (Groups helper) \<Rightarrow>
          runHelper_disk (cx_sys env) (cx_helper env) helper discover_request
            (Discover (cx_helper env) helper \<noteq> None) d
      | Some (Preview path reveal) \<Rightarrow>
          (case LoadConfig (cx_config_fs env) (cx_config_open env) path of
             Inl _ \<Rightarrow> d
           | Inr cfg \<Rightarrow>
               (case cf_contacts cfg of
                  None \<Rightarrow> d
                | Some source \<Rightarrow>
                    (case LoadPolicy (cx_policy_fs env) (cx_policy_open env) (cf_policy_path cfg) of
                       Inl _ \<Rightarrow> d
                     | Inr _ \<Rightarrow> runHelper_disk (cx_sys env) (cx_helper env) (cs_helper_path source)
                         (snapshot_request source) (Fetch (cx_helper env) source \<noteq> None) d))))"

section \<open>Starting the broker\<close>

record daemon_env =
  dm_config_fs :: fs
  dm_config_open :: open_env
  dm_boot :: boot_env
  dm_policy_fs :: fs
  dm_policy_open :: open_env
  dm_place_fs :: fs
  dm_place_sys :: osys
  dm_dial :: dial
  dm_contacts :: contacts_env

datatype daemon_outcome =
    DaemonVersion
  | DaemonArguments
  | ConfigError config_error
  | NewError new_error
  | PolicyInvalid policy_error
  | ConfigurationValid
  | RunError run_error
  | ServingAt built nat nat
  | ContactsOutcome nat "json option"

text \<open>The exit status; a broker that serves has none yet, \<open>Run\<close> decides it.\<close>

fun daemon_status :: "daemon_outcome \<Rightarrow> nat option" where
  "daemon_status DaemonVersion = Some 0"
| "daemon_status ConfigurationValid = Some 0"
| "daemon_status DaemonArguments = Some 2"
| "daemon_status (ContactsOutcome status printed) = Some status"
| "daemon_status (ServingAt server lock created) = None"
| "daemon_status _ = Some 1"

text \<open>The command and the path of its configuration; the flags of \<open>run\<close> and of \<open>config validate\<close>.\<close>

definition config_flags :: flag_set where
  "config_flags = [''config'' \<mapsto> StringFlag []]"

definition parse_config_path :: "string list \<Rightarrow> string option" where
  "parse_config_path args = (case parse_flags config_flags args of
      None \<Rightarrow> None
    | Some (fs, rest) \<Rightarrow> if string_flag fs ''config'' = [] \<or> rest \<noteq> [] then None else Some (string_flag fs ''config''))"

definition parse_daemon :: "string list \<Rightarrow> (bool \<times> string) option" where
  "parse_daemon args = (case args of
      [] \<Rightarrow> None
    | command # rest \<Rightarrow>
        if command = ''config'' then
          (case rest of
             [] \<Rightarrow> None
           | sub # flags \<Rightarrow> if sub \<noteq> ''validate'' then None else map_option (Pair False) (parse_config_path flags))
        else if command \<noteq> ''run'' \<and> command \<noteq> ''validate'' then None
        else map_option (Pair (command = ''run'')) (parse_config_path rest))"

definition start_broker ::
  "(bytes \<Rightarrow> bytes) \<Rightarrow> (bytes \<Rightarrow> aead) \<Rightarrow> daemon_env \<Rightarrow> bool \<Rightarrow> config \<Rightarrow> disk \<Rightarrow> daemon_outcome \<times> disk" where
  "start_broker sha256 gcm env runs cfg d =
     (case NewWithDeps sha256 gcm (dm_boot env) cfg d of
        (Inl e, d) \<Rightarrow> (NewError e, d)
      | (Inr server, d) \<Rightarrow>
          (case LoadPolicy (dm_policy_fs env) (dm_policy_open env) (cf_policy_path cfg) of
             Inl e \<Rightarrow> (PolicyInvalid e, d)
           | Inr _ \<Rightarrow>
               if \<not> runs then (ConfigurationValid, d)
               else (case take_place (dm_place_fs env) (dm_place_sys env) (dm_dial env) cfg d of
                   (Inl e, d) \<Rightarrow> (RunError e, d)
                 | (Inr (lock, created), d) \<Rightarrow> (ServingAt server lock created, d))))"

text \<open>\<open>ServingAt\<close> is the broker in its accept loop (\<open>serves\<close>).\<close>

definition run_daemon ::
  "(bytes \<Rightarrow> bytes) \<Rightarrow> (bytes \<Rightarrow> aead) \<Rightarrow> daemon_env \<Rightarrow> string list \<Rightarrow> disk \<Rightarrow> daemon_outcome option \<times> disk" where
  "run_daemon sha256 gcm env args d =
     (if args = [''version''] then (Some DaemonVersion, d)
      else if args \<noteq> [] \<and> hd args = ''contacts''
      then (map_option (\<lambda>(status, printed). ContactsOutcome status printed)
              (contactsCommand (dm_contacts env) (tl args)), contacts_disk (dm_contacts env) (tl args) d)
      else (case parse_daemon args of
          None \<Rightarrow> (Some DaemonArguments, d)
        | Some (runs, path) \<Rightarrow>
            (case LoadConfig (dm_config_fs env) (dm_config_open env) path of
               Inl e \<Rightarrow> (Some (ConfigError e), d)
             | Inr cfg \<Rightarrow> apfst Some (start_broker sha256 gcm env runs cfg d))))"

section \<open>What a preview shows\<close>

lemma WithDirect_granted:
  "WithDirect p (sorted_list_of_set (granted source snap)) =
     Inr (p\<lparr>direct := direct p \<union> (granted source snap - owners p)\<rparr>)"
proof -
  have "map_sum_list NormalizeIdentity (sorted_list_of_set (granted source snap)) =
      Inr (sorted_list_of_set (granted source snap))"
    by (rule identity.norm_all_normal) (simp add: finite_granted granted_normal)
  then show ?thesis
    by (subst WithDirect_iff) (simp add: finite_granted)
qed

lemma preview_snapshot_iff:
  "preview_snapshot source base reveal snap = Inr j \<longleftrightarrow> snapshot_ok source snap
     \<and> j = preview_json source snap (base\<lparr>direct := direct base \<union> (granted source snap - owners base)\<rparr>)
          (omitted source snap) reveal"
proof (cases "Identities source snap")
  case (Inl e)
  with Identities_iff [of source snap] show ?thesis by (auto simp: preview_snapshot_def)
next
  case (Inr r)
  obtain ids k where r: "r = (ids, k)" by fastforce
  with Inr Identities_iff [of source snap ids k]
  have "snapshot_ok source snap" "ids = sorted_list_of_set (granted source snap)" "k = omitted source snap" by auto
  with Inr r show ?thesis by (auto simp: preview_snapshot_def WithDirect_granted)
qed

section \<open>What starting does\<close>

lemma read_key_disk:
  "calm sys \<Longrightarrow> read_key sys random written ino d = (r, d') \<Longrightarrow> dk_names d' = dk_names d \<and> dk_locks d' = dk_locks d"
  by (auto simp: read_key_def create_key_def calm_def Let_def set_node_def split: if_split_asm sum.split_asm prod.split_asm)

lemma load_key_disk:
  assumes "calm sys" "load_key f sys random written path d = (r, d')"
  shows "dk_locks d' = dk_locks d \<and> (\<forall>q. q \<noteq> path \<longrightarrow> dk_names d' q = dk_names d q)"
proof (cases "\<exists>ino d1. CheckParents f path = Inr () \<and> acquireLock sys path d = (Inr ino, d1)")
  case True
  then obtain ino d1 where a: "CheckParents f path = Inr ()" "acquireLock sys path d = (Inr ino, d1)" by blast
  obtain r' d2 where k: "read_key sys random written ino d1 = (r', d2)" by fastforce
  from a k assms(2) have "d' = release ino d2" by (auto simp: load_key_def)
  with acquireLock_calm [OF assms(1) a(2)] read_key_disk [OF assms(1) k] show ?thesis
    by (auto simp: release_def locked_by_def new_file_def)
next
  case False
  then consider e where "CheckParents f path = Inl e" | e d1 where "CheckParents f path = Inr ()" "acquireLock sys path d = (Inl e, d1)"
    by (cases "CheckParents f path"; cases "acquireLock sys path d"; cases "fst (acquireLock sys path d)") auto
  then show ?thesis
  proof cases
    case 1
    with assms(2) show ?thesis by (auto simp: load_key_def)
  next
    case 2
    with assms(2) have "d' = d1" by (auto simp: load_key_def)
    with acquireLock_fails [OF assms(1) 2(2)] show ?thesis by simp
  qed
qed

definition key_path :: "config \<Rightarrow> string" where
  "key_path cfg = cf_policy_path cfg @ ''.cursor-key''"

lemma NewWithDeps_disk:
  assumes "calm (bo_sys env)" "NewWithDeps sha256 gcm env cfg d = (r, d')"
  shows "dk_locks d' = dk_locks d \<and> (\<forall>q. q \<noteq> key_path cfg \<longrightarrow> dk_names d' q = dk_names d q)"
proof -
  obtain k d1 where k: "load_key (be_fs (bo_backend env)) (bo_sys env) (bo_random env) (bo_written env) (key_path cfg) d = (k, d1)"
    by fastforce
  then have c: "loadCursorCipher gcm (be_fs (bo_backend env)) (bo_sys env) (bo_random env) (bo_written env)
      (cf_policy_path cfg @ ''.cursor-key'') d = (map_sum id gcm k, d1)"
    by (simp add: loadCursorCipher_def key_path_def)
  have "d' = d \<or> d' = d1"
    using assms(2) unfolding NewWithDeps_def Let_def c
    by (auto split: sum.split_asm option.split_asm)
  with load_key_disk [OF assms(1) k] show ?thesis by auto
qed

lemma read_key_length: "read_key sys random written ino d = (Inr k, d') \<Longrightarrow> length k = 32"
  by (auto simp: read_key_def Let_def split: if_split_asm sum.split_asm prod.split_asm)

lemma load_key_length: "load_key f sys random written path d = (Inr k, d') \<Longrightarrow> length k = 32"
  by (auto simp: load_key_def dest: read_key_length split: sum.split_asm prod.split_asm)

lemma NewWithDeps_built:
  assumes "NewWithDeps sha256 gcm env cfg d = (Inr server, d')"
  shows "backend_New sha256 (bo_backend env) cfg = Inr (bu_process server)
     \<and> (\<exists>k. length k = 32 \<and> bu_cipher server = gcm k)
     \<and> (case cf_contacts cfg of None \<Rightarrow> bu_contacts server = None
        | Some source \<Rightarrow> bu_contacts server = Some NewManager
            \<and> CheckHelper (bo_goos env) (be_fs (bo_backend env)) (be_open (bo_backend env)) (cs_helper_path source) = Inr ())"
proof -
  from assms obtain p c d1 where n: "backend_New sha256 (bo_backend env) cfg = Inr p"
    "loadCursorCipher gcm (be_fs (bo_backend env)) (bo_sys env) (bo_random env) (bo_written env)
      (cf_policy_path cfg @ ''.cursor-key'') d = (Inr c, d1)"
    by (auto simp: NewWithDeps_def Let_def split: sum.split_asm prod.split_asm)
  from n(2) have "\<exists>k. length k = 32 \<and> c = gcm k"
    unfolding loadCursorCipher_def by (auto simp: apfst_def map_prod_def map_sum_def dest: load_key_length split: prod.split_asm sum.split_asm)
  with assms n show ?thesis
    by (auto simp: NewWithDeps_def Let_def split: sum.split_asm option.split_asm)
qed

lemma start_broker_disk:
  assumes "calm (bo_sys (dm_boot env))" "calm (dm_place_sys env)" "start_broker sha256 gcm env runs cfg d = (out, d')"
  shows "(\<forall>q. dk_names d' q \<noteq> dk_names d q \<longrightarrow> q \<in> {key_path cfg, cf_socket_path cfg, lock_path (cf_socket_path cfg)}
          \<or> runs \<and> new_dir_for (dm_place_sys env) (cf_socket_path cfg) q d d')
     \<and> ((\<forall>server lock created. out \<noteq> ServingAt server lock created) \<longrightarrow> dk_locks d' = dk_locks d)"
proof -
  obtain n d1 where n: "NewWithDeps sha256 gcm (dm_boot env) cfg d = (n, d1)" by fastforce
  note k = NewWithDeps_disk [OF assms(1) n]
  obtain r d2 where t: "take_place (dm_place_fs env) (dm_place_sys env) (dm_dial env) cfg d1 = (r, d2)" by fastforce
  note p = take_place_ok [OF assms(2) t]
  have names: "q \<in> {key_path cfg, cf_socket_path cfg, lock_path (cf_socket_path cfg)}
      \<or> new_dir_for (dm_place_sys env) (cf_socket_path cfg) q d d2" if "dk_names d2 q \<noteq> dk_names d q" for q
  proof (cases "q \<in> {key_path cfg, cf_socket_path cfg, lock_path (cf_socket_path cfg)}")
    case False
    then have "dk_names d1 q = dk_names d q" using k by simp
    with that take_place_names [OF assms(2) t, of q] False show ?thesis by (auto simp: new_dir_for_def)
  qed simp
  have "d' = d1 \<and> (\<forall>server lock created. out \<noteq> ServingAt server lock created)
      \<or> runs \<and> d' = d2 \<and> ((\<exists>e. r = Inl e) \<or> (\<exists>server lock created. out = ServingAt server lock created))"
    using assms(3) n t by (auto simp: start_broker_def split: sum.split_asm if_split_asm prod.split_asm)
  then show ?thesis
  proof (elim disjE conjE)
    assume "d' = d1"
    with k show ?thesis by auto
  next
    assume d: "runs" "d' = d2" and e: "\<exists>e. r = Inl e"
    from e p have "dk_locks d2 = dk_locks d1" by blast
    with d names k show ?thesis by auto
  next
    assume "runs" "d' = d2" "\<exists>server lock created. out = ServingAt server lock created"
    with names show ?thesis by blast
  qed
qed

lemma desktop_disk_names:
  assumes "\<forall>dir. de_tempdir env = Some dir \<longrightarrow> dk_names d dir = None \<and> dk_names d (temp_socket dir) = None"
  shows "dk_locks (desktop_disk sys env req returns d) = dk_locks d
     \<and> (\<forall>q. dk_names (desktop_disk sys env req returns d) q \<noteq> dk_names d q \<longrightarrow> (\<exists>dir. de_tempdir env = Some dir
          \<and> (q = dir \<and> os_faults sys RemoveTemp \<or> \<not> returns \<and> q \<in> {dir, temp_socket dir})))"
  using assms
  by (auto simp: desktop_disk_def Let_def new_file_def set_node_def unlink_def split: option.split)

lemma contacts_disk_cases:
  "contacts_disk env args d = d \<or> (\<exists>path req returns.
     contacts_disk env args d = runHelper_disk (cx_sys env) (cx_helper env) path req returns d
     \<and> (\<not> returns \<longrightarrow> contactsCommand env args = None))"
proof (cases "parse_contacts args")
  case (Some command)
  show ?thesis
  proof (cases command)
    case (Groups helper)
    with Some show ?thesis
      by (intro disjI2 exI [of _ helper] exI [of _ discover_request] exI [of _ "Discover (cx_helper env) helper \<noteq> None"])
        (simp add: contacts_disk_def contactsCommand_def)
  next
    case (Preview path reveal)
    show ?thesis
    proof (cases "\<exists>cfg source base. LoadConfig (cx_config_fs env) (cx_config_open env) path = Inr cfg
        \<and> cf_contacts cfg = Some source \<and> LoadPolicy (cx_policy_fs env) (cx_policy_open env) (cf_policy_path cfg) = Inr base")
      case True
      then obtain cfg source base where c: "LoadConfig (cx_config_fs env) (cx_config_open env) path = Inr cfg"
        "cf_contacts cfg = Some source"
        "LoadPolicy (cx_policy_fs env) (cx_policy_open env) (cf_policy_path cfg) = Inr base" by blast
      with Some Preview show ?thesis
        by (intro disjI2 exI [of _ "cs_helper_path source"] exI [of _ "snapshot_request source"]
            exI [of _ "Fetch (cx_helper env) source \<noteq> None"])
          (simp add: contacts_disk_def contactsCommand_def previewContacts_def)
    next
      case False
      with Some Preview show ?thesis by (auto simp: contacts_disk_def split: sum.split option.split)
    qed
  qed
qed (simp add: contacts_disk_def)

lemma contacts_disk_names:
  assumes "\<forall>dir. de_tempdir (hp_desktop (cx_helper env)) = Some dir \<longrightarrow>
       dk_names d dir = None \<and> dk_names d (temp_socket dir) = None"
  shows "dk_locks (contacts_disk env args d) = dk_locks d
     \<and> (\<forall>q. dk_names (contacts_disk env args d) q \<noteq> dk_names d q \<longrightarrow>
          (\<exists>dir. de_tempdir (hp_desktop (cx_helper env)) = Some dir
          \<and> (q = dir \<and> os_faults (cx_sys env) RemoveTemp
             \<or> contactsCommand env args = None \<and> q \<in> {dir, temp_socket dir})))"
proof -
  let ?R = "runHelper_disk (cx_sys env) (cx_helper env)"
  have d: "dk_locks (?R path req returns d) = dk_locks d
     \<and> (\<forall>q. dk_names (?R path req returns d) q \<noteq> dk_names d q \<longrightarrow> (\<exists>dir. de_tempdir (hp_desktop (cx_helper env)) = Some dir
          \<and> (q = dir \<and> os_faults (cx_sys env) RemoveTemp \<or> \<not> returns \<and> q \<in> {dir, temp_socket dir})))" for path req returns
    using desktop_disk_names [OF assms, of "cx_sys env" req returns] by (simp add: runHelper_disk_def split: sum.split)
  from contacts_disk_cases [of env args d] show ?thesis
  proof (elim disjE exE conjE)
    fix path req returns
    assume "contacts_disk env args d = ?R path req returns d" "\<not> returns \<longrightarrow> contactsCommand env args = None"
    with d [of path req returns] show ?thesis by auto
  qed simp
qed

lemma start_broker_serves:
  assumes "calm (dm_place_sys env)" "start_broker sha256 gcm env runs cfg d = (ServingAt server lock created, d')"
  obtains base d1 where "runs" "NewWithDeps sha256 gcm (dm_boot env) cfg d = (Inr server, d1)"
    "LoadPolicy (dm_policy_fs env) (dm_policy_open env) (cf_policy_path cfg) = Inr base"
    "take_place (dm_place_fs env) (dm_place_sys env) (dm_dial env) cfg d1 = (Inr (lock, created), d')"
  using assms(2) by (auto simp: start_broker_def split: sum.split_asm if_split_asm prod.split_asm)

text \<open>What a broker that serves has checked and holds.\<close>

definition checked_start ::
  "(bytes \<Rightarrow> bytes) \<Rightarrow> (bytes \<Rightarrow> aead) \<Rightarrow> daemon_env \<Rightarrow> config \<Rightarrow> built \<Rightarrow> nat \<Rightarrow> nat \<Rightarrow> disk \<Rightarrow> bool" where
  "checked_start sha256 gcm env cfg server lock created d \<longleftrightarrow>
     config_bounds (unat (fs_euid (dm_config_fs env))) cfg
     \<and> backend_New sha256 (bo_backend (dm_boot env)) cfg = Inr (bu_process server)
     \<and> (\<exists>k. length k = 32 \<and> bu_cipher server = gcm k)
     \<and> (\<forall>source. cf_contacts cfg = Some source \<longrightarrow> CheckHelper (bo_goos (dm_boot env))
           (be_fs (bo_backend (dm_boot env))) (be_open (bo_backend (dm_boot env))) (cs_helper_path source) = Inr ())
     \<and> (\<exists>base. LoadPolicy (dm_policy_fs env) (dm_policy_open env) (cf_policy_path cfg) = Inr base \<and> policy_wf base)
     \<and> checkSocketDir (dm_place_fs env) (Dir (cf_socket_path cfg)) = Inr ()
     \<and> dk_names d (lock_path (cf_socket_path cfg)) = Some lock
     \<and> dk_locks d lock = Some (os_pid (dm_place_sys env))
     \<and> dk_names d (cf_socket_path cfg) = Some created
     \<and> Some (nd_perm (dk_nodes d created)) = SocketFileMode cfg"

lemma start_broker_checked:
  assumes "calm (dm_place_sys env)" "LoadConfig (dm_config_fs env) (dm_config_open env) path = Inr cfg"
    and "start_broker sha256 gcm env runs cfg d = (ServingAt server lock created, d')"
  shows "runs" "checked_start sha256 gcm env cfg server lock created d'"
proof -
  from start_broker_serves [OF assms(1,3)] obtain base d1 where s: "runs"
    "NewWithDeps sha256 gcm (dm_boot env) cfg d = (Inr server, d1)"
    "LoadPolicy (dm_policy_fs env) (dm_policy_open env) (cf_policy_path cfg) = Inr base"
    "take_place (dm_place_fs env) (dm_place_sys env) (dm_dial env) cfg d1 = (Inr (lock, created), d')" .
  show "runs" by (rule s(1))
  have b: "config_bounds (unat (fs_euid (dm_config_fs env))) cfg"
    using assms(2) Validate_iff by (auto simp: LoadConfig_def split: sum.split_asm decoded.split_asm)
  then obtain mode where m: "SocketFileMode cfg = Some mode" by (auto simp: config_bounds_def)
  have p: "policy_wf base"
    using s(3) by (auto simp: LoadPolicy_def intro: build_policy_wf split: sum.split_asm decoded.split_asm)
  have h: "CheckHelper (bo_goos (dm_boot env)) (be_fs (bo_backend (dm_boot env)))
      (be_open (bo_backend (dm_boot env))) (cs_helper_path source) = Inr ()" if "cf_contacts cfg = Some source" for source
    using NewWithDeps_built [OF s(2)] that by simp
  have t: "checkSocketDir (dm_place_fs env) (Dir (cf_socket_path cfg)) = Inr ()"
    "dk_locks d' = (dk_locks d1)(lock \<mapsto> os_pid (dm_place_sys env))"
    "dk_names d' (lock_path (cf_socket_path cfg)) = Some lock" "dk_names d' (cf_socket_path cfg) = Some created"
    "nd_perm (dk_nodes d' created) = mode"
    using take_place_ok [OF assms(1) s(4)] m by blast+
  then have "dk_locks d' lock = Some (os_pid (dm_place_sys env))" "Some (nd_perm (dk_nodes d' created)) = SocketFileMode cfg"
    using m by simp_all
  with b p h t(1,3,4) s(3) NewWithDeps_built [OF s(2)]
  show "checked_start sha256 gcm env cfg server lock created d'" unfolding checked_start_def by blast
qed

lemma run_daemon_cases:
  assumes "run_daemon sha256 gcm env args d = (out, d')"
  obtains (idle) "d' = d" "\<forall>server lock created. out \<noteq> Some (ServingAt server lock created)"
  | (contacts) "args \<noteq> []" "hd args = ''contacts''" "d' = contacts_disk (dm_contacts env) (tl args) d"
      "\<forall>server lock created. out \<noteq> Some (ServingAt server lock created)"
      "contactsCommand (dm_contacts env) (tl args) = None \<Longrightarrow> out = None"
  | (start) runs path cfg o' where "parse_daemon args = Some (runs, path)"
      "LoadConfig (dm_config_fs env) (dm_config_open env) path = Inr cfg" "out = Some o'"
      "start_broker sha256 gcm env runs cfg d = (o', d')"
  using assms
  by (auto simp: run_daemon_def apfst_def map_prod_def split: if_split_asm option.split_asm sum.split_asm prod.split_asm)

section \<open>Properties\<close>

text \<open>C34: What a preview discloses.  It succeeds exactly when the configuration names contact lists, the
  policy loads, and the helper returns an acceptable snapshot; it then reports what the broker would
  grant (the policy's own identities and those of the lists that are not the owner's), as counts, and
  the identities themselves only if asked to; it never claims to have activated anything.\<close>

theorem preview_output:
  "previewContacts env path reveal = Some (Inr j) \<longleftrightarrow>
     (\<exists>cfg source base snap contacts groups. LoadConfig (cx_config_fs env) (cx_config_open env) path = Inr cfg
        \<and> cf_contacts cfg = Some source
        \<and> LoadPolicy (cx_policy_fs env) (cx_policy_open env) (cf_policy_path cfg) = Inr base
        \<and> Fetch (cx_helper env) source = Some (Inr snap) \<and> snapshot_ok source snap
        \<and> sn_contacts snap = Some contacts \<and> sn_group_ids snap = Some groups
        \<and> (let effective = direct base \<union> (granted source snap - owners base) in
           j = JObj ([(''activated'', JBool False), (''all_lists'', JBool (cs_group_ids source = None))]
             @ (if reveal then [(''allowed_direct'', JArr (map JStr (sorted_list_of_set effective)))] else [])
             @ [(''contact_count'', jint (int (length contacts))), (''container_id'', JStr (cs_container_id source)),
                (''effective_direct_identity_count'', jint (int (card effective))),
                (''group_ids'', JArr (map JStr groups)),
                (''skipped_field_count'', jint (int (omitted source snap))), (''status'', JStr ''ok''),
                (''upstream_sync_freshness'', JStr ''unknown'')])))"
proof -
  have "previewContacts env path reveal = Some (Inr j) \<longleftrightarrow>
     (\<exists>cfg source base snap. LoadConfig (cx_config_fs env) (cx_config_open env) path = Inr cfg
        \<and> cf_contacts cfg = Some source
        \<and> LoadPolicy (cx_policy_fs env) (cx_policy_open env) (cf_policy_path cfg) = Inr base
        \<and> Fetch (cx_helper env) source = Some (Inr snap) \<and> preview_snapshot source base reveal snap = Inr j)"
    by (auto simp: previewContacts_def split: sum.split option.split)
  moreover have "preview_snapshot source base reveal snap = Inr j \<longleftrightarrow> (\<exists>contacts groups. snapshot_ok source snap
        \<and> sn_contacts snap = Some contacts \<and> sn_group_ids snap = Some groups
        \<and> (let effective = direct base \<union> (granted source snap - owners base) in
           j = JObj ([(''activated'', JBool False), (''all_lists'', JBool (cs_group_ids source = None))]
             @ (if reveal then [(''allowed_direct'', JArr (map JStr (sorted_list_of_set effective)))] else [])
             @ [(''contact_count'', jint (int (length contacts))), (''container_id'', JStr (cs_container_id source)),
                (''effective_direct_identity_count'', jint (int (card effective))),
                (''group_ids'', JArr (map JStr groups)),
                (''skipped_field_count'', jint (int (omitted source snap))), (''status'', JStr ''ok''),
                (''upstream_sync_freshness'', JStr ''unknown'')])))" for source base snap
    unfolding preview_snapshot_iff
    by (auto simp: preview_json_def DirectIdentities_def Let_def snapshot_ok_def)
  ultimately show ?thesis by (simp only:) blast
qed


text \<open>A daemon that starts on a disk with nothing but the root directory, with a policy of one owner.\<close>

definition example_policy_json :: json where
  "example_policy_json = JObj [(''messages'', JObj [(''owner_aliases'', JArr [JStr ''+442079460018''])])]"

definition daemon_fs :: fs where
  "daemon_fs = example_fs\<lparr>fs_lstat := \<lambda>path.
     Some \<lparr>fi_mode = 0x800001ED, fi_uid = Some (if path = ''/run'' then 501 else 0)\<rparr>\<rparr>"

definition example_backend :: backend_env where
  "example_backend = \<lparr>be_fs = example_fs, be_open = example_programs, be_version_output = [''0.13.1''],
     be_version_ok = True, be_version_expired = False,
     be_view = \<lparr>fs_owner_ok = \<lambda>_ _. True, fs_stat = \<lambda>_. Some (1, 2)\<rparr>\<rparr>"

definition example_boot :: boot_env where
  "example_boot = \<lparr>bo_backend = example_backend, bo_sys = example_sys, bo_random = replicate 32 CHR ''k'',
     bo_written = 0, bo_goos = ''darwin''\<rparr>"

lemma example_backend_new: "\<exists>p. backend_New sha256 example_backend example_config = Inr p"
proof -
  have paths: "''/bin/imsg'' = abs_path ([''bin''] @ [''imsg''])" "''/db'' = abs_path ([] @ [''db''])"
    by (simp_all add: abs_path_def)
  have "CheckOwnerFile example_fs example_programs ''/bin/imsg'' True = Inr ()"
    unfolding paths by (rule example_owner_file) (simp add: proper_def)
  moreover have "CheckOwnerFile example_fs example_programs ''/db'' False = Inr ()"
    unfolding paths by (rule example_owner_file) (simp add: proper_def)
  moreover have "trim_space ''0.13.1'' = ''0.13.1''" by (rule trim_space_graphic) (auto simp: graphic_def)
  ultimately show ?thesis
    by (simp add: backend_New_def example_backend_def example_config_def checkVersion_def databaseIdentity_def)
qed

lemma example_policy_loads_file:
  "LoadPolicy example_fs (example_file (json_print example_policy_json)) ''/etc/p'' =
     Inr \<lparr>owners = {''+442079460018''}, direct = {}, excluded = {}\<rparr>"
proof -
  have "length (json_print example_policy_json) = 48"
    unfolding example_policy_json_def by code_simp
  then have l: "length (json_print example_policy_json) \<le> 2 ^ 20" by simp
  have w: "json_wf max_nesting example_policy_json"
    by (simp add: example_policy_json_def max_nesting_def ascii_valid)
  have k: "key_is ''messages'' ''messages''" "key_is ''owner_aliases'' ''owner_aliases''"
    by (simp_all add: key_is_plain plain_key_def)
  have d: "decode_struct file_policy_step \<lparr>owner_aliases = [], allowed_direct = [], excluded_conversations = []\<rparr>
      example_policy_json = Some \<lparr>owner_aliases = [''+442079460018''], allowed_direct = [], excluded_conversations = []\<rparr>"
    by (simp add: example_policy_json_def decode_struct_def file_policy_step_def file_messages_step_def k dec_list_def dec_slice_def)
  show ?thesis
    unfolding LoadPolicy_def example_read [OF l]
    using decode_file_print [OF w d] phone_examples
    by (simp add: build_policy_def)
qed

lemma example_key_parents: "CheckParents example_fs ''/etc/p.cursor-key'' = Inr ()"
proof -
  have "''/etc/p.cursor-key'' = abs_path ([''etc''] @ [''p.cursor-key''])" by (simp add: abs_path_def)
  then show ?thesis using example_parents_abs [of "[''etc'']" "''p.cursor-key''"] by (simp add: proper_def)
qed

lemma example_new:
  assumes "dk_names d ''/etc/p.cursor-key'' = None" "dk_locks d = (\<lambda>_. None)"
  shows "\<exists>server d1. NewWithDeps sha256 (\<lambda>_. plain_aead) example_boot example_config d = (Inr server, d1)
     \<and> dk_next d1 = Suc (dk_next d) \<and> dk_locks d1 = (\<lambda>_. None)
     \<and> (\<forall>q. q \<noteq> ''/etc/p.cursor-key'' \<longrightarrow> dk_names d1 q = dk_names d q)
     \<and> (\<forall>ino < dk_next d. dk_nodes d1 ino = dk_nodes d ino)"
proof -
  let ?key = "''/etc/p.cursor-key''" and ?i = "dk_next d"
  have e: "dk_locks d ?i = None" by (simp add: assms(2))
  let ?d = "locked_by example_sys ?i (new_file RegularFile 0x180 (os_euid example_sys) ?key d)"
  note a = acquireLock_new [OF example_sys_calm assms(1) e]
  have n: "nd_data (dk_nodes ?d ?i) = []" by (simp add: locked_by_def new_file_def)
  have k: "read_key example_sys (replicate 32 CHR ''k'') 0 ?i ?d =
      (Inr (replicate 32 CHR ''k''), set_node ?i ((dk_nodes ?d ?i)\<lparr>nd_data := replicate 32 CHR ''k''\<rparr>) ?d)"
    using example_sys_calm n by (simp add: read_key_def create_key_def calm_def faultless_def Let_def)
  have l: "load_key example_fs example_sys (replicate 32 CHR ''k'') 0 ?key d =
      (Inr (replicate 32 CHR ''k''), release ?i (set_node ?i ((dk_nodes ?d ?i)\<lparr>nd_data := replicate 32 CHR ''k''\<rparr>) ?d))"
    by (simp only: load_key_def example_key_parents a k sum.case prod.case)
  obtain p where p: "backend_New sha256 example_backend example_config = Inr p" using example_backend_new by blast
  have v: "Validate (unat (fs_euid example_fs)) example_config = Inr ()"
    using Validate_iff example_config_bounds by (simp add: example_fs_def)
  have c: "cf_policy_path example_config @ ''.cursor-key'' = ?key" "cf_contacts example_config = None"
    by (simp_all add: example_config_def)
  have b: "bo_backend example_boot = example_backend" "be_fs example_backend = example_fs"
    "bo_sys example_boot = example_sys" "bo_random example_boot = replicate 32 CHR ''k''" "bo_written example_boot = 0"
    by (simp_all add: example_boot_def example_backend_def)
  have "NewWithDeps sha256 (\<lambda>_. plain_aead) example_boot example_config d =
      (Inr \<lparr>bu_process = p, bu_cipher = plain_aead, bu_contacts = None\<rparr>,
       release ?i (set_node ?i ((dk_nodes ?d ?i)\<lparr>nd_data := replicate 32 CHR ''k''\<rparr>) ?d))"
    unfolding NewWithDeps_def Let_def loadCursorCipher_def c b v p l
    by (simp only: apfst_conv map_sum.simps sum.case prod.case option.case id_apply)
  then show ?thesis
    by (auto simp: release_def set_node_def locked_by_def new_file_def assms(2) fun_eq_iff)
qed

lemma daemon_dir_path: "Dir ''/run/s'' = ''/run''"
proof -
  have paths: "''/run/s'' = abs_path ([''run''] @ [''s''])" "''/run'' = abs_path [''run'']"
    by (simp_all add: abs_path_def)
  have "list_all proper ([''run''] @ [''s''])" by (simp add: proper_def)
  from Dir_abs_path [OF this] show ?thesis by (simp only: paths)
qed

lemma daemon_socket_dir: "checkSocketDir daemon_fs (Dir ''/run/s'') = Inr ()"
proof -
  have path: "''/run'' = abs_path ([] @ [''run''])" by (simp add: abs_path_def)
  have proper: "list_all proper ([] @ [''run''])" by (simp add: proper_def)
  have "protected_dir daemon_fs path" "real_root daemon_fs" for path
    by (simp_all add: protected_dir_def real_root_def daemon_fs_def example_fs_def trusted_owner_def example_modes)
  then have "CheckParents daemon_fs ''/run'' = Inr ()"
    unfolding path by (intro plain_parents proper)
  then show ?thesis
    by (simp add: checkSocketDir_iff daemon_fs_def example_fs_def example_modes daemon_dir_path)
qed

text \<open>The socket's directory is missing and gets made.\<close>

lemma example_place:
  assumes "dk_next d = 3" "dk_locks d = (\<lambda>_. None)" "names_dir ''/'' d"
    and "dk_names d ''/run'' = None" "dk_names d ''/run/s'' = None" "dk_names d ''/run/s.lock'' = None"
  shows "\<exists>d'. take_place daemon_fs example_sys DialRefused example_config d = (Inr (4, 5), d')"
proof -
  have p: "cf_socket_path example_config = ''/run/s''" "lock_path ''/run/s'' = ''/run/s.lock''"
    by (simp_all add: example_config_def lock_path_def)
  let ?m = "new_file DirFile (0x1E8 AND NOT (os_umask example_sys)) (os_euid example_sys) ''/run'' d"
  have n: "dir_name ''/run'' = ''/run''" "dir_name (parent_prefix ''/run'') = ''/''" "parent_prefix ''/run'' \<noteq> []"
    by (simp_all add: dir_name_def parent_prefix_def)
  have m: "mkdir_all example_sys (Dir ''/run/s'') d = (True, ?m)"
    using mkdir_all_last [OF example_sys_calm, of d "''/run''"] assms(3,4) by (simp add: n daemon_dir_path)
  have q: "dk_names ?m ''/run/s.lock'' = None" "dk_locks ?m (dk_next ?m) = None" "dk_next ?m = 4"
    using assms by (simp_all add: new_file_def)
  note a = acquireLock_new [OF example_sys_calm q(1,2), unfolded q(3)]
  let ?d = "locked_by example_sys 4 (new_file RegularFile 0x180 (os_euid example_sys) ''/run/s.lock'' ?m)"
  have r: "dk_names ?d ''/run/s'' = None" "dk_next ?d = 5"
    using assms by (simp_all add: new_file_def locked_by_def)
  have "prepareSocketPath example_sys DialRefused ''/run/s'' ?d = (Inr (), ?d)"
    using r(1) by (simp add: prepareSocketPath_def example_sys_def Let_def)
  moreover have "\<exists>d'. listen example_sys ''/run/s'' (case SocketFileMode example_config of None \<Rightarrow> 0 | Some mode \<Rightarrow> mode) ?d = (Inr 5, d')"
    using r by (simp add: listen_def example_sys_def Let_def) (simp add: new_file_def)
  ultimately show ?thesis
    unfolding take_place_def Let_def p daemon_socket_dir m by (auto simp: a)
qed

definition example_daemon :: daemon_env where
  "example_daemon = \<lparr>dm_config_fs = example_fs, dm_config_open = example_file (json_print example_config_json),
     dm_boot = example_boot, dm_policy_fs = example_fs,
     dm_policy_open = example_file (json_print example_policy_json), dm_place_fs = daemon_fs,
     dm_place_sys = example_sys, dm_dial = DialRefused,
     dm_contacts = \<lparr>cx_config_fs = example_fs, cx_config_open = \<lambda>_. None, cx_policy_fs = example_fs,
       cx_policy_open = \<lambda>_. None, cx_helper = \<lparr>hp_goos = ''linux'', hp_fs = example_fs, hp_open = \<lambda>_. None, hp_fs_later = example_fs,
         hp_open_later = \<lambda>_. None, hp_desktop = \<lparr>de_tempdir = None, de_fs = example_fs, de_listens = False,
           de_chmods = False, de_launches = False, de_ended_at_launch = False, de_accepts = False,
           de_ended_at_accept = False, de_peer_uid = None, de_answers = [], de_output = [], de_closes = False,
           de_expired = False\<rparr>\<rparr>, cx_sys = example_sys, cx_writes = True\<rparr>\<rparr>"

definition root_disk :: disk where
  "root_disk = new_file DirFile 0x1ED 0 ''/'' empty_disk"

lemma example_starts:
  "\<exists>server d'. run_daemon sha256 (\<lambda>_. plain_aead) example_daemon [''run'', ''-config'', ''/etc/p''] root_disk =
     (Some (ServingAt server 4 5), d')"
proof -
  have root: "dk_names root_disk = [''/'' \<mapsto> 1]" "dk_locks root_disk = (\<lambda>_. None)" "dk_next root_disk = 2"
    "nd_kind (dk_nodes root_disk 1) = DirFile"
    by (simp_all add: root_disk_def new_file_def empty_disk_def)
  obtain server d1 where n: "NewWithDeps sha256 (\<lambda>_. plain_aead) example_boot example_config root_disk = (Inr server, d1)"
    "dk_next d1 = Suc (dk_next root_disk)" "dk_locks d1 = (\<lambda>_. None)"
    "\<forall>q. q \<noteq> ''/etc/p.cursor-key'' \<longrightarrow> dk_names d1 q = dk_names root_disk q"
    "\<forall>ino < dk_next root_disk. dk_nodes d1 ino = dk_nodes root_disk ino"
    using example_new [of root_disk sha256] root(1,2) by auto
  have "dk_next d1 = 3" "names_dir ''/'' d1" "dk_names d1 ''/run'' = None" "dk_names d1 ''/run/s'' = None"
    "dk_names d1 ''/run/s.lock'' = None"
    using n(2,4,5) root by (auto simp: names_dir_def)
  from example_place [OF this(1) n(3) this(2-5)] obtain d' where
    t: "take_place daemon_fs example_sys DialRefused example_config d1 = (Inr (4, 5), d')" by blast
  have a: "parse_daemon [''run'', ''-config'', ''/etc/p''] = Some (True, ''/etc/p'')"
    by (simp add: parse_daemon_def parse_config_path_def config_flags_def flag_step_def split_equals_def set_flag_def string_flag_def)
  have c: "LoadConfig example_fs (example_file (json_print example_config_json)) ''/etc/p'' = Inr example_config"
    using load_config_valid_witness by blast
  have e: "dm_config_fs example_daemon = example_fs" "dm_config_open example_daemon = example_file (json_print example_config_json)"
    "dm_boot example_daemon = example_boot" "dm_policy_fs example_daemon = example_fs"
    "dm_policy_open example_daemon = example_file (json_print example_policy_json)"
    "dm_place_fs example_daemon = daemon_fs" "dm_place_sys example_daemon = example_sys" "dm_dial example_daemon = DialRefused"
    "cf_policy_path example_config = ''/etc/p''"
    by (simp_all add: example_daemon_def example_config_def)
  have s: "start_broker sha256 (\<lambda>_. plain_aead) example_daemon True example_config root_disk = (ServingAt server 4 5, d')"
    unfolding start_broker_def e n(1) prod.case sum.case example_policy_loads_file t by simp
  have "run_daemon sha256 (\<lambda>_. plain_aead) example_daemon [''run'', ''-config'', ''/etc/p''] root_disk = (Some (ServingAt server 4 5), d')"
    unfolding run_daemon_def a e c option.case prod.case sum.case s by simp
  then show ?thesis by blast
qed


end
