(* ===== verification/Platforms.thy ===== *)
theory Platforms
  imports Daemon
begin

text \<open>
  The build variants.  Files with a build tag give one function a different body on Linux, on macOS and
  elsewhere (\<open>owner_*.go\<close>, \<open>identity_*.go\<close>, \<open>lock_*.go\<close>, \<open>peercred_*.go\<close>, \<open>desktop_*.go\<close>).  The other theories
  model the supported bodies; this one has all of them, and shows that an unsupported build refuses to
  start before it touches the disk and that only macOS talks to the contacts app.
\<close>

section \<open>The functions that depend on the build\<close>

datatype platform = Linux | Darwin | OtherPlatform

definition supported :: "platform \<Rightarrow> bool" where
  "supported b \<longleftrightarrow> b = Linux \<or> b = Darwin"

text \<open>The owner of a file, from what \<open>Sys()\<close> of its information holds.\<close>

definition ownerUID :: "platform \<Rightarrow> 32 word option \<Rightarrow> 32 word option" where
  "ownerUID b stat = (if supported b then stat else None)"

definition fileOwnerUID :: "platform \<Rightarrow> 32 word option \<Rightarrow> 32 word option" where
  "fileOwnerUID b stat = (if supported b then stat else None)"

definition openNoFollow :: "platform \<Rightarrow> open_env \<Rightarrow> open_env" where
  "openNoFollow b env path = (if supported b then env path else None)"

definition databaseIdentity_on :: "platform \<Rightarrow> fs_view \<Rightarrow> string \<Rightarrow> string option" where
  "databaseIdentity_on b v path = (if supported b then databaseIdentity v path else None)"

text \<open>\<open>Inl None\<close> is the error of a build without locks.\<close>

definition acquireLock_on :: "platform \<Rightarrow> osys \<Rightarrow> string \<Rightarrow> disk \<Rightarrow> (lock_error option + nat) \<times> disk" where
  "acquireLock_on b sys path d =
     (if supported b then apfst (map_sum Some id) (acquireLock sys path d) else (Inl None, d))"

definition peerUID_on :: "platform \<Rightarrow> bool \<Rightarrow> bool \<Rightarrow> nat option \<Rightarrow> nat option" where
  "peerUID_on b raw_ok control_ok credentials =
     (if supported b then peerUID raw_ok control_ok credentials else None)"

definition sameOwnerPeer_on :: "platform \<Rightarrow> bool \<Rightarrow> bool \<Rightarrow> 32 word option \<Rightarrow> 32 word \<Rightarrow> bool" where
  "sameOwnerPeer_on b raw_ok control_ok credentials euid =
     (if \<not> supported b then False
      else if \<not> raw_ok then False
      else control_ok \<and> (case credentials of None \<Rightarrow> False | Some uid \<Rightarrow> uid = euid))"

definition executeDesktopHelper ::
  "platform \<Rightarrow> ('r \<Rightarrow> string \<Rightarrow> json \<Rightarrow> 'r option) \<Rightarrow> 'r \<Rightarrow> helper_env \<Rightarrow> string \<Rightarrow> json \<Rightarrow> (string + 'r) option" where
  "executeDesktopHelper b step zero env path req =
     (if b \<noteq> Darwin then Some (Inl Unsupported)
      else (case helperBundle (hp_fs_later env) (hp_open_later env) path of
          Inl e \<Rightarrow> Some (Inl e)
        | Inr bundle \<Rightarrow> exchangeDesktop step zero req (hp_desktop env)))"

section \<open>The file system as a build sees it\<close>

definition info_on :: "platform \<Rightarrow> file_info \<Rightarrow> file_info" where
  "info_on b st = st\<lparr>fi_uid := ownerUID b (fi_uid st)\<rparr>"

definition fs_on :: "platform \<Rightarrow> fs \<Rightarrow> fs" where
  "fs_on b f = f\<lparr>fs_lstat := \<lambda>path. map_option (info_on b) (fs_lstat f path)\<rparr>"

definition open_on :: "platform \<Rightarrow> open_env \<Rightarrow> open_env" where
  "open_on b env path = map_option (\<lambda>file. file\<lparr>op_stat := map_option (info_on b) (op_stat file)\<rparr>) (openNoFollow b env path)"

section \<open>Supported builds\<close>

text \<open>On a supported build these are the functions of the other theories.\<close>

lemma info_on_supported: "supported b \<Longrightarrow> info_on b = id"
  by (simp add: info_on_def ownerUID_def fun_eq_iff)

lemma fs_on_supported: "supported b \<Longrightarrow> fs_on b f = f"
  by (simp add: fs_on_def info_on_supported option.map_id)

lemma open_on_supported: "supported b \<Longrightarrow> open_on b env = env"
  by (simp add: open_on_def openNoFollow_def info_on_supported option.map_id fun_eq_iff option.map_ident)

lemma sameOwnerPeer_on_supported:
  assumes "supported b" "de_peer_uid env = (if raw_ok \<and> control_ok then credentials else None)"
  shows "sameOwnerPeer_on b raw_ok control_ok credentials (fs_euid (de_fs env)) \<longleftrightarrow> sameOwnerPeer env"
  using assms by (auto simp: sameOwnerPeer_on_def sameOwnerPeer_def split: option.split)

text \<open>A run of the helper is \<open>CheckHelper\<close> and then \<open>executeDesktopHelper\<close> of the build, whichever it is:
  the first refuses what the second does.\<close>

lemma runHelper_on:
  assumes "hp_goos env = ''darwin'' \<longleftrightarrow> b = Darwin"
  shows "runHelper step zero env path req =
     (case CheckHelper (hp_goos env) (hp_fs env) (hp_open env) path of
        Inl e \<Rightarrow> Some (Inl e)
      | Inr _ \<Rightarrow> executeDesktopHelper b step zero env path req)"
  using assms by (auto simp: runHelper_def executeDesktopHelper_def CheckHelper_def split: sum.split)

section \<open>Unsupported builds\<close>

lemma unsupported_open: "\<not> supported b \<Longrightarrow> OpenOwnerFile (fs_on b f) (open_on b env) path executable \<noteq> Inr file"
  by (simp add: OpenOwnerFile_def open_on_def openNoFollow_def split: sum.split)

lemma unsupported_read: "\<not> supported b \<Longrightarrow> \<exists>e. ReadOwnerFile (fs_on b f) (open_on b env) path n = Inl e"
  using unsupported_open [of b f env path False] by (auto simp: ReadOwnerFile_def split: sum.split)

lemma unsupported_config: "\<not> supported b \<Longrightarrow> LoadConfig (fs_on b f) (open_on b env) path = Inl ConfigUnreadable"
  using unsupported_read [of b f env path "2 ^ 20"] by (auto simp: LoadConfig_def)

text \<open>Neither a directory nor a file is trusted without its owner: every path below the root is refused.\<close>

lemma unsupported_walk: "\<not> supported b \<Longrightarrow> \<exists>e. walk (fs_on b f) resolved (p # ps) links = Inl e"
  by (simp add: fs_on_def info_on_def ownerUID_def split: option.split)

text \<open>The daemon of an unsupported build does not get past its configuration, and changes nothing on disk
  (its contacts commands are refused by \<open>CheckHelper\<close>, for it is not macOS).\<close>

theorem unsupported_daemon_refuses:
  assumes "\<not> supported b" "dm_config_fs env = fs_on b f" "dm_config_open env = open_on b oe"
    and "run_daemon sha256 gcm env args d = (r, d')"
  shows "(args = [] \<or> hd args \<noteq> ''contacts'' \<longrightarrow> d' = d) \<and> r \<noteq> Some ConfigurationValid \<and> (\<forall>server lock created. r \<noteq> Some (ServingAt server lock created))
     \<and> (\<forall>runs path. args \<noteq> [] \<longrightarrow> hd args \<notin> {''version'', ''contacts''} \<longrightarrow> parse_daemon args = Some (runs, path) \<longrightarrow>
          r = Some (ConfigError ConfigUnreadable))"
  using assms(4) unsupported_config [OF assms(1)] assms(2,3)
  by (auto simp: run_daemon_def split: if_split_asm option.split_asm prod.split_asm)

lemma unsupported_daemon_example:
  "run_daemon sha256 gcm (example_daemon\<lparr>dm_config_fs := fs_on OtherPlatform example_fs, dm_config_open := open_on OtherPlatform oe\<rparr>)
     [''run'', ''--config'', ''/etc/c''] d = (Some (ConfigError ConfigUnreadable), d)"
proof -
  let ?env = "example_daemon\<lparr>dm_config_fs := fs_on OtherPlatform example_fs, dm_config_open := open_on OtherPlatform oe\<rparr>"
  have a: "parse_daemon [''run'', ''--config'', ''/etc/c''] = Some (True, ''/etc/c'')" by code_simp
  obtain r d' where r: "run_daemon sha256 gcm ?env [''run'', ''--config'', ''/etc/c''] d = (r, d')" by fastforce
  from unsupported_daemon_refuses [OF _ _ _ r, of OtherPlatform example_fs oe] a r show ?thesis
    by (auto simp: supported_def)
qed

end
