(* ===== verification/Assembly.thy ===== *)
theory Assembly
  imports Daemon Streaming
begin

text \<open>
  The broker as \<open>NewWithDeps\<close> puts it together: its dependencies are the backend process, the policy file,
  the contacts manager, the random source and the context.  The environment is a sequence of moments; every
  call of a dependency takes place at the next one.  What the broker discloses is then followed from the
  line that the backend program printed, through the policy file and the contacts, to the response.
\<close>

section \<open>The dependencies\<close>

text \<open>What a call meets at one moment: the run of the backend, the policy file, the refreshes that the manager
  has completed, the clock, fresh random bytes and the state of the request's context.\<close>

record moment =
  mo_run :: run_env
  mo_policy_fs :: fs
  mo_policy_open :: open_env
  mo_refreshes :: "refresh list"
  mo_now :: instant
  mo_nonce :: bytes
  mo_context :: "backend_error option"

type_synonym course = "nat \<Rightarrow> moment"

text \<open>Every run returns (\<open>stream_run_answers\<close>); a run without an outcome is written as a failed one.\<close>

definition answered :: "(berr + 'a) option \<Rightarrow> berr + 'a" where
  "answered r = (case r of None \<Rightarrow> Inl [ErrFailed] | Some x \<Rightarrow> x)"

definition tick :: "course \<Rightarrow> (moment \<Rightarrow> 'a) \<Rightarrow> nat \<Rightarrow> 'a \<times> nat" where
  "tick E f t = (f (E t), Suc t)"

definition manager_at :: "contacts_source \<Rightarrow> moment \<Rightarrow> manager" where
  "manager_at source m = Run source (mo_refreshes m) NewManager"

definition contacts_ids :: "config \<Rightarrow> moment \<Rightarrow> string list option" where
  "contacts_ids cfg m = (case cf_contacts cfg of
       None \<Rightarrow> None
     | Some source \<Rightarrow> (case Get source (mo_now m) (manager_at source m) of Inl _ \<Rightarrow> None | Inr ids \<Rightarrow> Some ids))"

definition contacts_status :: "config \<Rightarrow> moment \<Rightarrow> contacts_policy_info" where
  "contacts_status cfg m = (case cf_contacts cfg of
       None \<Rightarrow> \<lparr>ci_state = [], ci_last_attempt_at = [], ci_last_success_at = [], ci_expires_at = [], ci_last_error_code = []\<rparr>
     | Some source \<Rightarrow> Status source (mo_now m) (manager_at source m))"

definition policy_file :: "string \<Rightarrow> moment \<Rightarrow> policy option" where
  "policy_file path m =
     (case LoadPolicy (mo_policy_fs m) (mo_policy_open m) path of Inl _ \<Rightarrow> None | Inr p \<Rightarrow> Some p)"

definition assembled :: "course \<Rightarrow> (bytes \<Rightarrow> string) \<Rightarrow> config \<Rightarrow> built \<Rightarrow> nat server" where
  "assembled E json_error cfg b = (let p = bu_process b in
     \<lparr>sv_cfg = cfg,
      sv_deps = \<lparr>dp_generation = pr_generation p,
        dp_list_chats = \<lambda>n. tick E (\<lambda>m. answered (ListChats p (mo_run m) n)),
        dp_chat = \<lambda>c. tick E (\<lambda>m. answered (Chat p (mo_run m) c)),
        dp_history = \<lambda>c n. tick E (\<lambda>m. answered (History p (mo_run m) c n)),
        dp_collect = \<lambda>after through n nb. tick E (\<lambda>m. answered (Collect p (mo_run m) after through n nb)),
        dp_load_policy = \<lambda>path. tick E (policy_file path),
        dp_contacts_get = tick E (contacts_ids cfg),
        dp_contacts_status = tick E (contacts_status cfg),
        dp_nonce = tick E mo_nonce,
        dp_ctx_err = tick E mo_context,
        dp_json_error = json_error\<rparr>,
      sv_cipher = bu_cipher b\<rparr>)"

section \<open>What the calls return\<close>

lemma answered_Inr [simp]: "answered r = Inr x \<longleftrightarrow> r = Some (Inr x)"
  by (auto simp: answered_def split: option.split)

lemma assembled_simps [simp]:
  "sv_cfg (assembled E je cfg b) = cfg" "dp_generation (sv_deps (assembled E je cfg b)) = pr_generation (bu_process b)"
  "dp_list_chats (sv_deps (assembled E je cfg b)) n t = (answered (ListChats (bu_process b) (mo_run (E t)) n), Suc t)"
  "dp_chat (sv_deps (assembled E je cfg b)) c t = (answered (Chat (bu_process b) (mo_run (E t)) c), Suc t)"
  "dp_history (sv_deps (assembled E je cfg b)) c n t = (answered (History (bu_process b) (mo_run (E t)) c n), Suc t)"
  "dp_collect (sv_deps (assembled E je cfg b)) after through n nb t =
     (answered (Collect (bu_process b) (mo_run (E t)) after through n nb), Suc t)"
  "dp_load_policy (sv_deps (assembled E je cfg b)) path t = (policy_file path (E t), Suc t)"
  "dp_contacts_get (sv_deps (assembled E je cfg b)) t = (contacts_ids cfg (E t), Suc t)"
  "dp_nonce (sv_deps (assembled E je cfg b)) t = (mo_nonce (E t), Suc t)"
  "dp_ctx_err (sv_deps (assembled E je cfg b)) t = (mo_context (E t), Suc t)"
  by (simp_all add: assembled_def Let_def tick_def)

text \<open>The broker's source of contacts keeps the contract of \<open>loadPolicy\<close>.\<close>

interpretation contacts: grant_source "tick E (contacts_ids cfg)"
proof
  fix t ids t' i
  assume "tick E (contacts_ids cfg) t = (Some ids, t')" and i: "i \<in> set ids"
  then obtain source where "cf_contacts cfg = Some source"
      and g: "Get source (mo_now (E t)) (manager_at source (E t)) = Inr ids"
    by (auto simp: tick_def contacts_ids_def split: option.split_asm sum.split_asm)
  then have "manager_grants source (mo_refreshes (E t), mo_now (E t)) = (Some ids, (mo_refreshes (E t), mo_now (E t)))"
    by (simp add: manager_grants_def manager_at_def)
  then show "identity.normal i" using i by (rule manager.grants_normal)
qed

text \<open>The policy of a moment: the file as it is then, and the grants of the contacts right after.\<close>

definition policy_at :: "course \<Rightarrow> config \<Rightarrow> nat \<Rightarrow> policy \<Rightarrow> bool" where
  "policy_at E cfg t q \<longleftrightarrow> (\<exists>p. LoadPolicy (mo_policy_fs (E t)) (mo_policy_open (E t)) (cf_policy_path cfg) = Inr p
     \<and> (case cf_contacts cfg of
          None \<Rightarrow> q = p
        | Some source \<Rightarrow> (\<exists>ids. Get source (mo_now (E (Suc t))) (manager_at source (E (Suc t))) = Inr ids
            \<and> q = p\<lparr>direct := direct p \<union> (set ids - owners p)\<rparr>)))"

lemma loadPolicy_at:
  assumes "loadPolicy (assembled E je cfg b) i t = (Inr q, t')"
  shows "policy_at E cfg t q \<and> t < t'"
proof (cases "cf_contacts cfg")
  case None
  with assms show ?thesis
    by (auto simp: loadPolicy_def policy_at_def policy_file_def Let_def split: sum.split_asm option.split_asm)
next
  case (Some source)
  have g: "dp_contacts_get (sv_deps (assembled E je cfg b)) = tick E (contacts_ids cfg)"
    by (simp add: assembled_def Let_def)
  have "cf_contacts (sv_cfg (assembled E je cfg b)) \<noteq> None" by (simp add: Some)
  from contacts.loadPolicy_grants [OF g this] assms Some show ?thesis
    by (auto simp: policy_at_def policy_file_def tick_def contacts_ids_def split: sum.split_asm)
qed

section \<open>What the backend printed\<close>

text \<open>A line of a run in which the executable and the database were the ones the broker started with, before and
  after, and which ended well with all its output read.\<close>

definition printed :: "course \<Rightarrow> process \<Rightarrow> nat \<Rightarrow> bytes \<Rightarrow> bool" where
  "printed E p t l \<longleftrightarrow> checkIdentity p (re_before (mo_run (E t))) = Inr () \<and> checkIdentity p (re_after (mo_run (E t))) = Inr ()
     \<and> (\<exists>args obs lines. re_start (mo_run (E t)) args = Some obs \<and> clean_trace lines obs \<and> l \<in> set lines)"

definition carries_chat :: "bytes \<Rightarrow> raw_chat \<Rightarrow> bool" where
  "carries_chat l ch \<longleftrightarrow> decode_chat l = Some ch \<or> (\<exists>row. row_event l = Some row \<and> cw_chat row = Some ch)"

definition carries_message :: "bytes \<Rightarrow> raw_message \<Rightarrow> bool" where
  "carries_message l m \<longleftrightarrow> decode_message l = Some m \<or> (\<exists>row. row_event l = Some row \<and> cw_message row = Some m)"

lemma map_Some_line:
  assumes "map f lines = map Some rows" "row \<in> set rows"
  obtains l where "l \<in> set lines" "f l = Some row"
proof -
  have "Some row \<in> f ` set lines" using assms by (metis image_eqI set_map)
  then show ?thesis using that by auto
qed

lemma run_printed:
  assumes "run p (mo_run (E t)) args n (append_row decode) [] = Some (Inr rows)" "row \<in> set rows"
  shows "\<exists>l. printed E p t l \<and> decode l = Some row"
proof -
  from assms(1) obtain obs lines where r: "checkIdentity p (re_before (mo_run (E t))) = Inr ()"
    "checkIdentity p (re_after (mo_run (E t))) = Inr ()" "re_start (mo_run (E t)) args = Some obs"
    "clean_trace lines obs" "map decode lines = map Some rows"
    by (auto simp: run_ok fold_append_row)
  from r(5) assms(2) obtain l where "l \<in> set lines" "decode l = Some row" by (rule map_Some_line)
  with r(1-4) show ?thesis unfolding printed_def by blast
qed

lemma ListChats_printed:
  assumes "ListChats p (mo_run (E t)) n = Some (Inr rows)" "ch \<in> set rows"
  shows "\<exists>l. printed E p t l \<and> carries_chat l ch"
  using run_printed [where E = E and t = t, OF assms(1) [unfolded ListChats_def] assms(2)]
  by (auto simp: carries_chat_def)

lemma History_printed:
  assumes "History p (mo_run (E t)) c n = Some (Inr rows)" "m \<in> set rows"
  shows "\<exists>l. printed E p t l \<and> carries_message l m"
  using run_printed [where E = E and t = t, OF assms(1) [unfolded History_def] assms(2)]
  by (auto simp: carries_message_def)

lemma Chat_printed:
  assumes "Chat p (mo_run (E t)) c = Some (Inr ch)"
  shows "\<exists>l. printed E p t l \<and> carries_chat l ch"
proof -
  let ?run = "run p (mo_run (E t)) [''group'', ''--db'', pr_database p, ''--chat-id'', print_int c, ''--json'']
      1 (append_row decode_chat) []"
  from assms obtain r where r: "?run = Some r"
    "(case r of Inl e \<Rightarrow> Inl e | Inr rows \<Rightarrow> (case rows of [row] \<Rightarrow> Inr row | _ \<Rightarrow> Inl [ErrFailed])) = Inr ch"
    unfolding Chat_def map_option_eq_Some by blast
  from r(2) have "r = Inr [ch]" by (auto split: sum.split_asm list.split_asm)
  with r(1) have "?run = Some (Inr [ch])" by simp
  from run_printed [where E = E and t = t, OF this] show ?thesis by (auto simp: carries_chat_def)
qed

lemma Collect_printed:
  assumes "Collect p (mo_run (E t)) after through n nb = Some (Inr page)" "row \<in> set (pg_rows page)"
  shows "\<exists>l. printed E p t l \<and> row_event l = Some row"
proof -
  from Collect_ok(10) [OF assms(1)] obtain obs lines cp where
    o: "re_start (mo_run (E t)) (collect_args p after through n nb) = Some obs" "clean_trace (lines @ [cp]) obs"
      "map row_event lines = map Some (pg_rows page)" by blast
  from o(3) assms(2) obtain l where "l \<in> set lines" "row_event l = Some row" by (rule map_Some_line)
  with o(1,2) Collect_ok(8,9) [OF assms(1)] show ?thesis
    unfolding printed_def by (metis Un_iff set_append)
qed

section \<open>From a printed line to the response\<close>

text \<open>A conversation the backend printed at moment \<open>k\<close> and a later policy that shows it as \<open>c\<close>; the same for
  a message, whose conversation was printed no later than itself.\<close>

definition chat_source :: "course \<Rightarrow> nat server \<Rightarrow> process \<Rightarrow> nat \<Rightarrow> nat \<Rightarrow> chat \<Rightarrow> bool" where
  "chat_source E s p t t' c \<longleftrightarrow> (\<exists>k l ch k' q. t \<le> k \<and> k < k' \<and> k' < t'
     \<and> printed E p k l \<and> carries_chat l ch \<and> policy_at E (sv_cfg s) k' q \<and> visible_chat s q ch
     \<and> c = exposeChat s ch (Authorize (Some q) (toConversation ch)))"

definition message_source :: "course \<Rightarrow> nat server \<Rightarrow> process \<Rightarrow> nat \<Rightarrow> nat \<Rightarrow> message \<Rightarrow> bool" where
  "message_source E s p t t' x \<longleftrightarrow> (\<exists>j lc ch k lm m k' q. t \<le> j \<and> j \<le> k \<and> k < k' \<and> k' < t'
     \<and> printed E p j lc \<and> carries_chat lc ch \<and> printed E p k lm \<and> carries_message lm m
     \<and> policy_at E (sv_cfg s) k' q \<and> shown s q ch m x)"

lemma listChats_source:
  assumes "1 \<le> cf_max_results cfg" "listChats (assembled E je cfg b) req t = (resp, t')" "rs_ok resp"
    and "rs_result resp = Some r"
  shows "result_messages r = [] \<and> (\<forall>c \<in> set (result_chats r). chat_source E (assembled E je cfg b) (bu_process b) t t' c)"
proof -
  let ?s = "assembled E je cfg b" and ?p = "bu_process b"
  from listChats_ok [of ?s, OF _ assms(2,3)] assms(1) obtain limit rows w1 q where l:
    "dp_list_chats (sv_deps ?s) (cf_max_chat_scan (sv_cfg ?s)) t = (Inr rows, w1)"
    "loadPolicy ?s (rq_id req) w1 = (Inr q, t')"
    "resp = Success (rq_id req) (ListChatsResult \<lparr>lr_chats = take (nat limit) (exposed_chats ?s q rows),
       lr_scan_complete = (int (length rows) < cf_max_chat_scan (sv_cfg ?s)
         \<and> length (exposed_chats ?s q rows) \<le> nat limit)\<rparr>)" by (metis assembled_simps(1))
  from l(1) have w: "w1 = Suc t" "ListChats ?p (mo_run (E t)) (cf_max_chat_scan cfg) = Some (Inr rows)" by simp_all
  note q = loadPolicy_at [OF l(2)]
  have r: "result_messages r = []" "result_chats r = take (nat limit) (exposed_chats ?s q rows)"
    using assms(4) l(3) by auto
  have "chat_source E ?s ?p t t' c" if "c \<in> set (result_chats r)" for c
  proof -
    from in_set_takeD [OF that [unfolded r]] obtain ch where ch: "ch \<in> set rows" "visible_chat ?s q ch"
      "c = exposeChat ?s ch (Authorize (Some q) (toConversation ch))" by (auto simp: exposed_chats_def)
    from ListChats_printed [where E = E and t = t, OF w(2) ch(1)] obtain l where "printed E ?p t l" "carries_chat l ch" by blast
    with ch q w(1) show ?thesis unfolding chat_source_def
      by (intro exI [of _ t] exI [of _ l] exI [of _ ch] exI [of _ w1] exI [of _ q]) simp
  qed
  with r(1) show ?thesis by blast
qed

text \<open>What \<open>history\<close> and \<open>getMessage\<close> share.\<close>

lemma conversation_source:
  assumes "loadPolicy s i t = (Inr p0, w1)" "dp_chat (sv_deps s) c w1 = (Inr ch, w2)"
    and "dp_history (sv_deps s) c n w2 = (Inr rows, w3)" "loadPolicy s i w3 = (Inr q, t')"
    and s: "s = assembled E je cfg b" and m: "m \<in> set rows" "shown s q ch m x"
  shows "message_source E s (bu_process b) t t' x"
proof -
  from assms(1,4) have q: "t < w1" "policy_at E cfg w3 q" "w3 < t'" unfolding s using loadPolicy_at by blast+
  from assms(2,3) have w: "w2 = Suc w1" "w3 = Suc w2" "Chat (bu_process b) (mo_run (E w1)) c = Some (Inr ch)"
    "History (bu_process b) (mo_run (E w2)) c n = Some (Inr rows)" by (auto simp: s)
  from Chat_printed [where E = E and t = w1, OF w(3)] obtain lc where c: "printed E (bu_process b) w1 lc" "carries_chat lc ch" by blast
  from History_printed [where E = E and t = w2, OF w(4) m(1)] obtain lm where "printed E (bu_process b) w2 lm" "carries_message lm m" by blast
  with c q w(1,2) m(2) show ?thesis unfolding message_source_def
    by (intro exI [of _ w1] exI [of _ lc] exI [of _ ch] exI [of _ w2] exI [of _ lm] exI [of _ m] exI [of _ w3]
        exI [of _ q]) (simp add: s)
qed

lemma history_source:
  assumes "1 \<le> cf_max_results cfg" "history (assembled E je cfg b) req t = (resp, t')" "rs_ok resp"
    and "rs_result resp = Some r"
  shows "result_chats r = [] \<and> (\<forall>x \<in> set (result_messages r). message_source E (assembled E je cfg b) (bu_process b) t t' x)"
proof -
  let ?s = "assembled E je cfg b"
  have m: "1 \<le> cf_max_results (sv_cfg ?s)" using assms(1) by simp
  obtain params limit p0 w1 ch w2 rows w3 q where
    "decode_generation (rq_params req) = Inr params" "gp_database_generation params = dp_generation (sv_deps ?s)"
    "normalizeLimit (gp_limit params) 50 (cf_max_results (sv_cfg ?s)) = Inr limit"
    "1 \<le> limit" "limit \<le> cf_max_results (sv_cfg ?s)" and
    h1: "loadPolicy ?s (rq_id req) t = (Inr p0, w1)" "dp_chat (sv_deps ?s) (gp_chat_id params) w1 = (Inr ch, w2)"
    and "validChat ch" "rc_id ch = gp_chat_id params" "visible_chat ?s p0 ch"
    and h2: "dp_history (sv_deps ?s) (gp_chat_id params) limit w2 = (Inr rows, w3)"
      "loadPolicy ?s (rq_id req) w3 = (Inr q, t')"
    and "visible_chat ?s q ch" "list_all (\<lambda>m. is_ok (exposeMessage ?s m ch q)) rows"
    and h: "resp = Success (rq_id req) (HistoryResult \<lparr>hr_messages = take (nat limit) (shown_rows ?s q ch rows),
       hr_scan_complete = (int (length rows) < limit \<and> length (shown_rows ?s q ch rows) \<le> nat limit)\<rparr>)"
    by (rule history_ok [OF m assms(2,3)])
  have r: "result_chats r = []" "result_messages r = take (nat limit) (shown_rows ?s q ch rows)"
    using assms(4) h by auto
  have "message_source E ?s (bu_process b) t t' x" if "x \<in> set (result_messages r)" for x
    using shown_rows_shown [OF in_set_takeD [OF that [unfolded r(2)]]] conversation_source [OF h1 h2 refl] by blast
  with r(1) show ?thesis by blast
qed

lemma getMessage_source:
  assumes "getMessage (assembled E je cfg b) req t = (resp, t')" "rs_ok resp" "rs_result resp = Some r"
  shows "result_chats r = [] \<and> (\<forall>x \<in> set (result_messages r). message_source E (assembled E je cfg b) (bu_process b) t t' x)"
proof -
  let ?s = "assembled E je cfg b"
  obtain params p0 w1 ch w2 rows w3 q m x where
    "decode_get_message (rq_params req) = Inr params" "gm_database_generation params = dp_generation (sv_deps ?s)"
    and g1: "loadPolicy ?s (rq_id req) t = (Inr p0, w1)" "dp_chat (sv_deps ?s) (gm_chat_id params) w1 = (Inr ch, w2)"
    and "validChat ch" "rc_id ch = gm_chat_id params" "visible_chat ?s p0 ch"
    and g2: "dp_history (sv_deps ?s) (gm_chat_id params) (cf_max_message_scan (sv_cfg ?s)) w2 = (Inr rows, w3)"
      "loadPolicy ?s (rq_id req) w3 = (Inr q, t')"
    and g3: "find (\<lambda>m. rm_guid m = gm_guid params) rows = Some m" "shown ?s q ch m x"
      "resp = Success (rq_id req) (GetMessageResult \<lparr>gr_message = x\<rparr>)"
    by (rule getMessage_ok [OF assms(1,2)])
  from g3(1) have "m \<in> set rows" by (metis find_Some_iff nth_mem)
  from conversation_source [OF g1 g2 refl this g3(2)] g3(3) assms(3) show ?thesis by auto
qed

lemma collect_source:
  assumes "1 \<le> cf_max_results cfg" "collect (assembled E je cfg b) req t = (Some resp, t')" "rs_ok resp"
    and "rs_result resp = Some r"
  shows "result_chats r = [] \<and> (\<forall>x \<in> set (result_messages r). message_source E (assembled E je cfg b) (bu_process b) t t' x)"
proof -
  let ?s = "assembled E je cfg b" and ?p = "bu_process b"
  from collect_ok [of ?s, OF _ assms(2,3)] assms(1) obtain limit c p0 w1 where
    c: "loadPolicy ?s (rq_id req) t = (Inr p0, w1)" "collect_from ?s (rq_id req) limit c w1 = (Some resp, t')"
    by (metis assembled_simps(1))
  from collect_from_ok [OF c(2) assms(3)] obtain page w2 q w3 nonce where f:
    "dp_collect (sv_deps ?s) (cu_row_id c) (from_through c) (min limit (cf_max_collection_scan (sv_cfg ?s)))
       (from_not_before c) w1 = (Inr page, w2)"
    "loadPolicy ?s (rq_id req) w2 = (Inr q, w3)" "dp_nonce (sv_deps ?s) w3 = (nonce, t')"
    "resp = Success (rq_id req) (CollectResult \<lparr>cr_messages = page_messages ?s q (pg_rows page),
       cr_cursor = encodeCursor (sv_cipher ?s) (cf_instance (sv_cfg ?s)) nonce (next_cursor c page),
       cr_more = (\<not> pg_complete page), cr_range_complete = pg_complete page\<rparr>)" by metis
  have r: "result_chats r = []" "result_messages r = page_messages ?s q (pg_rows page)"
    using assms(4) f(4) by auto
  from f(1) have w: "w2 = Suc w1" and p: "Collect ?p (mo_run (E w1)) (cu_row_id c) (from_through c)
      (min limit (cf_max_collection_scan cfg)) (from_not_before c) = Some (Inr page)" by simp_all
  have t: "t < w1" "policy_at E cfg w2 q" "w2 < w3" "t' = Suc w3"
    using loadPolicy_at [OF c(1)] loadPolicy_at [OF f(2)] f(3) by auto
  have "message_source E ?s ?p t t' x" if "x \<in> set (result_messages r)" for x
  proof -
    from page_messages_shown [OF that [unfolded r(2)]] obtain row m ch where
      m: "row \<in> set (pg_rows page)" "cw_message row = Some m" "cw_chat row = Some ch" "shown ?s q ch m x" by metis
    from Collect_printed [where E = E and t = w1, OF p m(1)] obtain l where l: "printed E ?p w1 l" "row_event l = Some row" by blast
    then have "carries_chat l ch" "carries_message l m" using m by (auto simp: carries_chat_def carries_message_def)
    with l t w m(4) show ?thesis unfolding message_source_def
      by (intro exI [of _ w1] exI [of _ l] exI [of _ ch] exI [of _ m] exI [of _ w2] exI [of _ q]) simp
  qed
  with r(1) show ?thesis by blast
qed

lemma handle_source:
  assumes "1 \<le> cf_max_results cfg" "handle (assembled E je cfg b) req t = (Some resp, t')" "rs_result resp = Some r"
  shows "(\<forall>c \<in> set (result_chats r). chat_source E (assembled E je cfg b) (bu_process b) t t' c)
     \<and> (\<forall>x \<in> set (result_messages r). message_source E (assembled E je cfg b) (bu_process b) t t' x)"
proof -
  let ?s = "assembled E je cfg b"
  have ok: "rs_ok resp"
    using handle_well_formed [of ?s req t resp] assms(2,3) by (auto simp: well_formed_reply_def split: if_split_asm)
  from assms(2) consider "resp = ping ?s req" | "resp = fst (info ?s req t)"
    | "listChats ?s req t = (resp, t')" | "history ?s req t = (resp, t')" | "getMessage ?s req t = (resp, t')"
    | "collect ?s req t = (Some resp, t')"
    | "resp = Failure (rq_id req) ''method_not_allowed'' ''method is not exposed by this broker'' False"
    by (auto simp: handle_def apfst_def map_prod_def split: if_split_asm prod.split_asm)
  then show ?thesis
  proof cases
    case 1
    with assms(3) show ?thesis by (auto simp: ping_def split: sum.split_asm)
  next
    case 2
    with assms(3) show ?thesis by (auto simp: info_def Let_def split: sum.split_asm prod.split_asm)
  next
    case 3
    from listChats_source [OF assms(1) this ok assms(3)] show ?thesis by simp
  next
    case 4
    from history_source [OF assms(1) this ok assms(3)] show ?thesis by simp
  next
    case 5
    from getMessage_source [OF this ok assms(3)] show ?thesis by simp
  next
    case 6
    from collect_source [OF assms(1) this ok assms(3)] show ?thesis by simp
  next
    case 7
    with assms(3) show ?thesis by simp
  qed
qed

lemma NewWithDeps_bounds: "NewWithDeps sha256 gcm env cfg d = (Inr b, d') \<Longrightarrow> 1 \<le> cf_max_results cfg"
  by (auto simp: NewWithDeps_def Let_def Validate_iff config_bounds_def split: sum.split_asm)

section \<open>Properties\<close>

text \<open>C2: From the backend's output to the client.  Whatever broker \<open>New\<close> builds, and whatever its environment
  does during a request, every conversation and message in the reply was printed on a line of a backend run
  within the request that ended well, with the executable and the database those the broker was built with;
  and it is shown by the policy file as it was read after that run, extended only by what the contacts
  manager granted right then.\<close>

theorem reply_from_backend:
  assumes "NewWithDeps sha256 gcm env cfg d = (Inr b, d')"
    and "dispatch (assembled E je cfg b) req t = (Some resp, t')" "rs_result resp = Some r"
  shows "(\<forall>c \<in> set (result_chats r). chat_source E (assembled E je cfg b) (bu_process b) t t' c)
     \<and> (\<forall>x \<in> set (result_messages r). message_source E (assembled E je cfg b) (bu_process b) t t' x)"
proof -
  let ?s = "assembled E je cfg b"
  from assms(2) obtain t1 where h: "(handle ?s req t = (Some resp, t1) \<and> t' = Suc t1)
      \<or> (\<exists>e. resp = backendFailure (rq_id req) [e])"
    by (auto simp: dispatch_def split: prod.split_asm option.split_asm)
  have "rs_result (backendFailure (rq_id req) [e]) = None" for e
    by (simp add: backendFailure_def Failure_def)
  with h assms(3) have t1: "handle ?s req t = (Some resp, t1)" "t' = Suc t1" by auto
  from handle_source [OF NewWithDeps_bounds [OF assms(1)] t1(1) assms(3)]
  show ?thesis unfolding chat_source_def message_source_def t1(2) by (meson less_SucI)
qed

text \<open>A broker started on an empty disk, asked for its conversations while the backend prints one.\<close>

definition chat_line :: json where
  "chat_line = JObj [(''id'', jint 1), (''identifier'', JStr ''c1''), (''guid'', JStr ''iMessage;+;c1''),
     (''service'', JStr ''iMessage''), (''account_id'', JStr ''b''), (''is_group'', JBool True),
     (''participants'', JArr [JStr ''+14155550100''])]"

definition example_course :: course where
  "example_course t = \<lparr>mo_run = \<lparr>re_before = be_view example_backend,
       re_start = \<lambda>_. Some [Received (Line (json_print chat_line)) None, Received (Final None True) None],
       re_after = be_view example_backend\<rparr>,
     mo_policy_fs = example_fs, mo_policy_open = example_file (json_print example_policy_json),
     mo_refreshes = [], mo_now = 0, mo_nonce = [], mo_context = None\<rparr>"

lemma decode_chat_line: "decode_chat (json_print chat_line) = Some example_chat"
proof -
  have w: "json_wf max_nesting chat_line"
    by (simp add: chat_line_def max_nesting_def ascii_valid)
  have k: "key_is ''id'' ''id''" "key_is ''identifier'' ''identifier''" "key_is ''guid'' ''guid''"
    "key_is ''service'' ''service''" "key_is ''account_id'' ''account_id''" "key_is ''is_group'' ''is_group''"
    "key_is ''participants'' ''participants''"
    by (simp_all add: key_is_plain plain_key_def)
  have n: "dec_int 0 (jint 1) = Some 1" by code_simp
  have "decode_struct (raw_chat_step False) zero_chat chat_line = Some example_chat"
    by (simp add: chat_line_def decode_struct_def raw_chat_step_def k key_is_plain plain_key_def zero_chat_def n dec_strings_def
        dec_slice_def dec_pointer_def example_chat_def)
  moreover obtain rest where "read_value (json_print chat_line) = Some (chat_line, rest)" "skip_ws rest = []"
    using json_decode_print [OF w] by (auto simp: json_decode_def split: option.split_asm if_split_asm)
  ultimately show ?thesis by (simp add: decode_chat_def decodeLine_def)
qed

lemma NewWithDeps_process:
  "NewWithDeps sha256 gcm env cfg d = (Inr b, d') \<Longrightarrow> backend_New sha256 (bo_backend env) cfg = Inr (bu_process b)"
  by (auto simp: NewWithDeps_def Let_def split: sum.split_asm prod.split_asm option.split_asm)

lemma reply_from_backend_witness:
  "\<exists>b d' c. NewWithDeps (\<lambda>x. x) (\<lambda>_. plain_aead) example_boot example_config empty_disk = (Inr b, d')
     \<and> ch_chat_guid c = ''iMessage;+;c1''
     \<and> chat_source example_course (assembled example_course (\<lambda>_. []) example_config b) (bu_process b) 0 3 c"
proof -
  have e: "dk_names empty_disk ''/etc/p.cursor-key'' = None" "dk_locks empty_disk = (\<lambda>_. None)"
    by (simp_all add: empty_disk_def)
  obtain b d' where n: "NewWithDeps (\<lambda>x. x) (\<lambda>_. plain_aead) example_boot example_config empty_disk = (Inr b, d')"
    using example_new [OF e] by blast
  let ?s = "assembled example_course (\<lambda>_. []) example_config b" and ?p = "bu_process b"
  let ?req = "\<lparr>rq_v = 1, rq_id = ''1'', rq_method = MethodListChats, rq_params = ''{}''\<rparr>"
  let ?q = "\<lparr>owners = {''+442079460018''}, direct = {}, excluded = {}\<rparr>"
  have "checkIdentity p (be_view example_backend) = Inr ()"
    if "backend_New (\<lambda>x. x) example_backend example_config = Inr p" for p
    using that by (auto simp: backend_New_def example_backend_def checkIdentity_def databaseIdentity_def
        split: sum.split_asm if_split_asm)
  from this [of ?p] NewWithDeps_process [OF n] have "checkIdentity ?p (be_view example_backend) = Inr ()"
    by (simp add: example_boot_def)
  then have l: "ListChats ?p (mo_run (example_course t)) 500 = Some (Inr [example_chat])" for t
    by (simp add: ListChats_def run_def example_course_def append_row_def decode_chat_line)
  have q: "loadPolicy ?s i t = (Inr ?q, Suc t)" for i t
    using example_policy_loads_file by (simp add: loadPolicy_def policy_file_def example_course_def example_config_def Let_def)
  have v: "validChat example_chat" "matchesAccount ?s example_chat"
    by (simp_all add: validChat_def matchesAccount_def example_chat_def example_config_def)
  have m: "MethodListChats \<noteq> MethodSystemPing" "MethodListChats \<noteq> MethodSystemInfo"
    by (simp_all add: MethodListChats_def MethodSystemPing_def MethodSystemInfo_def)
  have cfg: "cf_max_results example_config = 100" "cf_max_chat_scan example_config = 500"
    by (simp_all add: example_config_def)
  have d: "decode_list_chats ''{}'' = Inr \<lparr>lc_limit = 0\<rparr>" by code_simp
  let ?c = "exposeChat ?s example_chat (Authorize (Some ?q) (toConversation example_chat))"
  have "listChats ?s ?req 0 = (Success ''1'' (ListChatsResult \<lparr>lr_chats = [?c], lr_scan_complete = True\<rparr>), 2)"
    by (simp add: listChats_def Let_def d cfg normalizeLimit_def or_return_def backend_call_def answered_def l q
        list_reply_def v example_authorized)
  then have "dispatch ?s ?req 0 = (Some (Success ''1'' (ListChatsResult \<lparr>lr_chats = [?c], lr_scan_complete = True\<rparr>)), 3)"
    by (simp add: dispatch_def handle_def m) (simp add: example_course_def)
  from reply_from_backend [OF n this] have "chat_source example_course ?s ?p 0 3 ?c" by simp
  moreover have "ch_chat_guid ?c = ''iMessage;+;c1''" by (simp add: exposeChat_def example_chat_def)
  ultimately show ?thesis using n by blast
qed

end
