(* ===== verification/Spec2Isabelle.thy ===== *)
theory Spec2Isabelle
  imports Policy Framing Backend Config Cursor ContentFilter Broker BrokerSafety Collection
  Streaming Client Serving Contacts Helper Locks Directories Lifecycle GoFlag Cli Daemon Platforms Assembly
begin

text \<open>
  Verification of safe-imsg: a broker that runs as the owner of a Messages database and gives one other
  local user policy-filtered, read-only access to it over a Unix socket.

  The program.  The client's command (\<open>cmd/safe-imsg\<close>) turns its arguments into one request and calls the
  broker (\<open>internal/rpc\<close>).  The broker (\<open>cmd/safe-imsgd\<close>, \<open>internal/broker\<close>) authenticates the peer, reads
  and checks the request, loads the owner's policy (\<open>internal/policy\<close>), adds the identities that the owner's
  contact lists grant at that moment (\<open>internal/contacts\<close>), asks the \<open>imsg\<close> child process for rows
  (\<open>internal/backend\<close>), drops every row the policy or the content filter (\<open>internal/filter\<close>) withholds, and
  answers.  Every file it trusts passes \<open>internal/securefile\<close>; \<open>internal/config\<close> bounds every number.

  The theories, in the order of their dependence, with what they model.

  \<^item> \<open>Prelude\<close>: errors as sums, option and list lemmas, the collections of facts that the proofs share.
  \<^item> \<open>GoStrings\<close>, \<open>Regexp\<close>, \<open>GoPath\<close>, \<open>GoTime\<close>, \<open>GoUrl\<close>, \<open>Base64\<close>, \<open>GoFlag\<close>, \<open>Json\<close>, \<open>JsonRoundtrip\<close>: what the source
    uses of Go's standard library, on strings of bytes: trimming, UTF-8, regular expressions over runes,
    lexical paths, RFC 3339, URLs, flags and integers, and \<open>encoding/json\<close> with its escapes, its case-folding
    of field names and its limits; printing and then parsing returns the same value.
  \<^item> \<open>Identity\<close>, \<open>Policy\<close> (\<open>identity.go\<close>, \<open>policy.go\<close>): normal forms, the policy as three sets, \<open>Load\<close>, \<open>WithDirect\<close>
    and \<open>Authorize\<close>.  The locale \<open>normalizer\<close> is what the policy relies on.
  \<^item> \<open>ContentFilter\<close> (\<open>content.go\<close>): the six patterns as the regular expressions they are, and \<open>Suppress\<close>.
  \<^item> \<open>Framing\<close>, \<open>Rpc\<close>, \<open>Client\<close> (\<open>framing.go\<close>, \<open>envelope.go\<close>, \<open>validate.go\<close>, \<open>client.go\<close>): frames over any chunking
    of the connection, envelopes, strict decoding, validation, and \<open>Call\<close>.
  \<^item> \<open>SecureFile\<close>, \<open>Config\<close> (\<open>securefile.go\<close>, \<open>config.go\<close>, \<open>contacts.go\<close>): the walk over directories and
    symlinks, the checks of an opened file, the configuration with its defaults and bounds, and loading the
    policy file.
  \<^item> \<open>Backend\<close> (\<open>backend.go\<close>, \<open>collection.go\<close>, \<open>stream.go\<close>): the bounded reader, the loop of \<open>run\<close>, the rows, and
    the validation of a collection page.
  \<^item> \<open>Streaming\<close> (\<open>stream.go\<close>, \<open>Process.run\<close>): the same run as goroutines, the reader of the child's output, the loop
    and the child interleaved in any order under a context that may end at any moment; the sequential \<open>run\<close> of
    \<open>Backend\<close> is what they compute.
  \<^item> \<open>Cursor\<close>, \<open>Broker\<close>, \<open>BrokerSafety\<close>, \<open>Collection\<close> (\<open>cursor.go\<close>, \<open>server.go\<close>): cursors, every handler with its
    early returns, what a reply may hold, and chains of collection requests.
  \<^item> \<open>Serving\<close> (\<open>handleConn\<close>, \<open>writeResponse\<close>): one connection, and a whole call through the broker.
  \<^item> \<open>Contacts\<close>, \<open>Helper\<close> (\<open>source.go\<close>, \<open>helper.go\<close>, \<open>desktop.go\<close>): snapshots, the manager that refreshes and
    expires them, and the exchange with the native app.  The locale \<open>grant_source\<close> is what \<open>loadPolicy\<close>
    relies on; it is interpreted on the manager.
  \<^item> \<open>Locks\<close>, \<open>Directories\<close>, \<open>Lifecycle\<close> (\<open>lock_unix.go\<close>, \<open>loadCursorCipher\<close>, \<open>New\<close>, \<open>Run\<close>): a disk that other
    processes may change between any two system calls, the lock, the cursor key and its later starts, the directories
    made on the way to the socket, the socket path, and the accept loop as a step relation.
  \<^item> \<open>Cli\<close>, \<open>Daemon\<close> (\<open>cmd/\<close>): the two command lines from their arguments to what they print and what they change
    on disk, the temporary directory of a contacts command included.
  \<^item> \<open>Platforms\<close> (\<open>owner_*.go\<close>, \<open>identity_*.go\<close>, \<open>lock_*.go\<close>, \<open>peercred_*.go\<close>, \<open>desktop_*.go\<close>): the functions whose body
    depends on the build; an unsupported build refuses to start.
  \<^item> \<open>Assembly\<close> (\<open>NewWithDeps\<close>): the server with its real dependencies, from the line the backend printed to the
    reply.  It interprets \<open>grant_source\<close> on the contacts of that server.

  State and effects.  Go's structs are records, errors are sums or lists of the sentinels they wrap, \<open>None\<close>
  as a result is a panic or a call that has not returned (each definition says which).  The handlers thread a
  world \<open>'w\<close> that the dependencies read and change in the order in which the code calls them, so policy,
  contacts, backend and clock may differ at every call.  64-bit integers are \<open>int\<close> with their range as a
  condition where it matters (parsing bounds them); lengths in frames and file modes are 32-bit words.

  What the lemmas show.  Nothing leaves the broker without the policy's permission, for the configured user
  only, and what leaves it was printed by the backend the broker was built with (\<open>BrokerSafety\<close>, \<open>Policy\<close>,
  \<open>Serving\<close>, \<open>Assembly\<close>); what is permitted is exactly described (\<open>Policy\<close>, \<open>Contacts\<close>, \<open>ContentFilter\<close>); replies are complete, well formed and reach the client unchanged (\<open>BrokerSafety\<close>,
  \<open>Serving\<close>, \<open>Cli\<close>); collection terminates, loses nothing and resumes after a restart (\<open>Collection\<close>, \<open>Cursor\<close>,
  \<open>Locks\<close>); the backend's output is bounded and checked (\<open>Backend\<close>) and every run of it ends with its goroutine
  joined (\<open>Streaming\<close>); files are trusted only when protected
  (\<open>SecureFile\<close>, \<open>Config\<close>, \<open>Daemon\<close>); one broker serves a socket, shuts down cleanly, and what it adds to the disk
  is exactly named (\<open>Locks\<close>, \<open>Directories\<close>, \<open>Lifecycle\<close>, \<open>Daemon\<close>).  This theory adds what spans backend and broker.

  Bounds.  Recursion is structural or has a measure, but for the JSON parser, whose fuel is twice the length of
  its input plus the nesting limit (\<open>Json.parse_fuel\<close> shows that more fuel changes nothing), and symlink
  resolution, which the code itself stops after a number of links.

  Parameters.  AES-GCM (its laws are \<open>opens\<close> and \<open>gcm_overhead\<close>), SHA-256, the text of \<open>encoding/json\<close>'s
  errors, the file system's answers (a check sees the file system as it is at its time, which need not be the disk
  of \<open>Locks\<close>), what a connection accepts and delivers, what the backend's process writes
  and when it exits, and the clock.

  Not modelled.  The native app on the other side of the contacts socket and the \<open>imsg\<close> program with what they do to
  the disk, process groups, the linker's version strings, the indentation of printed JSON, other spellings of a
  path on the disk, what makes a connection's handler end, and the wall-clock timeouts themselves: that a deadline
  passed is an observation, whenever it may come.
\<close>

section \<open>Backend errors as the client sees them\<close>

lemma run_errors:
  assumes "run p env args n h st = Some (Inl e)" "context_ends env"
  shows "set e \<subseteq> {ErrFailed, DeadlineExceeded, Canceled}"
proof (cases "checkIdentity p (re_before env)")
  case (Inl e')
  with assms(1) checkIdentity_errors [OF Inl] show ?thesis by (auto simp: run_def)
next
  case (Inr u)
  show ?thesis
  proof (cases "re_start env args")
    case None
    with assms(1) Inr show ?thesis by (auto simp: run_def)
  next
    case (Some obs)
    with assms(1) Inr have "stream_loop h n (checkIdentity p (re_after env)) 0 obs st = Some (Inl e)"
      by (simp add: run_def)
    then show ?thesis
      by (rule stream_loop_errors) (use assms(2) Some checkIdentity_errors in \<open>auto simp: context_ends_def\<close>)
  qed
qed

lemma Collect_errors:
  assumes "Collect p env after through n nb = Some (Inl e)" "context_ends env"
  shows "ErrOverflow \<notin> set e"
proof (cases "run p env (collect_args p after through n nb) (n + 1) collect_line (zero_page, False)")
  case None
  with assms(1) show ?thesis by (auto simp: Collect_def split: if_split_asm)
next
  case (Some r)
  show ?thesis
  proof (cases r)
    case (Inl e')
    from run_errors [OF Some [unfolded Inl] assms(2)] assms(1) Some Inl show ?thesis
      by (auto simp: Collect_def split: if_split_asm)
  next
    case (Inr x)
    with assms(1) Some show ?thesis by (auto simp: Collect_def split: if_split_asm prod.split_asm)
  qed
qed

lemma Chat_errors:
  assumes "Chat p env c = Some (Inl e)" "context_ends env"
  shows "ErrOverflow \<notin> set e"
proof -
  let ?args = "[''group'', ''--db'', pr_database p, ''--chat-id'', print_int c, ''--json'']"
  from assms(1) obtain r where r: "run p env ?args 1 (append_row decode_chat) [] = Some r"
    by (auto simp: Chat_def)
  show ?thesis
  proof (cases r)
    case (Inl e')
    from run_errors [OF r [unfolded Inl] assms(2)] assms(1) r Inl show ?thesis
      by (auto simp: Chat_def)
  next
    case (Inr x)
    with assms(1) r show ?thesis by (auto simp: Chat_def split: list.split_asm)
  qed
qed

lemma operation_errors:
  assumes "context_ends env"
    and "ListChats p env n = Some (Inl e) \<or> Chat p env c = Some (Inl e) \<or> History p env c n = Some (Inl e)
      \<or> Collect p env after through n nb = Some (Inl e)"
  shows "ErrOverflow \<notin> set e"
  using assms(2)
proof (elim disjE)
  assume "ListChats p env n = Some (Inl e)"
  from run_errors [OF this [unfolded ListChats_def] assms(1)] show ?thesis by auto
next
  assume "Chat p env c = Some (Inl e)"
  then show ?thesis by (rule Chat_errors [OF _ assms(1)])
next
  assume "History p env c n = Some (Inl e)"
  from run_errors [OF this [unfolded History_def] assms(1)] show ?thesis by auto
next
  assume "Collect p env after through n nb = Some (Inl e)"
  then show ?thesis by (rule Collect_errors [OF _ assms(1)])
qed

text \<open>Output beyond the bounds fails the run with nothing but \<open>ErrFailed\<close>, whatever the handler made of the lines
  before it.\<close>

lemma loop_overflow:
  "r \<noteq> None \<Longrightarrow> stream_loop h n fin count (map (\<lambda>e. Received e None) (map Line ls @ [Final r x])) st = Some (Inl [ErrFailed])"
  by (induction ls arbitrary: count st) (auto simp: Let_def split: option.split)

lemma plays_overflow:
  assumes "\<not> fits stdout"
  obtains ls r where "plays stdout read_ok exit_ok = map (\<lambda>e. Received e None) (map Line ls @ [Final r exit_ok])" "r \<noteq> None"
proof -
  obtain tokens too_long where t: "scan_tokens maxBackendLineBytes stdout = (tokens, too_long)" by fastforce
  obtain ls overflow where e: "emit_lines 0 tokens = (ls, overflow)" by fastforce
  have "overflow \<or> too_long"
    using assms t e emit_lines_overflow [of 0 tokens] by (auto simp: fits_def)
  then show ?thesis
    by (intro that [of ls "if overflow then Some ReadOverflow else if too_long then Some ReadTooLong
        else if read_ok then None else Some ReadIO"]) (auto simp: plays_def stream_events_def t e)
qed

lemma run_overflow:
  assumes "\<forall>args. re_start env args = Some (plays stdout read_ok exit_ok)" "\<not> fits stdout"
  shows "run p env args n h st = Some (Inl [ErrFailed])"
proof (cases "checkIdentity p (re_before env)")
  case (Inl e)
  then have "e = [ErrFailed]" by (auto simp: checkIdentity_def split: if_split_asm option.split_asm)
  with Inl show ?thesis by (simp add: run_def)
next
  case (Inr u)
  obtain ls r where "plays stdout read_ok exit_ok = map (\<lambda>e. Received e None) (map Line ls @ [Final r exit_ok])" "r \<noteq> None"
    by (rule plays_overflow [OF assms(2)])
  with Inr assms(1) loop_overflow [of r h n "checkIdentity p (re_after env)" 0 ls exit_ok st]
  show ?thesis by (simp add: run_def)
qed

lemma operations_overflow:
  assumes "\<forall>args. re_start env args = Some (plays stdout read_ok exit_ok)" "\<not> fits stdout"
  shows "ListChats p env n = Some (Inl [ErrFailed])" "Chat p env c = Some (Inl [ErrFailed])"
    "History p env c n = Some (Inl [ErrFailed])"
    "pr_bounded_collection p \<Longrightarrow> Collect p env after through n nb = Some (Inl [ErrFailed])"
  by (simp_all add: ListChats_def Chat_def History_def Collect_def run_overflow [OF assms])

lemma streams_overflow:
  assumes "streams c acc s" "\<not> fits (sr_output c)"
  shows "st_result s \<noteq> Some (Inr x)"
proof
  assume r: "st_result s = Some (Inr x)"
  from stream_result_loop [OF assms(1) r] obtain lines where "clean_trace lines (st_seen s)"
    by (auto simp: stream_loop_ok)
  with stream_success [OF assms(1) r] assms(2) clean_trace_plays show False by simp
qed

text \<open>What the client is told.\<close>

definition told_unavailable :: "string \<Rightarrow> reply" where
  "told_unavailable i = Failure i ''backend_unavailable'' ''imsg backend request failed'' True"

lemma ErrFailed_told: "backendFailure i [ErrFailed] = told_unavailable i"
  by (simp add: backendFailure_def told_unavailable_def)

lemma listChats_overflow:
  assumes "\<forall>args. re_start (mo_run (E t)) args = Some (plays stdout read_ok exit_ok)" "\<not> fits stdout"
    and "decode_list_chats (rq_params req) = Inr params"
    and "lc_limit params = 0 \<or> 1 \<le> lc_limit params \<and> lc_limit params \<le> cf_max_results cfg"
  shows "listChats (assembled E je cfg b) req t = (told_unavailable (rq_id req), Suc t)"
proof -
  obtain limit where "normalizeLimit (lc_limit params) 20 (cf_max_results cfg) = Inr limit"
    using assms(4) by (auto simp: normalizeLimit_def)
  then show ?thesis
    by (simp add: listChats_def Let_def assms(3) or_return_def backend_call_def answered_def
        operations_overflow(1) [OF assms(1,2)] ErrFailed_told)
qed

lemma collect_from_overflow:
  assumes "\<forall>args. re_start (mo_run (E t)) args = Some (plays stdout read_ok exit_ok)" "\<not> fits stdout"
    and "pr_bounded_collection (bu_process b)"
  shows "collect_from (assembled E je cfg b) i limit c t = (Some (told_unavailable i), Suc t)"
  by (simp add: collect_from_def Let_def or_return_def backend_call_def answered_def
      operations_overflow(4) [OF assms] ErrFailed_told)

text \<open>C25: Output of the backend process beyond its bounds (a line of 2 MiB or more, or more than 64 MiB in all) is
  never accepted and never told apart from another failure.  However the goroutines interleave, the run then
  has no result; when the context stays alive, each of the four operations fails with the plain \<open>ErrFailed\<close> (a
  collection on a backend that supports it), so the client that asks for a list or a page is told
  \<open>backend_unavailable\<close>, retryable.  And no operation, whatever the process does, reports \<open>ErrOverflow\<close>
  (a context ends by a deadline or a cancellation), so its failure never becomes \<open>collection_overflow\<close>.\<close>

theorem overflow_reported_unavailable:
  assumes "\<forall>args. re_start env args = Some (plays stdout read_ok exit_ok)" "\<not> fits stdout"
  shows "(\<forall>(r :: 's stream_run) acc s x. streams r acc s \<and> sr_output r = stdout \<longrightarrow> st_result s \<noteq> Some (Inr x))
     \<and> ListChats p env n = Some (Inl [ErrFailed]) \<and> Chat p env c = Some (Inl [ErrFailed])
     \<and> History p env c n = Some (Inl [ErrFailed])
     \<and> (pr_bounded_collection p \<longrightarrow> Collect p env after through n nb = Some (Inl [ErrFailed]))
     \<and> (\<forall>E je cfg b req t params. mo_run (E t) = env \<and> mo_context (E (Suc t)) = None
          \<and> rq_method req = MethodListChats \<and> decode_list_chats (rq_params req) = Inr params
          \<and> (lc_limit params = 0 \<or> 1 \<le> lc_limit params \<and> lc_limit params \<le> cf_max_results cfg) \<longrightarrow>
          dispatch (assembled E je cfg b) req t =
            (Some (Failure (rq_id req) ''backend_unavailable'' ''imsg backend request failed'' True), Suc (Suc t)))
     \<and> (\<forall>E je cfg b i limit cur t. mo_run (E t) = env \<and> pr_bounded_collection (bu_process b) \<longrightarrow>
          collect_from (assembled E je cfg b) i limit cur t =
            (Some (Failure i ''backend_unavailable'' ''imsg backend request failed'' True), Suc t))
     \<and> (\<forall>env e i. context_ends env \<and> (ListChats p env n = Some (Inl e) \<or> Chat p env c = Some (Inl e)
            \<or> History p env c n = Some (Inl e) \<or> Collect p env after through n nb = Some (Inl e)) \<longrightarrow>
          ErrOverflow \<notin> set e \<and> rs_error (backendFailure i e) \<noteq>
            Some \<lparr>eb_code = ''collection_overflow'',
                  eb_message = ''backend output exceeded a safe response or scan bound'', eb_retryable = False\<rparr>)"
proof (intro conjI allI impI)
  fix E :: course and je and cfg :: config and b :: built and req :: request and t and params :: list_chats_params
  assume a: "mo_run (E t) = env \<and> mo_context (E (Suc t)) = None
      \<and> rq_method req = MethodListChats \<and> decode_list_chats (rq_params req) = Inr params
      \<and> (lc_limit params = 0 \<or> 1 \<le> lc_limit params \<and> lc_limit params \<le> cf_max_results cfg)"
  then have l: "listChats (assembled E je cfg b) req t = (told_unavailable (rq_id req), Suc t)"
    using listChats_overflow [of E t stdout read_ok exit_ok req params cfg je b] assms by simp
  have "MethodListChats \<noteq> MethodSystemPing" "MethodListChats \<noteq> MethodSystemInfo"
    by (simp_all add: MethodListChats_def MethodSystemPing_def MethodSystemInfo_def)
  with a l show "dispatch (assembled E je cfg b) req t =
      (Some (Failure (rq_id req) ''backend_unavailable'' ''imsg backend request failed'' True), Suc (Suc t))"
    by (simp add: dispatch_def handle_def told_unavailable_def)
next
  fix E :: course and je and cfg :: config and b :: built and i limit and cur :: cursor and t
  assume "mo_run (E t) = env \<and> pr_bounded_collection (bu_process b)"
  then show "collect_from (assembled E je cfg b) i limit cur t =
      (Some (Failure i ''backend_unavailable'' ''imsg backend request failed'' True), Suc t)"
    using collect_from_overflow [of E t stdout read_ok exit_ok b je cfg i limit cur] assms
    by (simp add: told_unavailable_def)
next
  fix env :: run_env and e i
  assume "context_ends env \<and> (ListChats p env n = Some (Inl e) \<or> Chat p env c = Some (Inl e)
            \<or> History p env c n = Some (Inl e) \<or> Collect p env after through n nb = Some (Inl e))"
  then show o: "ErrOverflow \<notin> set e" using operation_errors by blast
  then show "rs_error (backendFailure i e) \<noteq>
            Some \<lparr>eb_code = ''collection_overflow'',
                  eb_message = ''backend output exceeded a safe response or scan bound'', eb_retryable = False\<rparr>"
    by (auto simp: backendFailure_def Failure_def)
next
  fix r :: "'s stream_run" and acc s x
  assume "streams r acc s \<and> sr_output r = stdout"
  then show "st_result s \<noteq> Some (Inr x)" using streams_overflow [of r acc s x] assms(2) by simp
qed (use operations_overflow [OF assms] in simp_all)

definition overflow_process :: process where
  "overflow_process = \<lparr>pr_path = ''/b'', pr_database = ''/d'', pr_generation = [], pr_identity = ''1:2'',
     pr_bounded_collection = True, pr_account_id = []\<rparr>"

definition overflow_env :: run_env where
  "overflow_env = \<lparr>re_before = \<lparr>fs_owner_ok = \<lambda>_ _. True, fs_stat = \<lambda>_. Some (1, 2)\<rparr>,
     re_start = \<lambda>_. Some (plays (replicate maxBackendLineBytes CHR ''x'') True True),
     re_after = \<lparr>fs_owner_ok = \<lambda>_ _. True, fs_stat = \<lambda>_. Some (1, 2)\<rparr>\<rparr>"

lemma overflow_reported_unavailable_witness:
  "\<not> fits (replicate maxBackendLineBytes CHR ''x'') \<and> checkIdentity overflow_process (re_before overflow_env) = Inr ()
     \<and> ListChats overflow_process overflow_env 5 = Some (Inl [ErrFailed])"
proof -
  let ?out = "replicate maxBackendLineBytes CHR ''x''"
  have "maxBackendLineBytes \<noteq> 0" by (simp add: maxBackendLineBytes_def)
  then have "scan_tokens maxBackendLineBytes ?out = ([], True)"
    by (subst scan_tokens.simps) (simp add: Let_def takeWhile_replicate)
  then have f: "\<not> fits ?out" by (simp add: fits_def)
  have e: "\<forall>args. re_start overflow_env args = Some (plays ?out True True)" by (simp add: overflow_env_def)
  have "checkIdentity overflow_process (re_before overflow_env) = Inr ()"
    using print_identity_example
    by (simp add: checkIdentity_def databaseIdentity_def overflow_process_def overflow_env_def)
  moreover note overflow_reported_unavailable [OF e f, where p = overflow_process and n = 5, THEN conjunct2, THEN conjunct1]
  ultimately show ?thesis using f by (intro conjI)
qed

end
